(* ===== verification/Nvme_Prelude.thy ===== *)
theory Nvme_Prelude
  imports Main "HOL-Library.Word" "HOL-Library.Multiset"
begin

text \<open>
  Shared vocabulary of the development: the machine integer types of the driver, the error
  values that stand for thrown exceptions and failed assertions, the bit slices behind the
  \<^verbatim>\<open>CXX_BITFIELD_MEMBER\<close> declarations, page arithmetic, and the word, list and map lemmas
  that the components share.
\<close>

unbundle bit_operations_syntax

section \<open>Machine integers and errors\<close>

type_synonym u8 = "8 word"
type_synonym u16 = "16 word"
type_synonym u32 = "32 word"
type_synonym u64 = "64 word"

text \<open>
  The L4 error codes, symbolically: the code compares and returns them but never relies on their
  numbers. A system call, or an operation of the driver that hands an error code back, yields
  \<open>Inl c\<close> where the code has the negative value \<^verbatim>\<open>-c\<close> and \<open>Inr v\<close> otherwise.
\<close>

datatype l4_code =
    L4_ENOENT | L4_EIO | L4_EAGAIN | L4_ENOMEM | L4_EBUSY | L4_ENODEV | L4_EINVAL | L4_ENOSYS
  | L4_Eother nat

type_synonym 'a l4_ret = "l4_code + 'a"

text \<open>
  A driver operation that may not return normally yields \<open>Inl\<close> of one of these. \<open>Sys_error\<close>
  carries the L4 error code that \<^verbatim>\<open>L4Re::chksys\<close> or \<^verbatim>\<open>L4Re::chkcap\<close> throws as an
  \<^verbatim>\<open>L4::Runtime_error\<close>; \<open>Assert_failed\<close> is a failing \<^verbatim>\<open>assert\<close> or \<^verbatim>\<open>l4_assert\<close>; the others are
  the undefined behaviours that the code would run into (a null pointer used, a vector indexed
  out of range, a loop that never returns).
\<close>

datatype drv_error =
    Sys_error l4_code
  | Assert_failed
  | Null_deref
  | Out_of_range
  | Hang

type_synonym 'a drv_result = "drv_error + 'a"

text \<open>\<^verbatim>\<open>L4Re::chksys\<close>: an error code is thrown, anything else is returned.\<close>

fun chksys :: "'a l4_ret \<Rightarrow> 'a drv_result" where
  "chksys (Inl c) = Inl (Sys_error c)"
| "chksys (Inr v) = Inr v"

lemma chksys_Inr_iff [simp]: "chksys r = Inr v \<longleftrightarrow> r = Inr v"
  by (cases r) auto

text \<open>Sequencing of operations that may throw.\<close>

fun bind_res :: "'a drv_result \<Rightarrow> ('a \<Rightarrow> 'b drv_result) \<Rightarrow> 'b drv_result" where
  "bind_res (Inl e) f = Inl e"
| "bind_res (Inr a) f = f a"

lemma bind_res_Inr_iff: "bind_res r f = Inr b \<longleftrightarrow> (\<exists>a. r = Inr a \<and> f a = Inr b)"
  by (cases r) auto

lemma bind_res_cong [fundef_cong]:
  "r = r' \<Longrightarrow> (\<And>a. r' = Inr a \<Longrightarrow> f a = g a) \<Longrightarrow> bind_res r f = bind_res r' g"
  by (cases r') auto

section \<open>Pages\<close>

text \<open>
  The page size of the L4 architectures the driver runs on (amd64 and arm64: 4 KiB pages, 64 bit
  \<^verbatim>\<open>l4_size_t\<close> and \<^verbatim>\<open>l4_addr_t\<close>).
\<close>

definition L4_PAGESHIFT :: nat where "L4_PAGESHIFT = 12"
definition L4_PAGESIZE :: u64 where "L4_PAGESIZE = 4096"

definition l4_trunc_page :: "u64 \<Rightarrow> u64" where
  "l4_trunc_page a = a AND NOT (mask L4_PAGESHIFT)"

definition l4_round_page :: "u64 \<Rightarrow> u64" where
  "l4_round_page a = (a + L4_PAGESIZE - 1) AND NOT (mask L4_PAGESHIFT)"

named_theorems page_simps
lemmas [page_simps] = L4_PAGESHIFT_def L4_PAGESIZE_def

lemma unat_and_not_mask:
  fixes w :: "'a::len word"
  shows "unat (w AND NOT (mask n)) = unat w - unat w mod 2 ^ n"
proof -
  have "w AND NOT (mask n) = w - (w AND mask n)"
  proof -
    have "w = (w AND mask n) OR (w AND NOT (mask n))"
      by (simp add: bit.conj_disj_distrib [symmetric])
    also have "\<dots> = (w AND mask n) + (w AND NOT (mask n))"
      by (rule disjunctive_add [symmetric]) (auto simp: bit_simps)
    finally show ?thesis by (simp add: algebra_simps)
  qed
  moreover have "w AND mask n \<le> w"
    by (rule word_and_le2)
  ultimately have "unat (w AND NOT (mask n)) = unat w - unat (w AND mask n)"
    by (simp add: unat_sub)
  moreover have "unat (w AND mask n) = unat w mod 2 ^ n"
    by (simp only: take_bit_eq_mask [symmetric] unsigned_take_bit_eq) (simp add: take_bit_eq_mod)
  ultimately show ?thesis by simp
qed

lemma unat_trunc_page: "unat (l4_trunc_page a) = unat a - unat a mod 4096"
  by (simp add: l4_trunc_page_def unat_and_not_mask page_simps)

lemma unat_trunc_page_div: "unat (l4_trunc_page a) = 4096 * (unat a div 4096)"
  using minus_mod_eq_mult_div [of "unat a" 4096] by (simp add: unat_trunc_page)

section \<open>Bit slices\<close>

text \<open>
  \<^verbatim>\<open>CXX_BITFIELD_MEMBER(lsb, msb, name, member)\<close> declares an accessor for the bits \<open>lsb..msb\<close>
  of an integer member: reading yields the slice, assigning replaces it (bits of the value that do
  not fit are dropped) and keeps the other bits.
\<close>

definition bf_get :: "nat \<Rightarrow> nat \<Rightarrow> 'a::len word \<Rightarrow> 'b::len word" where
  "bf_get lsb msb w = ucast (take_bit (msb + 1 - lsb) (drop_bit lsb w))"

definition bf_set :: "nat \<Rightarrow> nat \<Rightarrow> 'b::len word \<Rightarrow> 'a::len word \<Rightarrow> 'a word" where
  "bf_set lsb msb v w =
     (w AND NOT (push_bit lsb (mask (msb + 1 - lsb))))
     OR push_bit lsb (take_bit (msb + 1 - lsb) (ucast v))"

lemma bit_bf_get:
  "bit (bf_get l m w :: 'b::len word) i \<longleftrightarrow> i < LENGTH('b) \<and> i < m + 1 - l \<and> bit w (l + i)"
  by (auto simp: bf_get_def bit_simps dest: bit_imp_le_length)

lemma bit_bf_set:
  fixes v :: "'b::len word" and w :: "'a::len word"
  shows "bit (bf_set l m v w) i \<longleftrightarrow> i < LENGTH('a) \<and>
    (if l \<le> i \<and> i \<le> m then bit v (i - l) else bit w i)"
  by (auto simp: bf_set_def bit_simps dest: bit_imp_le_length)

lemma bf_get_set:
  fixes v :: "'b::len word" and w :: "'a::len word"
  assumes "l \<le> m" and "m < LENGTH('a)"
  shows "bf_get l m (bf_set l m v w) = take_bit (m + 1 - l) v"
  using assms by (intro bit_word_eqI) (auto simp: bit_bf_get bit_bf_set bit_simps)

lemma take_bit_bf_get: "take_bit (m + 1 - l) (bf_get l m w) = bf_get l m w"
  by (intro bit_word_eqI) (auto simp: bit_bf_get bit_simps)

lemma unat_bf_get_less: "unat (bf_get l m (w :: 'a::len word) :: 'b::len word) < 2 ^ (m + 1 - l)"
  by (metis take_bit_bf_get take_bit_nat_less_exp unsigned_take_bit_eq)

lemma bf_get_set_other [simp]:
  assumes "m' < l \<or> m < l'"
  shows "bf_get l' m' (bf_set l m v w) = bf_get l' m' w"
  using assms by (intro bit_word_eqI) (auto simp: bit_bf_get bit_bf_set dest: bit_imp_le_length)

lemma bf_set_set:
  "bf_set l m v (bf_set l m u w) = bf_set l m v w"
  by (intro bit_word_eqI) (auto simp: bit_bf_set)

lemma bf_set_get:
  fixes w :: "'a::len word"
  assumes "l \<le> m" and "m + 1 - l \<le> LENGTH('b)"
  shows "bf_set l m (bf_get l m w :: 'b::len word) w = w"
  using assms by (intro bit_word_eqI) (auto simp: bit_bf_get bit_bf_set)

lemma bf_set_commute:
  assumes "m < l' \<or> m' < l"
  shows "bf_set l m v (bf_set l' m' v' w) = bf_set l' m' v' (bf_set l m v w)"
  using assms by (intro bit_word_eqI) (auto simp: bit_bf_set)

text \<open>
  What a client relies on from one such accessor of a structure: \<open>get\<close> and \<open>put\<close> with the values
  that fit the field. The structures of the driver interpret it for the fields they assign.
\<close>

locale bitfield =
  fixes get :: "'s \<Rightarrow> 'v"
    and put :: "'v \<Rightarrow> 's \<Rightarrow> 's"
    and fits :: "'v \<Rightarrow> bool"
  assumes get_put: "fits v \<Longrightarrow> get (put v s) = v"
    and put_put: "put v (put u s) = put v s"
    and put_get: "put (get s) s = s"
    and fits_get: "fits (get s)"
begin

lemma put_get_id: "get s = v \<Longrightarrow> put v s = s"
  using put_get by blast

lemma put_inject: "fits u \<Longrightarrow> fits v \<Longrightarrow> put u s = put v s \<longleftrightarrow> u = v"
  using get_put by metis

lemma get_eq_iff: "fits v \<Longrightarrow> get s = v \<longleftrightarrow> put v s = s"
  using get_put put_get by metis

end

lemma take_bit_length_word [simp]: "LENGTH('a) \<le> n \<Longrightarrow> take_bit n (w :: 'a::len word) = w"
  by (intro bit_word_eqI) (auto simp: bit_simps)

text \<open>Every slice of a word is such an accessor, for the values that fit its width.\<close>

definition bf_fits :: "nat \<Rightarrow> nat \<Rightarrow> 'b::len word \<Rightarrow> bool" where
  "bf_fits lsb msb v \<longleftrightarrow> take_bit (msb + 1 - lsb) v = v"

lemma bf_fits_wide [simp]: "LENGTH('b) \<le> m + 1 - l \<Longrightarrow> bf_fits l m (v :: 'b::len word)"
  unfolding bf_fits_def by (rule take_bit_length_word)

lemma bitfield_slice:
  assumes "l \<le> m" and "m < LENGTH('a)" and "m + 1 - l \<le> LENGTH('b)"
  shows "bitfield (bf_get l m) (bf_set l m :: 'b::len word \<Rightarrow> 'a::len word \<Rightarrow> 'a word) (bf_fits l m)"
proof
  show "bf_get l m (bf_set l m v s) = v" if "bf_fits l m v" for v :: "'b word" and s :: "'a word"
    using that assms bf_get_set [of l m v s] by (simp add: bf_fits_def)
  show "bf_set l m (bf_get l m s :: 'b word) s = s" for s :: "'a word"
    using assms by (intro bf_set_get) simp_all
  show "bf_fits l m (bf_get l m s :: 'b word)" for s :: "'a word"
    unfolding bf_fits_def by (intro bit_word_eqI) (auto simp: bit_bf_get bit_simps)
qed (rule bf_set_set)

section \<open>Reading little-endian integers from bytes\<close>

type_synonym bytes = "nat \<Rightarrow> u8"

definition rd16 :: "bytes \<Rightarrow> nat \<Rightarrow> u16" where
  "rd16 b i = ucast (b i) OR push_bit 8 (ucast (b (i + 1)))"

definition rd32 :: "bytes \<Rightarrow> nat \<Rightarrow> u32" where
  "rd32 b i = ucast (rd16 b i) OR push_bit 16 (ucast (rd16 b (i + 2)))"

definition rd64 :: "bytes \<Rightarrow> nat \<Rightarrow> u64" where
  "rd64 b i = ucast (rd32 b i) OR push_bit 32 (ucast (rd32 b (i + 4)))"

lemmas rd_defs = rd16_def rd32_def rd64_def

section \<open>Ring indices\<close>

text \<open>
  Facts about an index into a ring of \<open>n\<close> entries that runs ahead of another by less than \<open>n\<close>.
\<close>

lemma mod_eq_close:
  fixes a b n :: nat
  assumes "a mod n = b mod n" and "a \<le> b" and "b < a + n"
  shows "a = b"
proof -
  from assms(1,2) have "n dvd b - a"
    by (metis mod_eq_dvd_iff_nat)
  moreover have "b - a < n" using assms(2,3) by linarith
  ultimately have "b - a = 0"
    using nat_dvd_not_less by (cases "b - a = 0") auto
  with assms(2) show ?thesis by simp
qed

lemma mod_neq_in_window:
  fixes a b n :: nat
  assumes "a < b" and "b < a + n"
  shows "a mod n \<noteq> b mod n"
  using mod_eq_close [of a n b] assms by auto

lemma unat_eq_iff: "unat (a :: 'a::len word) = unat b \<longleftrightarrow> a = b"
  by (simp add: word_unat_eq_iff)

lemma unat_lt2p_32: "unat (w :: u32) < 2 ^ 32"
  using unsigned_less [of w, where ?'a = nat] by simp

lemma unat_ucast_mod: "unat (ucast (w :: 'a::len word) :: 'b::len word) = unat w mod 2 ^ LENGTH('b)"
  by (simp add: unsigned_ucast_eq unsigned_take_bit_eq take_bit_eq_mod)

lemma unat_ucast_up: "LENGTH('a) \<le> LENGTH('b) \<Longrightarrow> unat (ucast (w :: 'a::len word) :: 'b::len word) = unat w"
  unfolding unat_ucast_mod by (intro mod_less less_le_trans [OF unsigned_less]) simp

lemma unat_Suc_mod:
  fixes i s :: "'a::len word"
  assumes "unat i < unat s"
  shows "unat ((i + 1) mod s) = (unat i + 1) mod unat s"
proof -
  have "unat i + unat (1 :: 'a word) < 2 ^ LENGTH('a)"
    using le_less_trans [OF Suc_leI [OF assms] unsigned_less] by simp
  then have "unat (i + 1) = unat i + 1"
    by (simp only: unat_add_lem) simp
  then show ?thesis by (simp add: unat_mod)
qed

section \<open>Lists\<close>

lemma list_update_drop_all: "length xs \<le> i \<Longrightarrow> xs[i := x] = xs"
  by (rule list_update_beyond)

text \<open>The number of occupied slots of a vector of optional entries.\<close>

definition occupied :: "'a option list \<Rightarrow> nat" where
  "occupied xs = length (filter (\<lambda>x. x \<noteq> None) xs)"

lemma occupied_le: "occupied xs \<le> length xs"
  by (simp add: occupied_def)

lemma occupied_replicate [simp]: "occupied (replicate n None) = 0"
  by (simp add: occupied_def)

lemma occupied_full: "occupied xs = length xs \<longleftrightarrow> (\<forall>x \<in> set xs. x \<noteq> None)"
  by (metis (mono_tags, lifting) filter_True length_filter_less less_irrefl occupied_def)

lemma occupied_free_slot:
  assumes "occupied xs < length xs"
  obtains i where "i < length xs" and "xs ! i = None"
  using assms occupied_full [of xs] by (metis in_set_conv_nth less_irrefl)

lemma occupied_set:
  "i < length xs \<Longrightarrow> xs ! i = None \<Longrightarrow> occupied (xs[i := Some x]) = Suc (occupied xs)"
  by (induction xs arbitrary: i) (auto simp: occupied_def split: nat.splits)

lemma occupied_clear:
  "i < length xs \<Longrightarrow> xs ! i = Some x \<Longrightarrow> Suc (occupied (xs[i := None])) = occupied xs"
  by (induction xs arbitrary: i) (auto simp: occupied_def split: nat.splits)

lemma occupied_pos: "i < length xs \<Longrightarrow> xs ! i = Some x \<Longrightarrow> 0 < occupied xs"
  using occupied_clear by fastforce

section \<open>Maps\<close>

text \<open>The values of a finite map, with multiplicity.\<close>

definition map_values :: "('k::finite \<rightharpoonup> 'v) \<Rightarrow> 'v multiset" where
  "map_values m = image_mset (\<lambda>k. the (m k)) (mset_set (dom m))"

lemma map_values_empty [simp]: "map_values Map.empty = {#}"
  by (simp add: map_values_def)

lemma mset_set_dom_upd:
  "m k = None \<Longrightarrow> mset_set (dom (m(k \<mapsto> v))) = add_mset k (mset_set (dom (m :: 'k::finite \<rightharpoonup> 'v)))"
  by (simp add: mset_set.insert_remove domIff)

lemma mset_set_dom_clear:
  "m k = Some v \<Longrightarrow> mset_set (dom (m :: 'k::finite \<rightharpoonup> 'v)) = add_mset k (mset_set (dom (m(k := None))))"
  using mset_set_dom_upd [of "m(k := None)" k v] by (simp add: map_upd_triv)

lemma map_values_upd:
  assumes "m k = None"
  shows "map_values (m(k \<mapsto> v)) = add_mset v (map_values m)"
proof -
  have "image_mset (\<lambda>j. the ((m(k \<mapsto> v)) j)) (mset_set (dom m)) =
      image_mset (\<lambda>j. the (m j)) (mset_set (dom m))"
    using assms by (intro image_mset_cong) auto
  then show ?thesis
    unfolding map_values_def mset_set_dom_upd [of m k v, OF assms] by simp
qed

lemma map_values_clear:
  assumes "m k = Some v"
  shows "map_values m = add_mset v (map_values (m(k := None)))"
  using map_values_upd [of "m(k := None)" k v] assms by (simp add: map_upd_triv)

end
