(* ===== verification/Nvme_Types.thy ===== *)
theory Nvme_Types
  imports Nvme_Prelude
begin

text \<open>
  \<^verbatim>\<open>server/src/nvme_types.h\<close>: the enumerations of the NVMe command set with their codes, the offsets
  into the Identify data structures, the SGL descriptor and PRP list entry, and the controller
  registers with their bit fields.
\<close>

section \<open>Enumerations\<close>

definition Aq_id :: u16 where "Aq_id = 0"
definition Ioq_id :: u16 where "Ioq_id = 1"

text \<open>Admin Command Set, Identify structures, I/O Command Set, data transfer selection.\<close>

datatype acs = Create_iosq | Create_iocq | Identify

primrec acs_code :: "acs \<Rightarrow> u8" where
  "acs_code Create_iosq = 1"
| "acs_code Create_iocq = 5"
| "acs_code Identify = 6"

datatype cns = Identify_namespace | Identify_controller

primrec cns_code :: "cns \<Rightarrow> u8" where
  "cns_code Identify_namespace = 0"
| "cns_code Identify_controller = 1"

datatype iocs = Write | Read | Write_zeroes

primrec iocs_code :: "iocs \<Rightarrow> u8" where
  "iocs_code Write = 1"
| "iocs_code Read = 2"
| "iocs_code Write_zeroes = 8"

datatype psdt = Use_prps | Use_sgls

primrec psdt_code :: "psdt \<Rightarrow> u8" where
  "psdt_code Use_prps = 0"
| "psdt_code Use_sgls = 1"

datatype sgl_kind = Data | Last_segment_addr

primrec sgl_kind_code :: "sgl_kind \<Rightarrow> u8" where
  "sgl_kind_code Data = 0"
| "sgl_kind_code Last_segment_addr = 0x30"

text \<open>Byte offsets into the Identify Namespace and Identify Controller data.\<close>

datatype cns_in = Nsze | Ncap | Nuse | Nsfeat | Nlbaf | Flbas | Dlfeat | Nsattr | Lbaf0

primrec cns_in_off :: "cns_in \<Rightarrow> nat" where
  "cns_in_off Nsze = 0"
| "cns_in_off Ncap = 8"
| "cns_in_off Nuse = 16"
| "cns_in_off Nsfeat = 24"
| "cns_in_off Nlbaf = 25"
| "cns_in_off Flbas = 26"
| "cns_in_off Dlfeat = 33"
| "cns_in_off Nsattr = 99"
| "cns_in_off Lbaf0 = 128"

datatype cns_ic = Sn | Mn | Fr | Mdts | Cntlid | Nn | Sgls

primrec cns_ic_off :: "cns_ic \<Rightarrow> nat" where
  "cns_ic_off Sn = 4"
| "cns_ic_off Mn = 24"
| "cns_ic_off Fr = 64"
| "cns_ic_off Mdts = 77"
| "cns_ic_off Cntlid = 78"
| "cns_ic_off Nn = 516"
| "cns_ic_off Sgls = 536"

definition Nsattr_Wp :: u8 where "Nsattr_Wp = 1"

text \<open>Controller register offsets.\<close>

datatype ctl_reg = Reg_Cap | Reg_Vs | Reg_Intms | Reg_Intmc | Reg_Cc | Reg_Csts | Reg_Nssr | Reg_Aqa | Reg_Asq | Reg_Acq | Reg_Sq0tdbl

primrec ctl_reg_off :: "ctl_reg \<Rightarrow> u32" where
  "ctl_reg_off Reg_Cap = 0x00"
| "ctl_reg_off Reg_Vs = 0x08"
| "ctl_reg_off Reg_Intms = 0x0c"
| "ctl_reg_off Reg_Intmc = 0x10"
| "ctl_reg_off Reg_Cc = 0x14"
| "ctl_reg_off Reg_Csts = 0x1c"
| "ctl_reg_off Reg_Nssr = 0x20"
| "ctl_reg_off Reg_Aqa = 0x24"
| "ctl_reg_off Reg_Asq = 0x28"
| "ctl_reg_off Reg_Acq = 0x30"
| "ctl_reg_off Reg_Sq0tdbl = 0x1000"

definition Cc_Ams_rr :: u8 where "Cc_Ams_rr = 0"
definition Cc_Css_nvm :: u8 where "Cc_Css_nvm = 0"

section \<open>SGL descriptors and PRP list entries\<close>

record sgl_desc =
  sgl_addr :: u64
  sgl_len :: u32
  sgl_res :: "24 word"
  sgl_id :: u8

definition sizeof_Sgl_desc :: nat where "sizeof_Sgl_desc = 16"

text \<open>A PRP list entry is one 64 bit address.\<close>

type_synonym prp_list_entry = u64

definition sizeof_Prp_list_entry :: nat where "sizeof_Prp_list_entry = 8"

section \<open>Bit fields of the namespace features and the controller registers\<close>

text \<open>Deallocate Logical Block Features.\<close>

definition dlfeat_deallocwz :: "u8 \<Rightarrow> bool" where "dlfeat_deallocwz raw = (bf_get 3 3 raw \<noteq> (0 :: u8))"
definition dlfeat_dlbrdbhv :: "u8 \<Rightarrow> u8" where "dlfeat_dlbrdbhv raw = bf_get 0 2 raw"

text \<open>Controller Capabilities.\<close>

definition cap_cmbs :: "u64 \<Rightarrow> u8" where "cap_cmbs raw = bf_get 57 57 raw"
definition cap_pmrs :: "u64 \<Rightarrow> u8" where "cap_pmrs raw = bf_get 56 56 raw"
definition cap_mpsmax :: "u64 \<Rightarrow> u8" where "cap_mpsmax raw = bf_get 52 55 raw"
definition cap_mpsmin :: "u64 \<Rightarrow> u8" where "cap_mpsmin raw = bf_get 48 51 raw"
definition cap_bps :: "u64 \<Rightarrow> u8" where "cap_bps raw = bf_get 45 45 raw"
definition cap_css :: "u64 \<Rightarrow> u8" where "cap_css raw = bf_get 37 44 raw"
definition cap_noio_css :: "u64 \<Rightarrow> u8" where "cap_noio_css raw = bf_get 44 44 raw"
definition cap_nvm_css :: "u64 \<Rightarrow> u8" where "cap_nvm_css raw = bf_get 37 37 raw"
definition cap_nssrs :: "u64 \<Rightarrow> u8" where "cap_nssrs raw = bf_get 36 36 raw"
definition cap_dstrd :: "u64 \<Rightarrow> u8" where "cap_dstrd raw = bf_get 32 35 raw"
definition cap_to :: "u64 \<Rightarrow> u8" where "cap_to raw = bf_get 24 31 raw"
definition cap_ams :: "u64 \<Rightarrow> u8" where "cap_ams raw = bf_get 17 18 raw"
definition cap_cqr :: "u64 \<Rightarrow> u8" where "cap_cqr raw = bf_get 16 16 raw"
definition cap_mqes :: "u64 \<Rightarrow> u16" where "cap_mqes raw = bf_get 0 15 raw"

text \<open>Version.\<close>

definition ver_mjr :: "u32 \<Rightarrow> u16" where "ver_mjr raw = bf_get 16 31 raw"
definition ver_mnr :: "u32 \<Rightarrow> u8" where "ver_mnr raw = bf_get 8 15 raw"
definition ver_ter :: "u32 \<Rightarrow> u8" where "ver_ter raw = bf_get 0 7 raw"

text \<open>Controller Configuration: read and written.\<close>

definition cc_iocqes :: "u32 \<Rightarrow> u8" where "cc_iocqes raw = bf_get 20 23 raw"
definition cc_set_iocqes :: "u8 \<Rightarrow> u32 \<Rightarrow> u32" where "cc_set_iocqes v raw = bf_set 20 23 v raw"
definition cc_iosqes :: "u32 \<Rightarrow> u8" where "cc_iosqes raw = bf_get 16 19 raw"
definition cc_set_iosqes :: "u8 \<Rightarrow> u32 \<Rightarrow> u32" where "cc_set_iosqes v raw = bf_set 16 19 v raw"
definition cc_shn :: "u32 \<Rightarrow> u8" where "cc_shn raw = bf_get 14 15 raw"
definition cc_set_shn :: "u8 \<Rightarrow> u32 \<Rightarrow> u32" where "cc_set_shn v raw = bf_set 14 15 v raw"
definition cc_ams :: "u32 \<Rightarrow> u8" where "cc_ams raw = bf_get 11 13 raw"
definition cc_set_ams :: "u8 \<Rightarrow> u32 \<Rightarrow> u32" where "cc_set_ams v raw = bf_set 11 13 v raw"
definition cc_mps :: "u32 \<Rightarrow> u8" where "cc_mps raw = bf_get 7 10 raw"
definition cc_set_mps :: "u8 \<Rightarrow> u32 \<Rightarrow> u32" where "cc_set_mps v raw = bf_set 7 10 v raw"
definition cc_css :: "u32 \<Rightarrow> u8" where "cc_css raw = bf_get 4 6 raw"
definition cc_set_css :: "u8 \<Rightarrow> u32 \<Rightarrow> u32" where "cc_set_css v raw = bf_set 4 6 v raw"
definition cc_en :: "u32 \<Rightarrow> u8" where "cc_en raw = bf_get 0 0 raw"
definition cc_set_en :: "u8 \<Rightarrow> u32 \<Rightarrow> u32" where "cc_set_en v raw = bf_set 0 0 v raw"

text \<open>Controller Status.\<close>

definition csts_pp :: "u32 \<Rightarrow> u8" where "csts_pp raw = bf_get 5 5 raw"
definition csts_nssro :: "u32 \<Rightarrow> u8" where "csts_nssro raw = bf_get 4 4 raw"
definition csts_shst :: "u32 \<Rightarrow> u8" where "csts_shst raw = bf_get 2 3 raw"
definition csts_cfs :: "u32 \<Rightarrow> u8" where "csts_cfs raw = bf_get 1 1 raw"
definition csts_rdy :: "u32 \<Rightarrow> u8" where "csts_rdy raw = bf_get 0 0 raw"

text \<open>Admin Queue Attributes.\<close>

definition aqa_acqs :: "u32 \<Rightarrow> u16" where "aqa_acqs raw = bf_get 16 27 raw"
definition aqa_set_acqs :: "u16 \<Rightarrow> u32 \<Rightarrow> u32" where "aqa_set_acqs v raw = bf_set 16 27 v raw"
definition aqa_asqs :: "u32 \<Rightarrow> u16" where "aqa_asqs raw = bf_get 0 11 raw"
definition aqa_set_asqs :: "u16 \<Rightarrow> u32 \<Rightarrow> u32" where "aqa_set_asqs v raw = bf_set 0 11 v raw"

lemmas cc_fields =
  cc_iocqes_def cc_set_iocqes_def cc_iosqes_def cc_set_iosqes_def cc_shn_def cc_set_shn_def cc_ams_def cc_set_ams_def cc_mps_def cc_set_mps_def cc_css_def cc_set_css_def cc_en_def cc_set_en_def

lemmas aqa_fields = aqa_acqs_def aqa_set_acqs_def aqa_asqs_def aqa_set_asqs_def

text \<open>The writable fields behave as independent accessors.\<close>

interpretation cc_iocqes: bitfield cc_iocqes cc_set_iocqes "bf_fits 20 23"
  unfolding cc_iocqes_def [abs_def] cc_set_iocqes_def [abs_def] by (rule bitfield_slice) simp_all

interpretation cc_iosqes: bitfield cc_iosqes cc_set_iosqes "bf_fits 16 19"
  unfolding cc_iosqes_def [abs_def] cc_set_iosqes_def [abs_def] by (rule bitfield_slice) simp_all

interpretation cc_shn: bitfield cc_shn cc_set_shn "bf_fits 14 15"
  unfolding cc_shn_def [abs_def] cc_set_shn_def [abs_def] by (rule bitfield_slice) simp_all

interpretation cc_ams: bitfield cc_ams cc_set_ams "bf_fits 11 13"
  unfolding cc_ams_def [abs_def] cc_set_ams_def [abs_def] by (rule bitfield_slice) simp_all

interpretation cc_mps: bitfield cc_mps cc_set_mps "bf_fits 7 10"
  unfolding cc_mps_def [abs_def] cc_set_mps_def [abs_def] by (rule bitfield_slice) simp_all

interpretation cc_css: bitfield cc_css cc_set_css "bf_fits 4 6"
  unfolding cc_css_def [abs_def] cc_set_css_def [abs_def] by (rule bitfield_slice) simp_all

interpretation cc_en: bitfield cc_en cc_set_en "bf_fits 0 0"
  unfolding cc_en_def [abs_def] cc_set_en_def [abs_def] by (rule bitfield_slice) simp_all

interpretation aqa_acqs: bitfield aqa_acqs aqa_set_acqs "bf_fits 16 27"
  unfolding aqa_acqs_def [abs_def] aqa_set_acqs_def [abs_def] by (rule bitfield_slice) simp_all

interpretation aqa_asqs: bitfield aqa_asqs aqa_set_asqs "bf_fits 0 11"
  unfolding aqa_asqs_def [abs_def] aqa_set_asqs_def [abs_def] by (rule bitfield_slice) simp_all

end
