(* ===== verification/Dma_Buffer.thy ===== *)
theory Dma_Buffer
  imports Nvme_Types
begin

text \<open>
  \<^verbatim>\<open>server/src/inout_buffer.h\<close> and \<^verbatim>\<open>server/src/iomem.h\<close>: DMA-capable memory and mapped device
  registers. The answers of the L4Re services (capability allocator, memory allocator, region map,
  DMA space) are arguments: each constructor takes the answer of every call it makes.
\<close>

section \<open>Inout\_buffer\<close>

datatype direction = To_device | From_device

text \<open>What the services answer to the calls of one constructor run.\<close>

record buffer_answers =
  ans_cap :: "unit l4_ret"
  ans_alloc :: "unit l4_ret"
  ans_attach :: "u64 l4_ret"
  ans_map :: "(u64 \<times> u64) l4_ret"  \<comment> \<open>the mapped size and the DMA address\<close>

record inout_buffer =
  ib_size :: u64
  ib_region :: u64
  ib_paddr :: u64
  ib_dir :: direction

definition inout_buffer_new ::
  "buffer_answers \<Rightarrow> u64 \<Rightarrow> direction \<Rightarrow> inout_buffer drv_result" where
  "inout_buffer_new ans sz dir =
     bind_res (chksys (ans_cap ans)) (\<lambda>_.
     bind_res (chksys (ans_alloc ans)) (\<lambda>_.
     bind_res (chksys (ans_attach ans)) (\<lambda>region.
     bind_res (chksys (ans_map ans)) (\<lambda>(out_size, paddr).
       if out_size < sz then Inl (Sys_error L4_ENOMEM)
       else Inr \<lparr>ib_size = sz, ib_region = region, ib_paddr = paddr, ib_dir = dir\<rparr>))))"

text \<open>
  The unmap request that \<^verbatim>\<open>unmap()\<close> sends to the DMA space, \<^verbatim>\<open>unmap()\<close> itself (with the answer to
  that request) and the destructor, which unmaps only what is still mapped. Both return the
  requests they send.
\<close>

type_synonym unmap_request = "u64 \<times> u64 \<times> direction"

definition unmap_request :: "inout_buffer \<Rightarrow> unmap_request" where
  "unmap_request b = (ib_paddr b, ib_size b, ib_dir b)"

definition inout_buffer_unmap ::
  "(unmap_request \<Rightarrow> unit l4_ret) \<Rightarrow> inout_buffer \<Rightarrow> (unmap_request list \<times> inout_buffer) drv_result"
where
  "inout_buffer_unmap ans b =
     bind_res (chksys (ans (unmap_request b))) (\<lambda>_.
       Inr ([unmap_request b], b\<lparr>ib_paddr := 0\<rparr>))"

definition inout_buffer_destroy ::
  "(unmap_request \<Rightarrow> unit l4_ret) \<Rightarrow> inout_buffer \<Rightarrow> unmap_request list drv_result" where
  "inout_buffer_destroy ans b =
     (if ib_paddr b \<noteq> 0 then bind_res (inout_buffer_unmap ans b) (\<lambda>(reqs, _). Inr reqs)
      else Inr [])"

text \<open>The offsets are \<^verbatim>\<open>unsigned\<close>, 32 bits wide.\<close>

definition inout_buffer_get :: "inout_buffer \<Rightarrow> u32 \<Rightarrow> u64" where
  "inout_buffer_get b offset = ib_region b + ucast offset"

definition inout_buffer_pget :: "inout_buffer \<Rightarrow> u32 \<Rightarrow> u64" where
  "inout_buffer_pget b offset = ib_paddr b + ucast offset"

lemma inout_buffer_new_Inr_iff:
  "inout_buffer_new ans sz dir = Inr b \<longleftrightarrow>
     ans_cap ans = Inr () \<and> ans_alloc ans = Inr () \<and> ans_attach ans = Inr (ib_region b) \<and>
     (\<exists>out. ans_map ans = Inr (out, ib_paddr b) \<and> sz \<le> out) \<and>
     ib_size b = sz \<and> ib_dir b = dir"
  by (cases b) (auto simp: inout_buffer_new_def bind_res_Inr_iff not_less split: if_splits)

lemma inout_buffer_fields:
  assumes "inout_buffer_new ans sz dir = Inr b"
  shows "ib_size b = sz" and "ib_dir b = dir"
  using assms by (simp_all add: inout_buffer_new_Inr_iff)

text \<open>
  After an explicit \<^verbatim>\<open>unmap()\<close> the destructor sends nothing: a region is unmapped once, with the
  address, size and direction it was mapped with.
\<close>

lemma unmap_then_destroy:
  assumes "inout_buffer_unmap ans b = Inr (reqs, b')"
  shows "inout_buffer_destroy ans' b' = Inr []" and "reqs = [unmap_request b]"
  using assms by (auto simp: inout_buffer_unmap_def inout_buffer_destroy_def bind_res_Inr_iff)

section \<open>Iomem\<close>

text \<open>
  A mapping of device memory: the address it is attached at and the length of the attached region
  (whole pages). \<open>None\<close> is the default-constructed, detached object.
\<close>

record iomem =
  io_vaddr :: u64
  io_len :: u64

definition iomem_new :: "(u64 \<Rightarrow> u64 \<Rightarrow> u64 l4_ret) \<Rightarrow> u64 \<Rightarrow> u64 \<Rightarrow> iomem drv_result" where
  "iomem_new attach phys_addr sz =
     bind_res (chksys (attach phys_addr (l4_round_page sz))) (\<lambda>v.
       Inr \<lparr>io_vaddr = v, io_len = l4_round_page sz\<rparr>)"

lemma iomem_new_Inr_iff:
  "iomem_new attach p sz = Inr m \<longleftrightarrow>
     attach p (l4_round_page sz) = Inr (io_vaddr m) \<and> io_len m = l4_round_page sz"
  by (cases m) (auto simp: iomem_new_def bind_res_Inr_iff)

end
