(* ===== verification/Queues.thy ===== *)
theory Queues
  imports Dma_Buffer
begin

text \<open>
  \<^verbatim>\<open>server/src/queue.h\<close>: submission and completion queue entries, the common queue state, the
  submission queue with its table of outstanding callbacks, and the completion queue with its
  phase tag. Pointers into a queue's memory are slot indices; a doorbell write is returned as the
  pair of register offset and value.
\<close>

section \<open>Tunables\<close>

definition Ioq_size :: u16 where "Ioq_size = 32"
definition Ioq_sgls :: nat where "Ioq_sgls = 32"
definition Prp_list_pages :: nat where "Prp_list_pages = 2"
definition Prp_command_entries :: nat where "Prp_command_entries = 2"

definition Prp_list_entries_per_page :: nat where
  "Prp_list_entries_per_page = unat L4_PAGESIZE div sizeof_Prp_list_entry"

definition Prp_list_entries :: nat where
  "Prp_list_entries = Prp_list_pages * Prp_list_entries_per_page"

definition Prp_data_entries :: nat where
  "Prp_data_entries = Prp_command_entries + Prp_list_entries - Prp_list_pages"

lemmas queue_tunables = Ioq_size_def Ioq_sgls_def Prp_list_pages_def Prp_command_entries_def
  Prp_list_entries_per_page_def Prp_list_entries_def Prp_data_entries_def
  sizeof_Prp_list_entry_def sizeof_Sgl_desc_def page_simps

lemma Prp_list_entries_eq: "Prp_list_entries = 1024"
  and Prp_list_entries_per_page_eq: "Prp_list_entries_per_page = 512"
  and Prp_data_entries_eq: "Prp_data_entries = 1024"
  by (simp_all add: queue_tunables)

section \<open>Queue entries\<close>

record sqe =
  sqe_cdw0 :: u32
  sqe_nsid :: u32
  sqe_res :: u64
  sqe_mptr :: u64
  sqe_prp1 :: u64
  sqe_prp2 :: u64
  sqe_cdw10 :: u32
  sqe_cdw11 :: u32
  sqe_cdw12 :: u32
  sqe_cdw13 :: u32
  sqe_cdw14 :: u32
  sqe_cdw15 :: u32

definition sizeof_Sqe :: u64 where "sizeof_Sqe = 64"

definition sqe_init :: "sqe \<Rightarrow> sqe" where
  "sqe_init e = e\<lparr>sqe_cdw0 := 0, sqe_nsid := 0, sqe_mptr := 0, sqe_prp1 := 0, sqe_prp2 := 0,
     sqe_cdw10 := 0, sqe_cdw11 := 0, sqe_cdw12 := 0, sqe_cdw13 := 0, sqe_cdw14 := 0, sqe_cdw15 := 0\<rparr>"

text \<open>The bit field members of the submission queue entry, each read and assigned.\<close>

definition sqe_opc :: "sqe \<Rightarrow> u8" where "sqe_opc e = bf_get 0 7 (sqe_cdw0 e)"
definition sqe_set_opc :: "u8 \<Rightarrow> sqe \<Rightarrow> sqe" where
  "sqe_set_opc v e = e\<lparr>sqe_cdw0 := bf_set 0 7 v (sqe_cdw0 e)\<rparr>"
definition sqe_psdt :: "sqe \<Rightarrow> u8" where "sqe_psdt e = bf_get 14 15 (sqe_cdw0 e)"
definition sqe_set_psdt :: "u8 \<Rightarrow> sqe \<Rightarrow> sqe" where
  "sqe_set_psdt v e = e\<lparr>sqe_cdw0 := bf_set 14 15 v (sqe_cdw0 e)\<rparr>"
definition sqe_cid :: "sqe \<Rightarrow> u16" where "sqe_cid e = bf_get 16 31 (sqe_cdw0 e)"
definition sqe_set_cid :: "u16 \<Rightarrow> sqe \<Rightarrow> sqe" where
  "sqe_set_cid v e = e\<lparr>sqe_cdw0 := bf_set 16 31 v (sqe_cdw0 e)\<rparr>"
definition sqe_cns :: "sqe \<Rightarrow> u8" where "sqe_cns e = bf_get 0 7 (sqe_cdw10 e)"
definition sqe_set_cns :: "u8 \<Rightarrow> sqe \<Rightarrow> sqe" where
  "sqe_set_cns v e = e\<lparr>sqe_cdw10 := bf_set 0 7 v (sqe_cdw10 e)\<rparr>"
definition sqe_cntid :: "sqe \<Rightarrow> u16" where "sqe_cntid e = bf_get 16 31 (sqe_cdw10 e)"
definition sqe_set_cntid :: "u16 \<Rightarrow> sqe \<Rightarrow> sqe" where
  "sqe_set_cntid v e = e\<lparr>sqe_cdw10 := bf_set 16 31 v (sqe_cdw10 e)\<rparr>"
definition sqe_qid :: "sqe \<Rightarrow> u16" where "sqe_qid e = bf_get 0 15 (sqe_cdw10 e)"
definition sqe_set_qid :: "u16 \<Rightarrow> sqe \<Rightarrow> sqe" where
  "sqe_set_qid v e = e\<lparr>sqe_cdw10 := bf_set 0 15 v (sqe_cdw10 e)\<rparr>"
definition sqe_qsize :: "sqe \<Rightarrow> u16" where "sqe_qsize e = bf_get 16 31 (sqe_cdw10 e)"
definition sqe_set_qsize :: "u16 \<Rightarrow> sqe \<Rightarrow> sqe" where
  "sqe_set_qsize v e = e\<lparr>sqe_cdw10 := bf_set 16 31 v (sqe_cdw10 e)\<rparr>"
definition sqe_nvmsetid :: "sqe \<Rightarrow> u16" where "sqe_nvmsetid e = bf_get 0 15 (sqe_cdw11 e)"
definition sqe_set_nvmsetid :: "u16 \<Rightarrow> sqe \<Rightarrow> sqe" where
  "sqe_set_nvmsetid v e = e\<lparr>sqe_cdw11 := bf_set 0 15 v (sqe_cdw11 e)\<rparr>"
definition sqe_pc :: "sqe \<Rightarrow> u8" where "sqe_pc e = bf_get 0 0 (sqe_cdw11 e)"
definition sqe_set_pc :: "u8 \<Rightarrow> sqe \<Rightarrow> sqe" where
  "sqe_set_pc v e = e\<lparr>sqe_cdw11 := bf_set 0 0 v (sqe_cdw11 e)\<rparr>"
definition sqe_iv :: "sqe \<Rightarrow> u16" where "sqe_iv e = bf_get 16 31 (sqe_cdw11 e)"
definition sqe_set_iv :: "u16 \<Rightarrow> sqe \<Rightarrow> sqe" where
  "sqe_set_iv v e = e\<lparr>sqe_cdw11 := bf_set 16 31 v (sqe_cdw11 e)\<rparr>"
definition sqe_ien :: "sqe \<Rightarrow> u8" where "sqe_ien e = bf_get 1 1 (sqe_cdw11 e)"
definition sqe_set_ien :: "u8 \<Rightarrow> sqe \<Rightarrow> sqe" where
  "sqe_set_ien v e = e\<lparr>sqe_cdw11 := bf_set 1 1 v (sqe_cdw11 e)\<rparr>"
definition sqe_cqid :: "sqe \<Rightarrow> u16" where "sqe_cqid e = bf_get 16 31 (sqe_cdw11 e)"
definition sqe_set_cqid :: "u16 \<Rightarrow> sqe \<Rightarrow> sqe" where
  "sqe_set_cqid v e = e\<lparr>sqe_cdw11 := bf_set 16 31 v (sqe_cdw11 e)\<rparr>"
definition sqe_nlb :: "sqe \<Rightarrow> u16" where "sqe_nlb e = bf_get 0 15 (sqe_cdw12 e)"
definition sqe_set_nlb :: "u16 \<Rightarrow> sqe \<Rightarrow> sqe" where
  "sqe_set_nlb v e = e\<lparr>sqe_cdw12 := bf_set 0 15 v (sqe_cdw12 e)\<rparr>"
definition sqe_deac :: "sqe \<Rightarrow> u8" where "sqe_deac e = bf_get 25 25 (sqe_cdw12 e)"
definition sqe_set_deac :: "u8 \<Rightarrow> sqe \<Rightarrow> sqe" where
  "sqe_set_deac v e = e\<lparr>sqe_cdw12 := bf_set 25 25 v (sqe_cdw12 e)\<rparr>"

text \<open>
  The union member \<^verbatim>\<open>sgl1\<close> overlays \<^verbatim>\<open>prp1\<close> and \<^verbatim>\<open>prp2\<close>: its address is the first quadword, its
  length the low half and its identifier the top byte of the second (little endian).
\<close>

definition sqe_set_sgl1_addr :: "u64 \<Rightarrow> sqe \<Rightarrow> sqe" where
  "sqe_set_sgl1_addr v e = e\<lparr>sqe_prp1 := v\<rparr>"
definition sqe_set_sgl1_len :: "u32 \<Rightarrow> sqe \<Rightarrow> sqe" where
  "sqe_set_sgl1_len v e = e\<lparr>sqe_prp2 := bf_set 0 31 v (sqe_prp2 e)\<rparr>"
definition sqe_set_sgl1_id :: "u8 \<Rightarrow> sqe \<Rightarrow> sqe" where
  "sqe_set_sgl1_id v e = e\<lparr>sqe_prp2 := bf_set 56 63 v (sqe_prp2 e)\<rparr>"
definition sqe_sgl1 :: "sqe \<Rightarrow> sgl_desc" where
  "sqe_sgl1 e = \<lparr>sgl_addr = sqe_prp1 e, sgl_len = bf_get 0 31 (sqe_prp2 e),
     sgl_res = bf_get 32 55 (sqe_prp2 e), sgl_id = bf_get 56 63 (sqe_prp2 e)\<rparr>"

lemmas sqe_fields =
  sqe_opc_def sqe_set_opc_def
  sqe_psdt_def sqe_set_psdt_def
  sqe_cid_def sqe_set_cid_def
  sqe_cns_def sqe_set_cns_def
  sqe_cntid_def sqe_set_cntid_def
  sqe_qid_def sqe_set_qid_def
  sqe_qsize_def sqe_set_qsize_def
  sqe_nvmsetid_def sqe_set_nvmsetid_def
  sqe_pc_def sqe_set_pc_def
  sqe_iv_def sqe_set_iv_def
  sqe_ien_def sqe_set_ien_def
  sqe_cqid_def sqe_set_cqid_def
  sqe_nlb_def sqe_set_nlb_def
  sqe_deac_def sqe_set_deac_def
  sqe_set_sgl1_addr_def sqe_set_sgl1_len_def sqe_set_sgl1_id_def sqe_sgl1_def

text \<open>Every one of them is a field accessor in the sense of \<^const>\<open>bitfield\<close>.\<close>

lemma bitfield_member:
  assumes "bitfield g p fits"
    and "\<And>e v. get_mem (upd_mem (\<lambda>_. v) e) = v"
    and "\<And>e u v. upd_mem (\<lambda>_. v) (upd_mem (\<lambda>_. u) e) = upd_mem (\<lambda>_. v) e"
    and "\<And>e. upd_mem (\<lambda>_. get_mem e) e = e"
  shows "bitfield (\<lambda>e. g (get_mem e)) (\<lambda>v e. upd_mem (\<lambda>_. p v (get_mem e)) e) fits"
  using assms(2-4) bitfield.get_put [OF assms(1)] bitfield.put_put [OF assms(1)]
    bitfield.put_get [OF assms(1)] bitfield.fits_get [OF assms(1)]
  by unfold_locales simp_all

interpretation sqe_opc: bitfield sqe_opc sqe_set_opc "bf_fits 0 7"
  unfolding sqe_opc_def [abs_def] sqe_set_opc_def [abs_def]
  by (rule bitfield_member [OF bitfield_slice]) simp_all

interpretation sqe_psdt: bitfield sqe_psdt sqe_set_psdt "bf_fits 14 15"
  unfolding sqe_psdt_def [abs_def] sqe_set_psdt_def [abs_def]
  by (rule bitfield_member [OF bitfield_slice]) simp_all

interpretation sqe_cid: bitfield sqe_cid sqe_set_cid "bf_fits 16 31"
  unfolding sqe_cid_def [abs_def] sqe_set_cid_def [abs_def]
  by (rule bitfield_member [OF bitfield_slice]) simp_all

interpretation sqe_cns: bitfield sqe_cns sqe_set_cns "bf_fits 0 7"
  unfolding sqe_cns_def [abs_def] sqe_set_cns_def [abs_def]
  by (rule bitfield_member [OF bitfield_slice]) simp_all

interpretation sqe_cntid: bitfield sqe_cntid sqe_set_cntid "bf_fits 16 31"
  unfolding sqe_cntid_def [abs_def] sqe_set_cntid_def [abs_def]
  by (rule bitfield_member [OF bitfield_slice]) simp_all

interpretation sqe_qid: bitfield sqe_qid sqe_set_qid "bf_fits 0 15"
  unfolding sqe_qid_def [abs_def] sqe_set_qid_def [abs_def]
  by (rule bitfield_member [OF bitfield_slice]) simp_all

interpretation sqe_qsize: bitfield sqe_qsize sqe_set_qsize "bf_fits 16 31"
  unfolding sqe_qsize_def [abs_def] sqe_set_qsize_def [abs_def]
  by (rule bitfield_member [OF bitfield_slice]) simp_all

interpretation sqe_nvmsetid: bitfield sqe_nvmsetid sqe_set_nvmsetid "bf_fits 0 15"
  unfolding sqe_nvmsetid_def [abs_def] sqe_set_nvmsetid_def [abs_def]
  by (rule bitfield_member [OF bitfield_slice]) simp_all

interpretation sqe_pc: bitfield sqe_pc sqe_set_pc "bf_fits 0 0"
  unfolding sqe_pc_def [abs_def] sqe_set_pc_def [abs_def]
  by (rule bitfield_member [OF bitfield_slice]) simp_all

interpretation sqe_iv: bitfield sqe_iv sqe_set_iv "bf_fits 16 31"
  unfolding sqe_iv_def [abs_def] sqe_set_iv_def [abs_def]
  by (rule bitfield_member [OF bitfield_slice]) simp_all

interpretation sqe_ien: bitfield sqe_ien sqe_set_ien "bf_fits 1 1"
  unfolding sqe_ien_def [abs_def] sqe_set_ien_def [abs_def]
  by (rule bitfield_member [OF bitfield_slice]) simp_all

interpretation sqe_cqid: bitfield sqe_cqid sqe_set_cqid "bf_fits 16 31"
  unfolding sqe_cqid_def [abs_def] sqe_set_cqid_def [abs_def]
  by (rule bitfield_member [OF bitfield_slice]) simp_all

interpretation sqe_nlb: bitfield sqe_nlb sqe_set_nlb "bf_fits 0 15"
  unfolding sqe_nlb_def [abs_def] sqe_set_nlb_def [abs_def]
  by (rule bitfield_member [OF bitfield_slice]) simp_all

interpretation sqe_deac: bitfield sqe_deac sqe_set_deac "bf_fits 25 25"
  unfolding sqe_deac_def [abs_def] sqe_set_deac_def [abs_def]
  by (rule bitfield_member [OF bitfield_slice]) simp_all

record cqe =
  cqe_dw0 :: u32
  cqe_dw1 :: u32
  cqe_dw2 :: u32
  cqe_dw3 :: u32

definition sizeof_Cqe :: u64 where "sizeof_Cqe = 16"

definition cqe_init :: "cqe \<Rightarrow> cqe" where
  "cqe_init c = c\<lparr>cqe_dw3 := 0\<rparr>"

definition cqe_sqid :: "cqe \<Rightarrow> u16" where "cqe_sqid c = bf_get 16 31 (cqe_dw2 c)"
definition cqe_sqhd :: "cqe \<Rightarrow> u16" where "cqe_sqhd c = bf_get 0 15 (cqe_dw2 c)"
definition cqe_cid :: "cqe \<Rightarrow> u16" where "cqe_cid c = bf_get 0 15 (cqe_dw3 c)"
definition cqe_p :: "cqe \<Rightarrow> bool" where "cqe_p c = (bf_get 16 16 (cqe_dw3 c) \<noteq> (0 :: u8))"
definition cqe_sf :: "cqe \<Rightarrow> u16" where "cqe_sf c = bf_get 17 31 (cqe_dw3 c)"

lemmas cqe_fields = cqe_sqid_def cqe_sqhd_def cqe_cid_def cqe_p_def cqe_sf_def

lemma cqe_init_phase [simp]: "cqe_p (cqe_init c) = False"
  by (simp add: cqe_init_def cqe_p_def bf_get_def)

section \<open>The common queue state\<close>

record queue =
  q_size :: u16
  q_entry_size :: u64
  q_y :: u32
  q_dstrd :: u32
  q_head :: u16
  q_buf :: inout_buffer

definition queue_new ::
  "buffer_answers \<Rightarrow> u16 \<Rightarrow> u32 \<Rightarrow> u32 \<Rightarrow> direction \<Rightarrow> queue drv_result" where
  "queue_new ans sz y dstrd dir =
     (let entry_size = (if dir = From_device then sizeof_Cqe else sizeof_Sqe) in
      bind_res (inout_buffer_new ans (l4_round_page (ucast sz * entry_size)) dir) (\<lambda>buf.
        Inr \<lparr>q_size = sz, q_entry_size = entry_size, q_y = y, q_dstrd = dstrd, q_head = 0,
             q_buf = buf\<rparr>))"

definition phys_base :: "'a queue_scheme \<Rightarrow> u64" where
  "phys_base q = inout_buffer_pget (q_buf q) 0"

definition wrap_around :: "u16 \<Rightarrow> u16 \<Rightarrow> u16" where
  "wrap_around sz i = i mod sz"

lemma wrap_around_Suc:
  "unat i < unat sz \<Longrightarrow> unat (wrap_around sz (i + 1)) = (unat i + 1) mod unat sz"
  by (simp add: wrap_around_def unat_Suc_mod)

lemma wrap_around_less: "0 < unat sz \<Longrightarrow> unat (wrap_around sz i) < unat sz"
  by (simp add: wrap_around_def unat_mod)

section \<open>Submission queue\<close>

text \<open>
  The memory behind the queue is part of its state: the ring of entries, and, for each command
  identifier, \<^const>\<open>Ioq_sgls\<close> SGL descriptors or \<^const>\<open>Prp_list_entries\<close> PRP list entries in a buffer
  of its own (both indexed by element). \<open>fresh_memory\<close> is what newly allocated memory holds.
\<close>

record fresh_memory =
  fresh_sqe :: "nat \<Rightarrow> sqe"
  fresh_cqe :: "nat \<Rightarrow> cqe"
  fresh_sgl :: "nat \<Rightarrow> sgl_desc"
  fresh_prp :: "nat \<Rightarrow> prp_list_entry"

record 'cb submission_queue = queue +
  sq_entries :: "sqe list"
  sq_callbacks :: "'cb option list"
  sq_sgls :: "inout_buffer option"
  sq_prps :: "inout_buffer option"
  sq_sgl_mem :: "nat \<Rightarrow> sgl_desc"
  sq_prp_mem :: "nat \<Rightarrow> prp_list_entry"
  sq_tail :: u16
  sq_in_flight :: u16
  sq_free_hint :: u16

definition submission_queue_new ::
  "fresh_memory \<Rightarrow> buffer_answers \<Rightarrow> buffer_answers \<Rightarrow> u16 \<Rightarrow> u32 \<Rightarrow> u32 \<Rightarrow> u64 \<Rightarrow>
   'cb submission_queue drv_result" where
  "submission_queue_new mem ans ans2 sz y dstrd sgls =
     bind_res (queue_new ans sz y dstrd To_device) (\<lambda>q.
     bind_res
       (if sgls \<noteq> 0 then
          bind_res (inout_buffer_new ans2
              (l4_round_page (ucast sz * sgls * of_nat sizeof_Sgl_desc)) To_device)
            (\<lambda>b. Inr (Some b, None))
        else if Prp_list_pages > 0 then
          bind_res (inout_buffer_new ans2 (ucast sz * of_nat Prp_list_pages * L4_PAGESIZE) To_device)
            (\<lambda>b. Inr (None, Some b))
        else Inr (None, None))
       (\<lambda>(sgl_buf, prp_buf).
         Inr (queue.extend q
           (submission_queue.fields (map (fresh_sqe mem) [0..<unat sz]) (replicate (unat sz) None)
              sgl_buf prp_buf (fresh_sgl mem) (fresh_prp mem) 0 0 0))))"

definition is_full :: "'cb submission_queue \<Rightarrow> bool" where
  "is_full q \<longleftrightarrow> q_head q = wrap_around (q_size q) (sq_tail q + 1)"

text \<open>
  The search for a free command identifier. \<open>None\<close> is a search that never ends, an index outside
  the vector is an error.
\<close>

partial_function (option) find_free ::
  "u16 \<Rightarrow> 'cb option list \<Rightarrow> u16 \<Rightarrow> u16 drv_result option" where
  "find_free sz cbs cid =
     (if length cbs \<le> unat cid then Some (Inl Out_of_range)
      else if cbs ! unat cid \<noteq> None then find_free sz cbs (wrap_around sz (cid + 1))
      else Some (Inr cid))"

definition sq_modify :: "u16 \<Rightarrow> (sqe \<Rightarrow> sqe) \<Rightarrow> 'cb submission_queue \<Rightarrow> 'cb submission_queue" where
  "sq_modify slot f q = q\<lparr>sq_entries := (sq_entries q)[unat slot := f (sq_entries q ! unat slot)]\<rparr>"

text \<open>
  \<^verbatim>\<open>produce\<close>: \<open>Inr None\<close> is the null pointer of a full queue, \<open>Inr (Some (slot, q'))\<close> the pointer
  to the entry in \<open>slot\<close>. The caller fills the entry with \<^const>\<open>sq_modify\<close> and then submits.
\<close>

definition sq_produce ::
  "'cb \<Rightarrow> 'cb submission_queue \<Rightarrow> (u16 \<times> 'cb submission_queue) option drv_result" where
  "sq_produce cb q =
     (if is_full q \<or> q_size q \<le> sq_in_flight q then Inr None
      else
        let q1 = q\<lparr>sq_in_flight := sq_in_flight q + 1\<rparr> in
        case find_free (q_size q1) (sq_callbacks q1) (sq_free_hint q1) of
          None \<Rightarrow> Inl Hang
        | Some (Inl e) \<Rightarrow> Inl e
        | Some (Inr cid) \<Rightarrow>
            let q2 = q1\<lparr>sq_callbacks := (sq_callbacks q1)[unat cid := Some cb]\<rparr>;
                slot = sq_tail q2;
                q3 = q2\<lparr>sq_tail := wrap_around (q_size q2) (sq_tail q2 + 1)\<rparr>
            in Inr (Some (slot, sq_modify slot (\<lambda>e. sqe_set_cid cid (sqe_init e)) q3)))"

definition tdbl :: "'cb submission_queue \<Rightarrow> u32" where
  "tdbl q = 0x1000 + (2 * q_y q) * push_bit (unat (q_dstrd q)) 4"

type_synonym reg_write = "u32 \<times> u32"

definition sq_submit :: "'cb submission_queue \<Rightarrow> reg_write" where
  "sq_submit q = (tdbl q, ucast (sq_tail q))"

text \<open>
  \<^verbatim>\<open>complete\<close>: updates the queue, and returns the callback together with the status field it is
  then called with.
\<close>

definition sq_complete ::
  "cqe \<Rightarrow> 'cb submission_queue \<Rightarrow> ('cb \<times> u16 \<times> 'cb submission_queue) drv_result" where
  "sq_complete c q =
     (let q1 = q\<lparr>q_head := cqe_sqhd c, sq_free_hint := cqe_cid c\<rparr> in
      if sq_in_flight q1 = 0 then Inl Assert_failed
      else
        let q2 = q1\<lparr>sq_in_flight := sq_in_flight q1 - 1\<rparr>; cid = unat (cqe_cid c) in
        if length (sq_callbacks q2) \<le> cid then Inl Out_of_range
        else
          case sq_callbacks q2 ! cid of
            None \<Rightarrow> Inl Assert_failed
          | Some cb \<Rightarrow>
              Inr (cb, cqe_sf c, q2\<lparr>sq_callbacks := (sq_callbacks q2)[cid := None]\<rparr>))"

definition sgls_index :: "u16 \<Rightarrow> nat" where
  "sgls_index cid = unat cid * Ioq_sgls"

definition sgls_paddr :: "u16 \<Rightarrow> 'cb submission_queue \<Rightarrow> u64 drv_result" where
  "sgls_paddr cid q =
     (case sq_sgls q of None \<Rightarrow> Inl Null_deref
      | Some b \<Rightarrow> Inr (inout_buffer_pget b (of_nat (sgls_index cid * sizeof_Sgl_desc))))"

text \<open>The descriptors of a command are the elements of the SGL memory from this index on.\<close>

definition sgls_desc :: "u16 \<Rightarrow> 'cb submission_queue \<Rightarrow> nat drv_result" where
  "sgls_desc cid q =
     (case sq_sgls q of None \<Rightarrow> Inl Null_deref | Some b \<Rightarrow> Inr (sgls_index cid))"

section \<open>Completion queue\<close>

record completion_queue = queue +
  cq_entries :: "cqe list"
  cq_p :: bool

definition completion_queue_new ::
  "fresh_memory \<Rightarrow> buffer_answers \<Rightarrow> u16 \<Rightarrow> u32 \<Rightarrow> u32 \<Rightarrow> completion_queue drv_result" where
  "completion_queue_new mem ans sz y dstrd =
     bind_res (queue_new ans sz y dstrd From_device) (\<lambda>q.
       Inr (queue.extend q
         (completion_queue.fields (map (\<lambda>i. cqe_init (fresh_cqe mem i)) [0..<unat sz]) True)))"

definition cq_consume :: "completion_queue \<Rightarrow> cqe option \<times> completion_queue" where
  "cq_consume q =
     (let c = cq_entries q ! unat (q_head q) in
      if cqe_p c = cq_p q then
        let q1 = q\<lparr>q_head := wrap_around (q_size q) (q_head q + 1)\<rparr>;
            q2 = (if q_head q1 = 0 then q1\<lparr>cq_p := \<not> cq_p q1\<rparr> else q1)
        in (Some c, q2)
      else (None, q))"

definition hdbl :: "completion_queue \<Rightarrow> u32" where
  "hdbl q = 0x1000 + (2 * q_y q + 1) * push_bit (unat (q_dstrd q)) 4"

definition cq_complete :: "completion_queue \<Rightarrow> reg_write" where
  "cq_complete q = (hdbl q, ucast (q_head q))"

end
