(* ===== verification/Queue_Laws.thy ===== *)
theory Queue_Laws
  imports Queues
begin

text \<open>
  What \<^verbatim>\<open>queue.h\<close> promises its clients: the invariant of the submission queue, \<^verbatim>\<open>produce\<close> and
  \<^verbatim>\<open>complete\<close> as operations on the map of outstanding commands, and the interface
  \<open>command_table\<close> with the bookkeeping lemma that every issued callback is either still
  outstanding or has been invoked, exactly once.
\<close>

section \<open>The invariant\<close>

definition sq_inv :: "'cb submission_queue \<Rightarrow> bool" where
  "sq_inv q \<longleftrightarrow>
     0 < unat (q_size q) \<and> length (sq_entries q) = unat (q_size q) \<and>
     length (sq_callbacks q) = unat (q_size q) \<and> unat (sq_tail q) < unat (q_size q) \<and>
     unat (q_head q) < unat (q_size q) \<and> unat (sq_free_hint q) < unat (q_size q) \<and>
     unat (sq_in_flight q) = occupied (sq_callbacks q)"

text \<open>The abstract state: which command identifiers are outstanding, and with which callback.\<close>

definition pending :: "'cb submission_queue \<Rightarrow> u16 \<rightharpoonup> 'cb" where
  "pending q cid =
     (if unat cid < length (sq_callbacks q) then sq_callbacks q ! unat cid else None)"

lemma sq_invD:
  assumes "sq_inv q"
  shows "0 < unat (q_size q)" "length (sq_entries q) = unat (q_size q)"
    "length (sq_callbacks q) = unat (q_size q)" "unat (sq_tail q) < unat (q_size q)"
    "unat (q_head q) < unat (q_size q)" "unat (sq_free_hint q) < unat (q_size q)"
    "unat (sq_in_flight q) = occupied (sq_callbacks q)"
  using assms by (simp_all add: sq_inv_def)

lemma submission_queue_new_fields:
  assumes "submission_queue_new mem ans ans2 sz y dstrd sgls = Inr q"
  shows "q_size q = sz" "q_y q = y" "q_dstrd q = dstrd" "q_head q = 0" "sq_tail q = 0"
    "sq_in_flight q = 0" "sq_free_hint q = 0" "sq_callbacks q = replicate (unat sz) None"
    "sq_entries q = map (fresh_sqe mem) [0..<unat sz]"
  using assms
  by (auto simp: submission_queue_new_def queue_new_def bind_res_Inr_iff queue.defs
      submission_queue.defs Let_def split: if_splits)

lemma submission_queue_new_inv:
  assumes "submission_queue_new mem ans ans2 sz y dstrd sgls = Inr q" and "sz \<noteq> 0"
  shows "sq_inv q" and "pending q = Map.empty"
proof -
  note f = submission_queue_new_fields [OF assms(1)]
  from assms(2) have "0 < unat sz"
    by (simp add: unat_gt_0)
  with f show "sq_inv q" by (simp add: sq_inv_def)
  from f show "pending q = Map.empty"
    by (intro ext) (simp add: pending_def)
qed

section \<open>The search for a free identifier\<close>

text \<open>
  From a valid start, with the first free slot \<open>d\<close> steps further round the ring, the loop
  returns that slot.
\<close>

lemma find_free_distance:
  assumes "length cbs = unat sz" and "unat cid < unat sz"
    and "cbs ! ((unat cid + d) mod unat sz) = None"
    and "\<forall>k < d. cbs ! ((unat cid + k) mod unat sz) \<noteq> None"
  shows "\<exists>i. find_free sz cbs cid = Some (Inr i) \<and> unat i = (unat cid + d) mod unat sz"
  using assms
proof (induction d arbitrary: cid)
  case 0
  then show ?case by (simp add: find_free.simps [of sz cbs cid])
next
  case (Suc d)
  let ?n = "wrap_around sz (cid + 1)"
  have n: "unat ?n = (unat cid + 1) mod unat sz"
    using Suc.prems(2) by (rule wrap_around_Suc)
  have shift: "(unat ?n + k) mod unat sz = (unat cid + Suc k) mod unat sz" for k
    by (simp add: n mod_add_left_eq)
  have taken: "cbs ! unat cid \<noteq> None"
    using Suc.prems(2,4) by (metis add.right_neutral mod_less zero_less_Suc)
  have "\<exists>i. find_free sz cbs ?n = Some (Inr i) \<and> unat i = (unat ?n + d) mod unat sz"
  proof (rule Suc.IH)
    show "unat ?n < unat sz" using Suc.prems(2) by (simp add: n)
    show "cbs ! ((unat ?n + d) mod unat sz) = None" using Suc.prems(3) by (simp only: shift)
    show "\<forall>k < d. cbs ! ((unat ?n + k) mod unat sz) \<noteq> None"
      using Suc.prems(4) by (simp only: shift) blast
  qed (rule Suc.prems(1))
  moreover have "find_free sz cbs cid = find_free sz cbs ?n"
    using taken Suc.prems(1,2) by (simp add: find_free.simps [of sz cbs cid])
  ultimately show ?case by (simp add: shift)
qed

lemma find_free_returns:
  assumes "length cbs = unat sz" and "unat cid < unat sz" and "occupied cbs < unat sz"
  obtains i where "find_free sz cbs cid = Some (Inr i)" and "unat i < unat sz"
    and "cbs ! unat i = None"
proof -
  from assms(1,3) obtain j where j: "j < unat sz" "cbs ! j = None"
    by (metis occupied_free_slot)
  let ?P = "\<lambda>d. cbs ! ((unat cid + d) mod unat sz) = None"
  have "?P ((j + unat sz - unat cid) mod unat sz)"
    using j assms(2) by (simp add: mod_add_right_eq)
  then have least: "?P (LEAST d. ?P d)" "\<forall>k < (LEAST d. ?P d). \<not> ?P k"
    by (auto intro: LeastI dest: not_less_Least)
  from find_free_distance [OF assms(1,2) least] obtain i where
    i: "find_free sz cbs cid = Some (Inr i)" "unat i = (unat cid + (LEAST d. ?P d)) mod unat sz"
    by blast
  show ?thesis
    by (rule that [OF i(1)]) (use i(2) least(1) assms(2) in simp_all)
qed

section \<open>produce\<close>

definition sq_can_produce :: "'cb submission_queue \<Rightarrow> bool" where
  "sq_can_produce q \<longleftrightarrow> \<not> is_full q \<and> sq_in_flight q < q_size q"

lemma sq_produce_full: "\<not> sq_can_produce q \<Longrightarrow> sq_produce cb q = Inr None"
  by (auto simp: sq_produce_def sq_can_produce_def)

text \<open>
  Everything a successful \<^verbatim>\<open>produce\<close> does: the new state differs from the old one in the entry at
  the old tail, in one slot of the callback table that was free, in the tail and the counter.
\<close>

definition sq_produced ::
  "'cb \<Rightarrow> u16 \<Rightarrow> 'cb submission_queue \<Rightarrow> 'cb submission_queue \<Rightarrow> bool" where
  "sq_produced cb cid q q' \<longleftrightarrow>
     q' = q\<lparr>sq_in_flight := sq_in_flight q + 1,
            sq_callbacks := (sq_callbacks q)[unat cid := Some cb],
            sq_tail := wrap_around (q_size q) (sq_tail q + 1),
            sq_entries := (sq_entries q)[unat (sq_tail q) :=
              sqe_set_cid cid (sqe_init (sq_entries q ! unat (sq_tail q)))]\<rparr>"

lemma sq_produce_ok:
  assumes inv: "sq_inv q" and can: "sq_can_produce q"
  obtains cid q' where "sq_produce cb q = Inr (Some (sq_tail q, q'))"
    and "unat cid < unat (q_size q)" and "sq_callbacks q ! unat cid = None"
    and "sq_produced cb cid q q'"
proof -
  note D = sq_invD [OF inv]
  have "occupied (sq_callbacks q) < unat (q_size q)"
    using can D(7) by (simp add: sq_can_produce_def word_less_nat_alt)
  with find_free_returns [OF D(3,6)] obtain cid where
    cid: "find_free (q_size q) (sq_callbacks q) (sq_free_hint q) = Some (Inr cid)"
      "unat cid < unat (q_size q)" "sq_callbacks q ! unat cid = None"
    by blast
  show ?thesis
  proof (rule that [OF _ cid(2,3)])
    show "sq_produce cb q = Inr (Some (sq_tail q, q\<lparr>sq_in_flight := sq_in_flight q + 1,
            sq_callbacks := (sq_callbacks q)[unat cid := Some cb],
            sq_tail := wrap_around (q_size q) (sq_tail q + 1),
            sq_entries := (sq_entries q)[unat (sq_tail q) :=
              sqe_set_cid cid (sqe_init (sq_entries q ! unat (sq_tail q)))]\<rparr>))"
      using can cid by (simp add: sq_produce_def sq_can_produce_def sq_modify_def Let_def not_le)
  qed (simp add: sq_produced_def)
qed

lemma sq_produced_inv:
  assumes inv: "sq_inv q" and can: "sq_can_produce q" and "sq_produced cb cid q q'"
    and "unat cid < unat (q_size q)" and "sq_callbacks q ! unat cid = None"
  shows "sq_inv q'" and "pending q cid = None" and "pending q' = (pending q)(cid \<mapsto> cb)"
proof -
  note D = sq_invD [OF inv]
  have lt: "unat (sq_in_flight q) < unat (q_size q)"
    using can by (simp add: sq_can_produce_def word_less_nat_alt)
  then have "unat (sq_in_flight q) + unat (1 :: u16) < 2 ^ LENGTH(16)"
    using le_less_trans [OF Suc_leI [OF lt] unsigned_less] by simp
  then have inc: "unat (sq_in_flight q + 1) = Suc (unat (sq_in_flight q))"
    by (simp only: unat_add_lem) simp
  show "sq_inv q'"
    using assms(3-5) D inc wrap_around_less [OF D(1)]
    by (simp add: sq_inv_def sq_produced_def occupied_set)
  show "pending q cid = None"
    using assms(4,5) D(3) by (simp add: pending_def)
  show "pending q' = (pending q)(cid \<mapsto> cb)"
    using assms(3,4) D(3)
    by (intro ext) (auto simp: pending_def sq_produced_def nth_list_update unat_eq_iff)
qed

section \<open>complete\<close>

text \<open>
  The completion entry a controller may post: it names an outstanding command and a head position
  inside the ring.
\<close>

definition completes :: "'cb submission_queue \<Rightarrow> cqe \<Rightarrow> bool" where
  "completes q c \<longleftrightarrow> cqe_cid c \<in> dom (pending q) \<and> unat (cqe_sqhd c) < unat (q_size q)"

definition sq_completed :: "cqe \<Rightarrow> 'cb submission_queue \<Rightarrow> 'cb submission_queue" where
  "sq_completed c q = q\<lparr>q_head := cqe_sqhd c, sq_free_hint := cqe_cid c,
     sq_in_flight := sq_in_flight q - 1,
     sq_callbacks := (sq_callbacks q)[unat (cqe_cid c) := None]\<rparr>"

lemma pending_Some_iff:
  "pending q cid = Some cb \<longleftrightarrow>
     unat cid < length (sq_callbacks q) \<and> sq_callbacks q ! unat cid = Some cb"
  by (simp add: pending_def)

lemma sq_complete_ok:
  assumes "sq_inv q" and "pending q (cqe_cid c) = Some cb"
  shows "sq_complete c q = Inr (cb, cqe_sf c, sq_completed c q)"
proof -
  have "0 < occupied (sq_callbacks q)"
    using assms(2) occupied_pos by (auto simp: pending_Some_iff)
  then have "sq_in_flight q \<noteq> 0"
    using sq_invD(7) [OF assms(1)] by auto
  then show ?thesis
    using assms(2) by (simp add: sq_complete_def sq_completed_def pending_Some_iff Let_def)
qed

lemma sq_completed_inv:
  assumes inv: "sq_inv q" and c: "completes q c"
  shows "sq_inv (sq_completed c q)"
    and "pending (sq_completed c q) = (pending q)(cqe_cid c := None)"
proof -
  note D = sq_invD [OF inv]
  obtain cb where cb: "pending q (cqe_cid c) = Some cb"
    using c by (auto simp: completes_def)
  then have slot: "unat (cqe_cid c) < unat (q_size q)" "sq_callbacks q ! unat (cqe_cid c) = Some cb"
    using D(3) by (auto simp: pending_Some_iff)
  have occ: "Suc (occupied ((sq_callbacks q)[unat (cqe_cid c) := None])) = occupied (sq_callbacks q)"
    using slot D(3) by (intro occupied_clear) simp_all
  then have "unat (sq_in_flight q - 1) = occupied ((sq_callbacks q)[unat (cqe_cid c) := None])"
    using D(7) by (subst unat_minus_one) auto
  then show "sq_inv (sq_completed c q)"
    using D slot c by (simp add: sq_inv_def sq_completed_def completes_def)
  show "pending (sq_completed c q) = (pending q)(cqe_cid c := None)"
    using D(3) slot(1)
    by (intro ext) (auto simp: pending_def sq_completed_def nth_list_update unat_eq_iff)
qed

section \<open>The interface to the clients of the queue\<close>

text \<open>
  A table of outstanding commands: \<open>issue\<close> enters a callback under a fresh tag or refuses,
  \<open>retire\<close> takes the callback of a completed tag out again.
\<close>

locale command_table =
  fixes inv :: "'q \<Rightarrow> bool"
    and outstanding :: "'q \<Rightarrow> 't::finite \<rightharpoonup> 'cb"
    and issue :: "'f \<Rightarrow> 'cb \<Rightarrow> 'q \<Rightarrow> 'q option"
    and retire :: "'c \<Rightarrow> 'q \<Rightarrow> ('cb \<times> 'q) option"
    and tag :: "'c \<Rightarrow> 't"
    and valid :: "'q \<Rightarrow> 'c \<Rightarrow> bool"
  assumes issue_inv: "inv q \<Longrightarrow> issue f cb q = Some q' \<Longrightarrow> inv q'"
    and issue_adds: "inv q \<Longrightarrow> issue f cb q = Some q' \<Longrightarrow>
      \<exists>t. outstanding q t = None \<and> outstanding q' = (outstanding q)(t \<mapsto> cb)"
    and retire_total: "inv q \<Longrightarrow> valid q c \<Longrightarrow> \<exists>cb q'. retire c q = Some (cb, q')"
    and retire_inv: "inv q \<Longrightarrow> valid q c \<Longrightarrow> retire c q = Some (cb, q') \<Longrightarrow> inv q'"
    and retire_removes: "inv q \<Longrightarrow> valid q c \<Longrightarrow> retire c q = Some (cb, q') \<Longrightarrow>
      outstanding q (tag c) = Some cb \<and> outstanding q' = (outstanding q)(tag c := None)"
begin

lemma issue_values:
  assumes "inv q" and "issue f cb q = Some q'"
  shows "map_values (outstanding q') = add_mset cb (map_values (outstanding q))"
  using issue_adds [OF assms] map_values_upd by metis

lemma retire_values:
  assumes "inv q" and "valid q c" and "retire c q = Some (cb, q')"
  shows "map_values (outstanding q) = add_mset cb (map_values (outstanding q'))"
  using retire_removes [OF assms] map_values_clear by metis

lemma issue_then_retire:
  assumes "inv q" and "issue f cb q = Some q'" and "valid q' c"
    and "outstanding q (tag c) = None"
  shows "\<exists>q''. retire c q' = Some (cb, q'') \<and> outstanding q'' = outstanding q"
proof -
  obtain t where t: "outstanding q t = None" "outstanding q' = (outstanding q)(t \<mapsto> cb)"
    using issue_adds [OF assms(1,2)] by blast
  obtain cb' q'' where r: "retire c q' = Some (cb', q'')"
    using retire_total [OF issue_inv [OF assms(1,2)] assms(3)] by blast
  note rr = retire_removes [OF issue_inv [OF assms(1,2)] assms(3) r]
  then have "tag c = t" "cb' = cb" using t assms(4) by (auto split: if_splits)
  with r rr t show ?thesis by (simp add: fun_upd_idem)
qed

end

text \<open>
  The submission queue provides it: issuing is \<^verbatim>\<open>produce\<close> followed by the caller's assignments to
  the entry (which leave the command identifier alone), retiring is \<^verbatim>\<open>complete\<close>.
\<close>

definition sq_issue ::
  "(sqe \<Rightarrow> sqe) \<Rightarrow> 'cb \<Rightarrow> 'cb submission_queue \<Rightarrow> 'cb submission_queue option" where
  "sq_issue fill cb q =
     (case sq_produce cb q of
        Inr (Some (slot, q')) \<Rightarrow> Some (sq_modify slot fill q')
      | _ \<Rightarrow> None)"

definition sq_retire ::
  "cqe \<Rightarrow> 'cb submission_queue \<Rightarrow> ('cb \<times> 'cb submission_queue) option" where
  "sq_retire c q =
     (case sq_complete c q of Inr (cb, _, q') \<Rightarrow> Some (cb, q') | Inl _ \<Rightarrow> None)"

lemma sq_modify_simps [simp]:
  "sq_callbacks (sq_modify s f q) = sq_callbacks q" "q_size (sq_modify s f q) = q_size q"
  "sq_tail (sq_modify s f q) = sq_tail q" "q_head (sq_modify s f q) = q_head q"
  "sq_in_flight (sq_modify s f q) = sq_in_flight q" "sq_free_hint (sq_modify s f q) = sq_free_hint q"
  "q_y (sq_modify s f q) = q_y q" "q_dstrd (sq_modify s f q) = q_dstrd q"
  "sq_sgls (sq_modify s f q) = sq_sgls q" "sq_prps (sq_modify s f q) = sq_prps q"
  "sq_sgl_mem (sq_modify s f q) = sq_sgl_mem q" "sq_prp_mem (sq_modify s f q) = sq_prp_mem q"
  "length (sq_entries (sq_modify s f q)) = length (sq_entries q)"
  by (simp_all add: sq_modify_def)

lemma pending_sq_modify [simp]: "pending (sq_modify s f q) = pending q"
  by (intro ext) (simp add: pending_def)

lemma sq_inv_sq_modify [simp]: "sq_inv (sq_modify s f q) = sq_inv q"
  by (simp add: sq_inv_def)

lemma sq_produce_SomeD:
  assumes inv: "sq_inv q" and p: "sq_produce cb q = Inr (Some (slot, q'))"
  obtains cid where "slot = sq_tail q" and "sq_can_produce q" and "sq_produced cb cid q q'"
    and "unat cid < unat (q_size q)" and "sq_callbacks q ! unat cid = None"
proof -
  have can: "sq_can_produce q"
    using p sq_produce_full [of q cb] by fastforce
  obtain cid q2 where "sq_produce cb q = Inr (Some (sq_tail q, q2))"
    "unat cid < unat (q_size q)" "sq_callbacks q ! unat cid = None" "sq_produced cb cid q q2"
    by (rule sq_produce_ok [OF inv can])
  with p can show ?thesis by (intro that [of cid]) simp_all
qed

lemma sq_issue_SomeD:
  assumes "sq_inv q" and "sq_issue fill cb q = Some q'"
  obtains q1 where "sq_produce cb q = Inr (Some (sq_tail q, q1))"
    and "q' = sq_modify (sq_tail q) fill q1"
proof -
  obtain slot q1 where p: "sq_produce cb q = Inr (Some (slot, q1))" "q' = sq_modify slot fill q1"
    using assms(2) by (auto simp: sq_issue_def split: sum.splits option.splits)
  moreover have "slot = sq_tail q"
    by (rule sq_produce_SomeD [OF assms(1) p(1)])
  ultimately show ?thesis by (intro that [of q1]) simp_all
qed

lemma sq_issue_inv_adds:
  assumes inv: "sq_inv q" and "sq_issue fill cb q = Some q'"
  shows "sq_inv q' \<and> (\<exists>t. pending q t = None \<and> pending q' = (pending q)(t \<mapsto> cb))"
proof -
  obtain q1 where q1: "sq_produce cb q = Inr (Some (sq_tail q, q1))"
    "q' = sq_modify (sq_tail q) fill q1"
    by (rule sq_issue_SomeD [OF assms])
  obtain cid where "sq_can_produce q" "sq_produced cb cid q q1"
    "unat cid < unat (q_size q)" "sq_callbacks q ! unat cid = None"
    by (rule sq_produce_SomeD [OF inv q1(1)])
  from sq_produced_inv [OF inv this] show ?thesis
    by (auto simp: q1(2) intro!: exI [of _ cid])
qed

text \<open>
  Everything a client can see of a successful issue, for assignments that leave the command
  identifier alone.
\<close>

definition keeps_cid :: "(sqe \<Rightarrow> sqe) \<Rightarrow> bool" where
  "keeps_cid fill \<longleftrightarrow> (\<forall>e. sqe_cid (fill e) = sqe_cid e)"

lemma sq_retire_eq:
  assumes "sq_inv q" and "pending q (cqe_cid c) = Some cb"
  shows "sq_retire c q = Some (cb, sq_completed c q)"
  using sq_complete_ok [OF assms] by (simp add: sq_retire_def)

interpretation sqt: command_table sq_inv pending sq_issue sq_retire cqe_cid completes
proof
  fix q q' :: "'a submission_queue" and f cb
  assume a: "sq_inv q" "sq_issue f cb q = Some q'"
  from sq_issue_inv_adds [OF this]
  show "sq_inv q'" and "\<exists>t. pending q t = None \<and> pending q' = (pending q)(t \<mapsto> cb)"
    by simp_all
next
  fix q :: "'a submission_queue" and c
  assume "sq_inv q" "completes q c"
  then show "\<exists>cb q'. sq_retire c q = Some (cb, q')"
    by (auto simp: completes_def sq_retire_eq)
next
  fix q q' :: "'a submission_queue" and c cb
  assume a: "sq_inv q" "completes q c" "sq_retire c q = Some (cb, q')"
  then obtain cb' where cb': "pending q (cqe_cid c) = Some cb'"
    by (auto simp: completes_def)
  with a have "q' = sq_completed c q" "cb' = cb"
    by (simp_all add: sq_retire_eq)
  with sq_completed_inv [OF a(1,2)] cb'
  show "sq_inv q'"
    and "pending q (cqe_cid c) = Some cb \<and> pending q' = (pending q)(cqe_cid c := None)"
    by simp_all
qed

section \<open>Issuing one command\<close>

text \<open>
  \<open>issued cb cid e q q'\<close>: \<open>q'\<close> is \<open>q\<close> with the command \<open>e\<close> entered at the tail under the fresh
  identifier \<open>cid\<close>, and \<open>cb\<close> waiting for it; no other entry or command is touched.
\<close>

definition issued :: "'cb \<Rightarrow> u16 \<Rightarrow> sqe \<Rightarrow> 'cb submission_queue \<Rightarrow> 'cb submission_queue \<Rightarrow> bool" where
  "issued cb cid e q q' \<longleftrightarrow>
     sq_inv q' \<and> sqe_cid e = cid \<and> pending q cid = None \<and> pending q' = (pending q)(cid \<mapsto> cb) \<and>
     sq_entries q' = (sq_entries q)[unat (sq_tail q) := e] \<and>
     sq_tail q' = wrap_around (q_size q) (sq_tail q + 1) \<and> q_head q' = q_head q \<and>
     q_size q' = q_size q \<and> q_y q' = q_y q \<and> q_dstrd q' = q_dstrd q"

lemma issued_entry:
  "issued cb cid e q q' \<Longrightarrow> sq_inv q \<Longrightarrow> sq_entries q' ! unat (sq_tail q) = e"
  using sq_invD(2,4) [of q] by (simp add: issued_def)

lemma sq_produce_issued:
  assumes inv: "sq_inv q" and can: "sq_can_produce q"
  obtains cid q1 e0 where "sq_produce cb q = Inr (Some (sq_tail q, q1))"
    and "e0 = sqe_set_cid cid (sqe_init (sq_entries q ! unat (sq_tail q)))"
    and "unat cid < unat (q_size q)" and "issued cb cid e0 q q1"
    and "sq_sgls q1 = sq_sgls q" and "sq_prps q1 = sq_prps q"
    and "sq_sgl_mem q1 = sq_sgl_mem q" and "sq_prp_mem q1 = sq_prp_mem q"
proof -
  obtain cid q1 where p: "sq_produce cb q = Inr (Some (sq_tail q, q1))"
    "unat cid < unat (q_size q)" "sq_callbacks q ! unat cid = None" "sq_produced cb cid q q1"
    by (rule sq_produce_ok [OF inv can])
  note i = sq_produced_inv [OF inv can p(4,2,3)]
  show ?thesis
    by (rule that [OF p(1) refl p(2)])
      (use i p(4) sq_invD [OF inv] in \<open>simp_all add: issued_def sq_produced_def sqe_cid.get_put\<close>)
qed

text \<open>The caller's assignments to the entry, and its writes to the list memory of the command.\<close>

lemma issued_modify:
  assumes "issued cb cid e q q1" and "sq_inv q" and "sqe_cid (f e) = cid"
  shows "issued cb cid (f e) q (sq_modify (sq_tail q) f q1)"
proof -
  have "sq_entries (sq_modify (sq_tail q) f q1) = (sq_entries q)[unat (sq_tail q) := f e]"
    using assms(1) issued_entry [OF assms(1,2)] by (simp add: sq_modify_def issued_def)
  with assms(1,3) show ?thesis by (simp add: issued_def)
qed

lemma sq_inv_mem_update [simp]:
  "sq_inv (q\<lparr>sq_sgl_mem := m\<rparr>) = sq_inv q" "sq_inv (q\<lparr>sq_prp_mem := n\<rparr>) = sq_inv q"
  by (simp_all add: sq_inv_def)

lemma pending_mem_update [simp]:
  "pending (q\<lparr>sq_sgl_mem := m\<rparr>) = pending q" "pending (q\<lparr>sq_prp_mem := n\<rparr>) = pending q"
  by (auto simp: pending_def fun_eq_iff)

lemma issued_mem_update [simp]:
  "issued cb cid e q (q'\<lparr>sq_sgl_mem := m\<rparr>) = issued cb cid e q q'"
  "issued cb cid e q (q'\<lparr>sq_prp_mem := n\<rparr>) = issued cb cid e q q'"
  by (simp_all add: issued_def)

lemma sq_issue_issued:
  assumes inv: "sq_inv q" and iss: "sq_issue fill cb q = Some q'" and keep: "keeps_cid fill"
  obtains e where "sq_can_produce q" and "issued cb (sqe_cid e) e q q'"
proof -
  obtain q1 where q1: "sq_produce cb q = Inr (Some (sq_tail q, q1))" "q' = sq_modify (sq_tail q) fill q1"
    by (rule sq_issue_SomeD [OF inv iss])
  have can: "sq_can_produce q" by (rule sq_produce_SomeD [OF inv q1(1)])
  obtain cid q2 e0 where p: "sq_produce cb q = Inr (Some (sq_tail q, q2))" "issued cb cid e0 q q2"
    by (rule sq_produce_issued [OF inv can]) blast
  have cid: "sqe_cid (fill e0) = cid" using p(2) keep by (simp add: issued_def keeps_cid_def)
  have "issued cb cid (fill e0) q q'"
    using issued_modify [where f = fill, OF p(2) inv cid] p(1) q1 by simp
  with can cid show ?thesis by (intro that [of "fill e0"]) simp_all
qed

section \<open>The contract of produce\<close>

text \<open>
  C16: From a consistent queue, \<^verbatim>\<open>produce\<close> always returns: with the null pointer exactly when the
  ring is full or as many commands are in flight as there are entries, otherwise with the entry at
  the old tail, carrying a command identifier that was free; the callback is stored under that
  identifier and no other outstanding command is touched. The search for a free identifier never
  loops for ever and never leaves the vector.
\<close>

theorem sq_produce_contract:
  assumes "sq_inv q"
  shows "case sq_produce cb q of
      Inl _ \<Rightarrow> False
    | Inr None \<Rightarrow> is_full q \<or> q_size q \<le> sq_in_flight q
    | Inr (Some (slot, q')) \<Rightarrow>
        \<not> is_full q \<and> slot = sq_tail q \<and> sq_inv q' \<and>
        (let cid = sqe_cid (sq_entries q' ! unat slot) in
         pending q cid = None \<and> pending q' = (pending q)(cid \<mapsto> cb))"
proof (cases "sq_can_produce q")
  case False
  then show ?thesis
    by (auto simp: sq_produce_full sq_can_produce_def not_less)
next
  case True
  obtain cid q' where p: "sq_produce cb q = Inr (Some (sq_tail q, q'))"
    and cid: "unat cid < unat (q_size q)" "sq_callbacks q ! unat cid = None"
    and q': "sq_produced cb cid q q'"
    by (rule sq_produce_ok [OF assms True])
  have "sqe_cid (sq_entries q' ! unat (sq_tail q)) = cid"
    using q' sq_invD(2,4) [OF assms] by (simp add: sq_produced_def sqe_cid.get_put)
  with sq_produced_inv [OF assms True q' cid] p True show ?thesis
    by (simp add: sq_can_produce_def Let_def)
qed

text \<open>
  A completion entry for an outstanding command, with a head inside the ring, is processed
  without error: the callback returned is the one stored under that identifier, it is removed,
  the invariant holds again, and the queue's head is the one the controller reported.
\<close>

lemma sq_complete_contract:
  assumes "sq_inv q" and "completes q c"
  shows "\<exists>cb q'. sq_complete c q = Inr (cb, cqe_sf c, q') \<and> pending q (cqe_cid c) = Some cb \<and>
    sq_inv q' \<and> pending q' = (pending q)(cqe_cid c := None) \<and> q_head q' = cqe_sqhd c"
proof -
  obtain cb where "pending q (cqe_cid c) = Some cb"
    using assms(2) by (auto simp: completes_def)
  with sq_complete_ok [OF assms(1) this] sq_completed_inv [OF assms] show ?thesis
    by (simp add: sq_completed_def)
qed

text \<open>A queue of two entries with one command outstanding, as an instance.\<close>

definition small_buf :: inout_buffer where
  "small_buf = \<lparr>ib_size = 4096, ib_region = 0x10000, ib_paddr = 0x20000, ib_dir = To_device\<rparr>"

definition small_sqe :: sqe where
  "small_sqe = \<lparr>sqe_cdw0 = 0, sqe_nsid = 0, sqe_res = 0, sqe_mptr = 0, sqe_prp1 = 0, sqe_prp2 = 0,
     sqe_cdw10 = 0, sqe_cdw11 = 0, sqe_cdw12 = 0, sqe_cdw13 = 0, sqe_cdw14 = 0, sqe_cdw15 = 0\<rparr>"

definition small_sq :: "nat submission_queue" where
  "small_sq = \<lparr>q_size = 2, q_entry_size = 64, q_y = 0, q_dstrd = 0, q_head = 1, q_buf = small_buf,
     sq_entries = [small_sqe, small_sqe], sq_callbacks = [Some 7, None], sq_sgls = None,
     sq_prps = Some small_buf, sq_sgl_mem = (\<lambda>_. \<lparr>sgl_addr = 0, sgl_len = 0, sgl_res = 0, sgl_id = 0\<rparr>),
     sq_prp_mem = (\<lambda>_. 0), sq_tail = 1, sq_in_flight = 1, sq_free_hint = 0\<rparr>"

definition small_cqe :: cqe where
  "small_cqe = \<lparr>cqe_dw0 = 0, cqe_dw1 = 0, cqe_dw2 = 1, cqe_dw3 = 0x10000\<rparr>"

lemma small_sq_inv: "sq_inv small_sq"
  by (simp add: sq_inv_def small_sq_def occupied_def)

lemma small_completes: "completes small_sq small_cqe"
  by (simp add: completes_def domIff pending_def small_sq_def small_cqe_def cqe_fields bf_get_def)

theorem sq_produce_contract_witness:
  "case sq_produce 9 small_sq of
      Inl _ \<Rightarrow> False
    | Inr None \<Rightarrow> is_full small_sq \<or> q_size small_sq \<le> sq_in_flight small_sq
    | Inr (Some (slot, q')) \<Rightarrow>
        \<not> is_full small_sq \<and> slot = sq_tail small_sq \<and> sq_inv q' \<and>
        (let cid = sqe_cid (sq_entries q' ! unat slot) in
         pending small_sq cid = None \<and> pending q' = (pending small_sq)(cid \<mapsto> 9))"
  by (rule sq_produce_contract [OF small_sq_inv])

end
