(* ===== verification/Completion_Ring.thy ===== *)
theory Completion_Ring
  imports Queues
begin

text \<open>
  The phase-tag protocol of the completion queue of \<^verbatim>\<open>queue.h\<close>. The controller writes entries
  round the ring with a phase bit that flips on every lap; \<^verbatim>\<open>consume\<close> recognises a new entry by that
  bit alone. The relation \<open>cq_tracks\<close> connects the concrete ring with the whole sequence of entries
  posted so far and the number of entries consumed; the queue is then a FIFO of the entries posted
  and not yet consumed.
\<close>

text \<open>The phase bit of the \<open>k\<close>-th entry in a ring of \<open>n\<close>: set on the first lap, then alternating.\<close>

definition lap_phase :: "nat \<Rightarrow> nat \<Rightarrow> bool" where
  "lap_phase n k \<longleftrightarrow> even (k div n)"

lemma lap_phase_next: "0 < n \<Longrightarrow> lap_phase n (k + n) = (\<not> lap_phase n k)"
  by (simp add: lap_phase_def div_add_self2)

lemma lap_phase_Suc:
  assumes "0 < n"
  shows "lap_phase n (Suc k) = (if Suc k mod n = 0 then \<not> lap_phase n k else lap_phase n k)"
  using assms by (simp add: lap_phase_def div_Suc)

definition cq_tracks :: "completion_queue \<Rightarrow> cqe list \<Rightarrow> nat \<Rightarrow> bool" where
  "cq_tracks q posted m \<longleftrightarrow>
     (let n = unat (q_size q); len = length posted in
      0 < n \<and> length (cq_entries q) = n \<and> unat (q_head q) = m mod n \<and>
      cq_p q = lap_phase n m \<and> m \<le> len \<and> len \<le> m + n \<and>
      (\<forall>k. m \<le> k \<and> k < len \<longrightarrow>
         cq_entries q ! (k mod n) = posted ! k \<and> cqe_p (posted ! k) = lap_phase n k) \<and>
      (\<forall>k. len \<le> k \<and> k < m + n \<longrightarrow> cqe_p (cq_entries q ! (k mod n)) \<noteq> lap_phase n k))"

lemma cq_tracksD:
  assumes "cq_tracks q posted m"
  shows "0 < unat (q_size q)" "length (cq_entries q) = unat (q_size q)"
    "unat (q_head q) = m mod unat (q_size q)" "cq_p q = lap_phase (unat (q_size q)) m"
    "m \<le> length posted" "length posted \<le> m + unat (q_size q)"
    "m \<le> k \<Longrightarrow> k < length posted \<Longrightarrow>
      cq_entries q ! (k mod unat (q_size q)) = posted ! k \<and>
      cqe_p (posted ! k) = lap_phase (unat (q_size q)) k"
    "length posted \<le> k \<Longrightarrow> k < m + unat (q_size q) \<Longrightarrow>
      cqe_p (cq_entries q ! (k mod unat (q_size q))) \<noteq> lap_phase (unat (q_size q)) k"
  using assms by (simp_all add: cq_tracks_def Let_def)

lemma completion_queue_new_fields:
  assumes "completion_queue_new mem ans sz y dstrd = Inr q"
  shows "q_size q = sz" "q_y q = y" "q_dstrd q = dstrd" "q_head q = 0" "cq_p q"
    "cq_entries q = map (\<lambda>i. cqe_init (fresh_cqe mem i)) [0..<unat sz]"
  using assms
  by (auto simp: completion_queue_new_def queue_new_def bind_res_Inr_iff queue.defs
      completion_queue.defs Let_def)

text \<open>A new queue tracks the empty sequence: the constructor clears every phase bit.\<close>

lemma completion_queue_new_tracks:
  assumes "completion_queue_new mem ans sz y dstrd = Inr q" and "sz \<noteq> 0"
  shows "cq_tracks q [] 0"
proof -
  note f = completion_queue_new_fields [OF assms(1)]
  from assms(2) have "0 < unat sz" by (simp add: unat_gt_0)
  then show ?thesis
    by (simp add: cq_tracks_def Let_def f lap_phase_def)
qed

section \<open>Consuming\<close>

lemma cq_consume_empty:
  assumes t: "cq_tracks q posted m" and "m = length posted"
  shows "cq_consume q = (None, q)"
  using cq_tracksD(1,3,4) [OF t] cq_tracksD(8) [OF t, of m] assms(2)
  by (simp add: cq_consume_def)

lemma cq_consume_next:
  assumes t: "cq_tracks q posted m" and m: "m < length posted"
  obtains q' where "cq_consume q = (Some (posted ! m), q')" and "cq_tracks q' posted (Suc m)"
    and "q_size q' = q_size q" and "q_y q' = q_y q" and "q_dstrd q' = q_dstrd q"
proof -
  let ?n = "unat (q_size q)"
  note D = cq_tracksD [OF t]
  have entry: "cq_entries q ! unat (q_head q) = posted ! m" "cqe_p (posted ! m) = cq_p q"
    using D(7) [of m] m by (simp_all add: D(3,4))
  have head: "unat (wrap_around (q_size q) (q_head q + 1)) = Suc m mod ?n"
    using D(1,3) by (simp add: wrap_around_Suc mod_Suc_eq)
  define q' where "q' = q\<lparr>q_head := wrap_around (q_size q) (q_head q + 1),
    cq_p := (if Suc m mod ?n = 0 then \<not> cq_p q else cq_p q)\<rparr>"
  have "wrap_around (q_size q) (q_head q + 1) = 0 \<longleftrightarrow> Suc m mod ?n = 0"
    using head by (metis unat_eq_0)
  then have "cq_consume q = (Some (posted ! m), q')"
    by (simp add: cq_consume_def entry q'_def Let_def)
  moreover have "cq_tracks q' posted (Suc m)"
    unfolding cq_tracks_def Let_def
  proof (intro conjI allI impI)
    show "cq_p q' = lap_phase (unat (q_size q')) (Suc m)"
      by (simp add: q'_def lap_phase_Suc D(1,4))
    show "cqe_p (cq_entries q' ! (k mod unat (q_size q'))) \<noteq> lap_phase (unat (q_size q')) k"
      if "length posted \<le> k \<and> k < Suc m + unat (q_size q')" for k
    proof (cases "k < m + ?n")
      case True
      with that show ?thesis using D(8) [of k] by (simp add: q'_def)
    next
      case False
      with that have "k = m + ?n" by (simp add: q'_def)
      then show ?thesis
        using D(1) D(7) [of m] m by (simp add: q'_def lap_phase_next)
    qed
  qed (use D m head in \<open>simp_all add: q'_def\<close>)
  ultimately show ?thesis
    by (rule that) (simp_all add: q'_def)
qed

section \<open>Posting\<close>

text \<open>
  What the controller does to the ring: it writes the entry with the phase of the lap it is in at
  the slot it has reached, provided the slot is free.
\<close>

definition cq_write :: "nat \<Rightarrow> cqe \<Rightarrow> completion_queue \<Rightarrow> completion_queue" where
  "cq_write slot c q = q\<lparr>cq_entries := (cq_entries q)[slot := c]\<rparr>"

lemma cq_write_tracks:
  assumes t: "cq_tracks q posted m" and room: "length posted < m + unat (q_size q)"
    and phase: "cqe_p c = lap_phase (unat (q_size q)) (length posted)"
  shows "cq_tracks (cq_write (length posted mod unat (q_size q)) c q) (posted @ [c]) m"
proof -
  let ?n = "unat (q_size q)" and ?l = "length posted"
  note D = cq_tracksD [OF t]
  have other: "(cq_entries q)[?l mod ?n := c] ! (k mod ?n) = cq_entries q ! (k mod ?n)"
    if "m \<le> k" "k < m + ?n" "k \<noteq> ?l" for k
  proof -
    have "?l mod ?n \<noteq> k mod ?n"
      using that D(5) room mod_neq_in_window [of k ?l ?n] mod_neq_in_window [of ?l k ?n]
      by (cases "k < ?l") auto
    then show ?thesis by simp
  qed
  show ?thesis
    unfolding cq_tracks_def Let_def
  proof (intro conjI allI impI)
    fix k
    assume k: "m \<le> k \<and> k < length (posted @ [c])"
    show "cq_entries (cq_write (?l mod ?n) c q) !
        (k mod unat (q_size (cq_write (?l mod ?n) c q))) = (posted @ [c]) ! k"
      using k room D(1,2) D(7) [of k] other [of k]
      by (cases "k = ?l") (simp_all add: cq_write_def nth_append)
    show "cqe_p ((posted @ [c]) ! k) = lap_phase (unat (q_size (cq_write (?l mod ?n) c q))) k"
      using k phase D(7) [of k] by (cases "k = ?l") (simp_all add: cq_write_def nth_append)
  next
    fix k
    assume "length (posted @ [c]) \<le> k \<and> k < m + unat (q_size (cq_write (?l mod ?n) c q))"
    then show "cqe_p (cq_entries (cq_write (?l mod ?n) c q) !
        (k mod unat (q_size (cq_write (?l mod ?n) c q)))) \<noteq>
        lap_phase (unat (q_size (cq_write (?l mod ?n) c q))) k"
      using D(5) D(8) [of k] other [of k] by (simp add: cq_write_def)
  qed (use D room in \<open>simp_all add: cq_write_def\<close>)
qed

section \<open>The queue as a FIFO\<close>

text \<open>
  C17: The completion queue refines a FIFO. While the ring tracks the entries posted so far, of
  which \<open>m\<close> have been consumed, \<^verbatim>\<open>consume\<close> returns nothing and changes nothing exactly when all of
  them have been consumed; otherwise it returns the oldest unconsumed entry and the ring tracks
  one consumed entry more. No entry is missed, returned twice or taken from an earlier lap.
\<close>

theorem cq_consume_fifo:
  assumes "cq_tracks q posted m"
  shows "if m = length posted then cq_consume q = (None, q)
    else \<exists>q'. cq_consume q = (Some (posted ! m), q') \<and> cq_tracks q' posted (Suc m)"
proof (cases "m = length posted")
  case True
  then show ?thesis using cq_consume_empty [OF assms] by simp
next
  case False
  with cq_tracksD(5) [OF assms] have "m < length posted" by simp
  from cq_consume_next [OF assms this] False show ?thesis by metis
qed

definition ring_cqe :: "u32 \<Rightarrow> cqe" where
  "ring_cqe dw3 = \<lparr>cqe_dw0 = 0, cqe_dw1 = 0, cqe_dw2 = 0, cqe_dw3 = dw3\<rparr>"

definition ring_cq :: completion_queue where
  "ring_cq = \<lparr>q_size = 2, q_entry_size = 16, q_y = 0, q_dstrd = 0, q_head = 1,
     q_buf = \<lparr>ib_size = 4096, ib_region = 0, ib_paddr = 0x20000, ib_dir = From_device\<rparr>,
     cq_entries = [ring_cqe 0x10001, ring_cqe 0x10002], cq_p = True\<rparr>"

lemma ring_cq_tracks: "cq_tracks ring_cq [ring_cqe 0x10001, ring_cqe 0x10002] 1"
proof -
  have window: "k < 2 \<Longrightarrow> 1 \<le> k \<Longrightarrow> k = 1" "k < 3 \<Longrightarrow> 2 \<le> k \<Longrightarrow> k = 2" for k :: nat
    by simp_all
  then show ?thesis
    by (auto simp: cq_tracks_def ring_cq_def ring_cqe_def lap_phase_def cqe_p_def bf_get_def
        dest!: window)
qed

theorem cq_consume_fifo_witness:
  "if 1 = length [ring_cqe 0x10001, ring_cqe 0x10002] then cq_consume ring_cq = (None, ring_cq)
    else \<exists>q'. cq_consume ring_cq = (Some ([ring_cqe 0x10001, ring_cqe 0x10002] ! 1), q') \<and>
      cq_tracks q' [ring_cqe 0x10001, ring_cqe 0x10002] (Suc 1)"
  by (rule cq_consume_fifo [OF ring_cq_tracks])

end
