(* ===== verification/Msi.thy ===== *)
theory Msi
  imports Nvme_Prelude
begin

text \<open>
  \<^verbatim>\<open>server/src/msi_allocator.h\<close> and \<^verbatim>\<open>server/src/icu.h\<close>: the interface of the MSI allocator and its
  implementation, a bitmap of the MSIs of the ICU. The search \<^verbatim>\<open>scan_zero\<close> of the \<^verbatim>\<open>cxx::Bitmap\<close>
  library class is an argument; the locale \<open>bitmap_scan\<close> states its documented behaviour.
\<close>

section \<open>The allocator\<close>

text \<open>The flag that marks an interrupt number as an MSI (\<^verbatim>\<open>L4_ICU_FLAG_MSI\<close>).\<close>

definition Icu_F_msi :: u32 where "Icu_F_msi = 0x80000000"

definition Num_msis :: nat where "Num_msis = 2048"

record msi_bitmap =
  mb_bits :: "bool list"
  mb_max_available :: u32

definition msi_bitmap_new :: msi_bitmap where
  "msi_bitmap_new = \<lparr>mb_bits = replicate Num_msis False, mb_max_available = 0\<rparr>"

definition set_msi_limit :: "u32 \<Rightarrow> msi_bitmap \<Rightarrow> msi_bitmap drv_result" where
  "set_msi_limit max_avail b =
     (if mb_max_available b \<noteq> 0 then Inl Assert_failed
      else Inr (b\<lparr>mb_max_available := max_avail\<rparr>))"

definition msi_bitmap_alloc ::
  "(bool list \<Rightarrow> int) \<Rightarrow> msi_bitmap \<Rightarrow> (u32 \<times> msi_bitmap) l4_ret" where
  "msi_bitmap_alloc scan_zero b =
     (let num = scan_zero (mb_bits b) in
      if num \<le> -1 \<or> mb_max_available b \<le> word_of_int num then Inl L4_ENOMEM
      else Inr (word_of_int num, b\<lparr>mb_bits := (mb_bits b)[nat num := True]\<rparr>))"

definition msi_bitmap_free :: "u32 \<Rightarrow> msi_bitmap \<Rightarrow> msi_bitmap drv_result" where
  "msi_bitmap_free num b =
     (if length (mb_bits b) \<le> unat num then Inl Out_of_range
      else Inr (b\<lparr>mb_bits := (mb_bits b)[unat num := False]\<rparr>))"

record icu =
  icu_msis :: msi_bitmap
  icu_features :: u32
  icu_nr_irqs :: u32
  icu_nr_msis :: u32

text \<open>The constructor, with the answer of the ICU's \<^verbatim>\<open>info\<close> call (features, IRQs, MSIs).\<close>

definition icu_new :: "(u32 \<times> u32 \<times> u32) l4_ret \<Rightarrow> icu drv_result" where
  "icu_new info =
     bind_res (chksys info) (\<lambda>(features, nr_irqs, nr_msis).
     bind_res (set_msi_limit nr_msis msi_bitmap_new) (\<lambda>m.
       Inr \<lparr>icu_msis = m, icu_features = features, icu_nr_irqs = nr_irqs, icu_nr_msis = nr_msis\<rparr>))"

definition icu_msis_supported :: "icu \<Rightarrow> bool" where
  "icu_msis_supported i \<longleftrightarrow> icu_features i AND Icu_F_msi \<noteq> 0 \<and> icu_nr_msis i > 0"

definition icu_alloc_msi :: "(bool list \<Rightarrow> int) \<Rightarrow> icu \<Rightarrow> (u32 \<times> icu) l4_ret" where
  "icu_alloc_msi scan_zero i =
     (case msi_bitmap_alloc scan_zero (icu_msis i) of
        Inl c \<Rightarrow> Inl c
      | Inr (n, m) \<Rightarrow> Inr (n, i\<lparr>icu_msis := m\<rparr>))"

definition icu_free_msi :: "u32 \<Rightarrow> icu \<Rightarrow> icu drv_result" where
  "icu_free_msi num i =
     bind_res (msi_bitmap_free num (icu_msis i)) (\<lambda>m. Inr (i\<lparr>icu_msis := m\<rparr>))"

definition icu_max_msis :: "icu \<Rightarrow> u32" where
  "icu_max_msis i = mb_max_available (icu_msis i)"

text \<open>The abstract state: the set of MSI numbers handed out.\<close>

definition icu_inv :: "icu \<Rightarrow> bool" where
  "icu_inv i \<longleftrightarrow> length (mb_bits (icu_msis i)) = Num_msis"

definition icu_allocated :: "icu \<Rightarrow> u32 set" where
  "icu_allocated i = {n. unat n < Num_msis \<and> mb_bits (icu_msis i) ! unat n}"

lemma icu_new_fields:
  assumes "icu_new info = Inr i"
  shows "icu_inv i" and "icu_allocated i = {}" and "icu_max_msis i = icu_nr_msis i"
  using assms
  by (auto simp: icu_new_def bind_res_Inr_iff set_msi_limit_def msi_bitmap_new_def icu_inv_def
      icu_allocated_def icu_max_msis_def)

section \<open>The interfaces\<close>

text \<open>
  \<^verbatim>\<open>cxx::Bitmap::scan_zero\<close>: the index of the first clear bit, or a negative number if all are
  set.
\<close>

locale bitmap_scan =
  fixes scan_zero :: "bool list \<Rightarrow> int"
  assumes scan_negative: "scan_zero bs < 0 \<Longrightarrow> \<forall>b \<in> set bs. b"
    and scan_clear: "0 \<le> scan_zero bs \<Longrightarrow>
      nat (scan_zero bs) < length bs \<and> \<not> bs ! nat (scan_zero bs)"
    and scan_first: "0 \<le> scan_zero bs \<Longrightarrow> k < nat (scan_zero bs) \<Longrightarrow> bs ! k"

text \<open>
  \<^verbatim>\<open>Msi_allocator\<close>: what its clients rely on. An allocation hands out a number that is not in use
  and below the limit, it fails only when every usable number is taken, and freeing gives a number
  back.
\<close>

locale msi_allocator =
  fixes inv :: "'a \<Rightarrow> bool"
    and allocated :: "'a \<Rightarrow> u32 set"
    and alloc_msi :: "'a \<Rightarrow> (u32 \<times> 'a) l4_ret"
    and free_msi :: "u32 \<Rightarrow> 'a \<Rightarrow> 'a drv_result"
    and max_msis :: "'a \<Rightarrow> u32"
    and capacity :: nat
  assumes alloc_fresh: "inv a \<Longrightarrow> alloc_msi a = Inr (n, a') \<Longrightarrow>
      n \<notin> allocated a \<and> n < max_msis a \<and> unat n < capacity \<and>
      allocated a' = insert n (allocated a) \<and> inv a' \<and> max_msis a' = max_msis a"
    and alloc_fails: "inv a \<Longrightarrow> alloc_msi a = Inl c \<Longrightarrow>
      c = L4_ENOMEM \<and> {n. n < max_msis a \<and> unat n < capacity} \<subseteq> allocated a"
    and free_back: "inv a \<Longrightarrow> n \<in> allocated a \<Longrightarrow>
      \<exists>a'. free_msi n a = Inr a' \<and> allocated a' = allocated a - {n} \<and> inv a' \<and>
        max_msis a' = max_msis a"
begin

lemma alloc_distinct:
  assumes "inv a" and "alloc_msi a = Inr (n, a')" and "alloc_msi a' = Inr (m, a'')"
  shows "n \<noteq> m"
  using alloc_fresh [OF assms(1,2)] alloc_fresh [of a' m a''] assms(3) by auto

lemma alloc_free:
  assumes "inv a" and "alloc_msi a = Inr (n, a')"
  shows "\<exists>a''. free_msi n a' = Inr a'' \<and> allocated a'' = allocated a"
proof -
  note f = alloc_fresh [OF assms]
  then obtain a'' where "free_msi n a' = Inr a''" "allocated a'' = allocated a' - {n}"
    using free_back [of a' n] by auto
  with f show ?thesis by auto
qed

lemma alloc_succeeds:
  assumes "inv a" and "n \<notin> allocated a" and "n < max_msis a" and "unat n < capacity"
  shows "\<exists>m a'. alloc_msi a = Inr (m, a')"
proof (cases "alloc_msi a")
  case (Inl c)
  from alloc_fails [OF assms(1) this] assms(2-4) show ?thesis by blast
next
  case (Inr r)
  then show ?thesis by (cases r) simp
qed

end

section \<open>The bitmap provides the allocator\<close>

context bitmap_scan
begin

lemma icu_alloc_InrD:
  assumes inv: "icu_inv i" and a: "icu_alloc_msi scan_zero i = Inr (n, i')"
  shows "n \<notin> icu_allocated i \<and> n < icu_max_msis i \<and> unat n < Num_msis \<and>
    icu_allocated i' = insert n (icu_allocated i) \<and> icu_inv i' \<and>
    icu_max_msis i' = icu_max_msis i"
proof -
  let ?bs = "mb_bits (icu_msis i)" and ?z = "scan_zero (mb_bits (icu_msis i))"
  from a have z: "0 \<le> ?z" "n = word_of_int ?z" "n < icu_max_msis i"
    and i': "i' = i\<lparr>icu_msis := (icu_msis i)\<lparr>mb_bits := ?bs[nat ?z := True]\<rparr>\<rparr>"
    by (auto simp: icu_alloc_msi_def msi_bitmap_alloc_def icu_max_msis_def Let_def not_le
        split: sum.splits if_splits)
  note sc = scan_clear [OF z(1)]
  have un: "unat n = nat ?z"
  proof -
    obtain k where k: "?z = int k" using z(1) by (rule nonneg_int_cases)
    with sc inv have "k < 2048" by (simp add: icu_inv_def Num_msis_def)
    then show ?thesis by (simp add: z(2) k unat_of_nat)
  qed
  show ?thesis
    using sc inv z(3) un
    by (auto simp: icu_allocated_def icu_inv_def icu_max_msis_def i' nth_list_update
        unat_eq_iff)
qed

lemma icu_alloc_InlD:
  assumes inv: "icu_inv i" and a: "icu_alloc_msi scan_zero i = Inl c"
  shows "c = L4_ENOMEM \<and> {n. n < icu_max_msis i \<and> unat n < Num_msis} \<subseteq> icu_allocated i"
proof -
  let ?bs = "mb_bits (icu_msis i)" and ?z = "scan_zero (mb_bits (icu_msis i))"
  have len: "length ?bs = Num_msis" using inv by (simp add: icu_inv_def)
  from a have c: "c = L4_ENOMEM" and z: "?z < 0 \<or> icu_max_msis i \<le> word_of_int ?z"
    by (auto simp: icu_alloc_msi_def msi_bitmap_alloc_def icu_max_msis_def Let_def
        split: sum.splits if_splits)
  have "?bs ! unat n" if n: "n < icu_max_msis i" "unat n < Num_msis" for n
  proof (cases "?z < 0")
    case True
    then show ?thesis using scan_negative [of ?bs] n(2) len by (metis nth_mem)
  next
    case False
    then obtain k where k: "?z = int k" using nonneg_int_cases by (metis not_less)
    have "k < 2048" using scan_clear [of ?bs] k len by (simp add: Num_msis_def)
    then have "unat (word_of_int ?z :: u32) = k" by (simp add: k unat_of_nat)
    with z False n(1) have "unat n < k" by (simp add: word_less_nat_alt word_le_nat_alt)
    then show ?thesis using scan_first [of ?bs "unat n"] k by simp
  qed
  with c show ?thesis by (auto simp: icu_allocated_def)
qed

end

lemma icu_free_back:
  assumes "icu_inv i" and "n \<in> icu_allocated i"
  shows "\<exists>i'. icu_free_msi n i = Inr i' \<and> icu_allocated i' = icu_allocated i - {n} \<and>
    icu_inv i' \<and> icu_max_msis i' = icu_max_msis i"
  using assms
  by (auto simp: icu_free_msi_def msi_bitmap_free_def icu_inv_def icu_allocated_def
      icu_max_msis_def nth_list_update unat_eq_iff)

sublocale bitmap_scan \<subseteq> alloc: msi_allocator icu_inv icu_allocated "icu_alloc_msi scan_zero"
  icu_free_msi icu_max_msis Num_msis
proof
  fix a a' n
  assume "icu_inv a" "icu_alloc_msi scan_zero a = Inr (n, a')"
  then show "n \<notin> icu_allocated a \<and> n < icu_max_msis a \<and> unat n < Num_msis \<and>
      icu_allocated a' = insert n (icu_allocated a) \<and> icu_inv a' \<and>
      icu_max_msis a' = icu_max_msis a"
    by (rule icu_alloc_InrD)
next
  fix a c
  assume "icu_inv a" "icu_alloc_msi scan_zero a = Inl c"
  then show "c = L4_ENOMEM \<and> {n. n < icu_max_msis a \<and> unat n < Num_msis} \<subseteq> icu_allocated a"
    by (rule icu_alloc_InlD)
qed (rule icu_free_back)

text \<open>A concrete search, the instance the witnesses use.\<close>

fun first_clear :: "bool list \<Rightarrow> int" where
  "first_clear [] = -1"
| "first_clear (b # bs) =
     (if \<not> b then 0 else let r = first_clear bs in if r < 0 then -1 else r + 1)"

lemma first_clear_negative: "first_clear bs < 0 \<Longrightarrow> \<forall>b \<in> set bs. b"
  by (induction bs) (auto simp: Let_def split: if_splits)

lemma first_clear_clear:
  "0 \<le> first_clear bs \<Longrightarrow> nat (first_clear bs) < length bs \<and> \<not> bs ! nat (first_clear bs)"
  by (induction bs) (auto simp: Let_def nat_add_distrib split: if_splits)

lemma first_clear_first:
  "0 \<le> first_clear bs \<Longrightarrow> k < nat (first_clear bs) \<Longrightarrow> bs ! k"
proof (induction bs arbitrary: k)
  case (Cons b bs)
  then show ?case
    by (cases k) (auto simp: Let_def nat_add_distrib split: if_splits)
qed simp

interpretation first_clear: bitmap_scan first_clear
  by (rule bitmap_scan.intro; fact first_clear_negative first_clear_clear first_clear_first)

section \<open>Properties\<close>

text \<open>
  Allocation of an MSI: given a \<^verbatim>\<open>scan_zero\<close> that finds the first clear bit, a number handed
  out was not in use, lies below the ICU's limit and inside the bitmap, and is in use afterwards,
  with nothing else changed; \<^verbatim>\<open>-L4_ENOMEM\<close> is returned only when every number below the limit that
  the bitmap can represent is in use.
\<close>

lemma icu_alloc_msi_spec:
  assumes "bitmap_scan scan" and "icu_inv i"
  shows "case icu_alloc_msi scan i of
      Inr (n, i') \<Rightarrow> n \<notin> icu_allocated i \<and> n < icu_max_msis i \<and> unat n < Num_msis \<and>
        icu_allocated i' = insert n (icu_allocated i) \<and> icu_inv i' \<and>
        icu_max_msis i' = icu_max_msis i
    | Inl c \<Rightarrow> c = L4_ENOMEM \<and>
        {n. n < icu_max_msis i \<and> unat n < Num_msis} \<subseteq> icu_allocated i"
  using bitmap_scan.icu_alloc_InrD [OF assms(1,2)] bitmap_scan.icu_alloc_InlD [OF assms(1,2)]
  by (auto split: sum.splits)

text \<open>
  A freed MSI number can be handed out again: freeing a number obtained from the allocator
  succeeds and restores the set of numbers in use, so that a later allocation cannot fail.
\<close>

lemma icu_free_msi_roundtrip:
  assumes "bitmap_scan scan" and "icu_inv i" and "icu_alloc_msi scan i = Inr (n, i')"
  shows "\<exists>i''. icu_free_msi n i' = Inr i'' \<and> icu_allocated i'' = icu_allocated i \<and>
    (\<exists>m j. icu_alloc_msi scan i'' = Inr (m, j))"
proof -
  note f = bitmap_scan.icu_alloc_InrD [OF assms]
  then obtain i'' where i'': "icu_free_msi n i' = Inr i''"
    "icu_allocated i'' = icu_allocated i' - {n}" "icu_inv i''" "icu_max_msis i'' = icu_max_msis i'"
    using icu_free_back [of i' n] by auto
  have "icu_alloc_msi scan i'' \<noteq> Inl c" for c
    using bitmap_scan.icu_alloc_InlD [OF assms(1) i''(3), of c] f i''(2,4) by auto
  then obtain r where "icu_alloc_msi scan i'' = Inr r"
    by (cases "icu_alloc_msi scan i''") auto
  with i'' f show ?thesis by (cases r) auto
qed

definition small_icu :: icu where
  "small_icu = \<lparr>icu_msis = \<lparr>mb_bits = True # replicate 2047 False, mb_max_available = 4\<rparr>,
     icu_features = 0x80000000, icu_nr_irqs = 16, icu_nr_msis = 4\<rparr>"

lemma small_icu_inv: "icu_inv small_icu"
  by (simp add: icu_inv_def small_icu_def Num_msis_def)

lemma small_icu_alloc: "icu_alloc_msi first_clear small_icu =
    Inr (1, small_icu\<lparr>icu_msis := (icu_msis small_icu)\<lparr>mb_bits :=
      (True # replicate 2047 False)[1 := True]\<rparr>\<rparr>)"
proof -
  have "first_clear (True # replicate (Suc n) False) = 1" for n by simp
  from this [of 2046] have "first_clear (True # replicate 2047 False) = 1"
    by (simp del: replicate.simps first_clear.simps)
  then show ?thesis
    by (simp add: icu_alloc_msi_def msi_bitmap_alloc_def small_icu_def word_le_nat_alt del: first_clear.simps)
qed

end
