(* ===== verification/Pci.thy ===== *)
theory Pci
  imports Dma_Buffer Msi
begin

text \<open>
  \<^verbatim>\<open>server/src/pci.h\<close>: the MSI and MSI-X capabilities of the PCI device, their discovery in the
  capability list, their configuration, and the numbering of the controller's interrupt vectors.
  The configuration space is an argument: \<open>cfg reg width\<close> is what a read answers, \<open>wr\<close> what a
  write answers; writes that were made are returned.
\<close>

section \<open>Registers and capabilities\<close>

definition Cfg_status :: u32 where "Cfg_status = 0x6"
definition Cfg_cap_ptr :: u32 where "Cfg_cap_ptr = 0x34"

definition Cap_Msi :: u8 where "Cap_Msi = 0x5"
definition Cap_Msi_x :: u8 where "Cap_Msi_x = 0x11"

definition Pci_msi_Ctrl_offset :: u32 where "Pci_msi_Ctrl_offset = 0x2"
definition Pci_msix_Ctrl_offset :: u32 where "Pci_msix_Ctrl_offset = 0x2"
definition Pci_msix_Table_offset :: u32 where "Pci_msix_Table_offset = 0x4"

text \<open>Message Control of the MSI capability.\<close>

definition msi_large :: "u16 \<Rightarrow> bool" where "msi_large raw = (bf_get 7 7 raw \<noteq> (0 :: u8))"
definition msi_mmc :: "u16 \<Rightarrow> u8" where "msi_mmc raw = bf_get 1 3 raw"
definition msi_set_mme :: "u8 \<Rightarrow> u16 \<Rightarrow> u16" where "msi_set_mme v raw = bf_set 4 6 v raw"
definition msi_set_enabled :: "u8 \<Rightarrow> u16 \<Rightarrow> u16" where "msi_set_enabled v raw = bf_set 0 0 v raw"

text \<open>Message Control of the MSI-X capability, and its table offset register.\<close>

definition msix_ts :: "u16 \<Rightarrow> u16" where "msix_ts raw = bf_get 0 10 raw"
definition msix_set_enabled :: "u8 \<Rightarrow> u16 \<Rightarrow> u16" where "msix_set_enabled v raw = bf_set 15 15 v raw"
definition msix_set_masked :: "u8 \<Rightarrow> u16 \<Rightarrow> u16" where "msix_set_masked v raw = bf_set 14 14 v raw"
definition offset_bir_offset :: "u32 \<Rightarrow> u32" where
  "offset_bir_offset raw = push_bit 3 (bf_get 3 31 raw)"
definition offset_bir_bir :: "u32 \<Rightarrow> u32" where "offset_bir_bir raw = bf_get 0 2 raw"

lemmas msi_fields = msi_large_def msi_mmc_def msi_set_mme_def msi_set_enabled_def
  msix_ts_def msix_set_enabled_def msix_set_masked_def offset_bir_offset_def offset_bir_bir_def

record pci_cap =
  cap_id :: u8
  cap_addr :: u32
  cap_ctrl :: u16

definition cap_msis_supported :: "pci_cap \<Rightarrow> u32" where
  "cap_msis_supported c = push_bit (unat (msi_mmc (cap_ctrl c))) 1"

definition cap_msixs_supported :: "pci_cap \<Rightarrow> u32" where
  "cap_msixs_supported c = ucast (msix_ts (cap_ctrl c)) + 1"

record pci_dev =
  msi_cap :: pci_cap
  msix_cap :: pci_cap
  msix_table :: "iomem option"
  vectors :: "u32 \<rightharpoonup> u32"
  last_vector :: u32

text \<open>The control words of the empty capabilities are not initialised; they are arguments.\<close>

definition pci_dev_new :: "u16 \<Rightarrow> u16 \<Rightarrow> pci_dev" where
  "pci_dev_new ctrl ctrlx =
     \<lparr>msi_cap = \<lparr>cap_id = 0, cap_addr = 0, cap_ctrl = ctrl\<rparr>,
      msix_cap = \<lparr>cap_id = 0, cap_addr = 0, cap_ctrl = ctrlx\<rparr>,
      msix_table = None, vectors = Map.empty, last_vector = 0\<rparr>"

section \<open>Configuration space\<close>

type_synonym cfg_space = "u32 \<Rightarrow> nat \<Rightarrow> u32 l4_ret"
type_synonym cfg_write = "u32 \<times> u32 \<times> nat"

definition cfg_read_32 :: "cfg_space \<Rightarrow> u32 \<Rightarrow> u32 drv_result" where
  "cfg_read_32 cfg reg = chksys (cfg reg 32)"

definition cfg_read_16 :: "cfg_space \<Rightarrow> u32 \<Rightarrow> u16 drv_result" where
  "cfg_read_16 cfg reg = bind_res (chksys (cfg reg 16)) (\<lambda>v. Inr (ucast v))"

definition cfg_read_8 :: "cfg_space \<Rightarrow> u32 \<Rightarrow> u8 drv_result" where
  "cfg_read_8 cfg reg = bind_res (chksys (cfg reg 8)) (\<lambda>v. Inr (ucast v))"

definition cfg_write_32 ::
  "(cfg_write \<Rightarrow> unit l4_ret) \<Rightarrow> u32 \<Rightarrow> u32 \<Rightarrow> cfg_write list drv_result" where
  "cfg_write_32 wr reg val = bind_res (chksys (wr (reg, val, 32))) (\<lambda>_. Inr [(reg, val, 32)])"

definition cfg_write_16 ::
  "(cfg_write \<Rightarrow> unit l4_ret) \<Rightarrow> u32 \<Rightarrow> u16 \<Rightarrow> cfg_write list drv_result" where
  "cfg_write_16 wr reg val =
     bind_res (chksys (wr (reg, ucast val, 16))) (\<lambda>_. Inr [(reg, ucast val, 16)])"

definition msis_supported :: "pci_dev \<Rightarrow> u32" where
  "msis_supported d = (if cap_id (msi_cap d) = Cap_Msi then cap_msis_supported (msi_cap d) else 0)"

definition msixs_supported :: "pci_dev \<Rightarrow> u32" where
  "msixs_supported d =
     (if cap_id (msix_cap d) = Cap_Msi_x then cap_msixs_supported (msix_cap d) else 0)"

section \<open>Discovery\<close>

text \<open>What the loop body does with the capability at \<open>ptr\<close>.\<close>

definition visit_cap :: "cfg_space \<Rightarrow> u8 \<Rightarrow> pci_dev \<Rightarrow> pci_dev drv_result" where
  "visit_cap cfg ptr d =
     bind_res (cfg_read_8 cfg (ucast ptr)) (\<lambda>id.
       if id = Cap_Msi then
         bind_res (cfg_read_16 cfg (ucast ptr + Pci_msi_Ctrl_offset)) (\<lambda>ctrl.
           Inr (d\<lparr>msi_cap := \<lparr>cap_id = id, cap_addr = ucast ptr, cap_ctrl = ctrl\<rparr>\<rparr>))
       else if id = Cap_Msi_x then
         bind_res (cfg_read_16 cfg (ucast ptr + Pci_msix_Ctrl_offset)) (\<lambda>ctrl.
           Inr (d\<lparr>msix_cap := \<lparr>cap_id = id, cap_addr = ucast ptr, cap_ctrl = ctrl\<rparr>\<rparr>))
       else Inr d)"

definition next_cap :: "cfg_space \<Rightarrow> u8 \<Rightarrow> u8 drv_result" where
  "next_cap cfg ptr =
     bind_res (cfg_read_8 cfg (ucast ptr + 1)) (\<lambda>v. Inr (v AND NOT 0x3))"

text \<open>The walk along the list; \<open>None\<close> is a walk that never ends.\<close>

partial_function (option) walk_caps ::
  "cfg_space \<Rightarrow> u8 \<Rightarrow> pci_dev \<Rightarrow> pci_dev drv_result option" where
  "walk_caps cfg ptr d =
     (if ptr = 0 then Some (Inr d)
      else case visit_cap cfg ptr d of
        Inl e \<Rightarrow> Some (Inl e)
      | Inr d' \<Rightarrow>
          (case next_cap cfg ptr of
             Inl e \<Rightarrow> Some (Inl e)
           | Inr nxt \<Rightarrow> walk_caps cfg nxt d'))"

definition detect_msi_support :: "cfg_space \<Rightarrow> pci_dev \<Rightarrow> pci_dev drv_result" where
  "detect_msi_support cfg d =
     bind_res (cfg_read_16 cfg Cfg_status) (\<lambda>status.
       if status AND 0x10 \<noteq> 0 then
         bind_res (cfg_read_8 cfg Cfg_cap_ptr) (\<lambda>v.
           case walk_caps cfg (v AND NOT 0x3) d of
             None \<Rightarrow> Inl Hang
           | Some r \<Rightarrow> r)
       else Inr d)"

section \<open>Configuration\<close>

definition enable_msi_pci ::
  "(cfg_write \<Rightarrow> unit l4_ret) \<Rightarrow> pci_dev \<Rightarrow> (cfg_write list \<times> pci_dev) drv_result" where
  "enable_msi_pci wr d =
     (let c = msi_cap d;
          c1 = c\<lparr>cap_ctrl := msi_set_enabled 1 (cap_ctrl c)\<rparr>;
          c2 = c1\<lparr>cap_ctrl := msi_set_mme (msi_mmc (cap_ctrl c1)) (cap_ctrl c1)\<rparr> in
      bind_res (cfg_write_16 wr (cap_addr c2 + Pci_msi_Ctrl_offset) (cap_ctrl c2)) (\<lambda>ws.
        Inr (ws, d\<lparr>msi_cap := c2\<rparr>)))"

definition enable_msix_pci ::
  "(cfg_write \<Rightarrow> unit l4_ret) \<Rightarrow> pci_dev \<Rightarrow> (cfg_write list \<times> pci_dev) drv_result" where
  "enable_msix_pci wr d =
     (let c = msix_cap d;
          c1 = c\<lparr>cap_ctrl := msix_set_enabled 1 (cap_ctrl c)\<rparr>;
          c2 = c1\<lparr>cap_ctrl := msix_set_masked 0 (cap_ctrl c1)\<rparr> in
      bind_res (cfg_write_16 wr (cap_addr c2 + Pci_msix_Ctrl_offset) (cap_ctrl c2)) (\<lambda>ws.
        Inr (ws, d\<lparr>msix_cap := c2\<rparr>)))"

record msi_info =
  msi_addr :: u64
  msi_data :: u32

definition enable_msi ::
  "(cfg_write \<Rightarrow> unit l4_ret) \<Rightarrow> msi_info \<Rightarrow> pci_dev \<Rightarrow> cfg_write list drv_result" where
  "enable_msi wr info d =
     (let addr = cap_addr (msi_cap d);
          data = ucast (msi_data info AND NOT (msis_supported d - 1)) in
      bind_res (cfg_write_32 wr (addr + 4) (ucast (msi_addr info AND 0xffffffff))) (\<lambda>w1.
        if msi_large (cap_ctrl (msi_cap d)) then
          bind_res (cfg_write_32 wr (addr + 8) (ucast (drop_bit 32 (msi_addr info)))) (\<lambda>w2.
          bind_res (cfg_write_16 wr (addr + 0xc) data) (\<lambda>w3. Inr (w1 @ w2 @ w3)))
        else
          bind_res (cfg_write_16 wr (addr + 8) data) (\<lambda>w2. Inr (w1 @ w2))))"

definition get_local_vector :: "u32 \<Rightarrow> pci_dev \<Rightarrow> u32 \<times> pci_dev" where
  "get_local_vector irq d =
     (let msi = irq AND NOT Icu_F_msi;
          d' = (if vectors d msi = None
                then d\<lparr>vectors := (vectors d)(msi \<mapsto> last_vector d), last_vector := last_vector d + 1\<rparr>
                else d)
      in (the (vectors d' msi), d'))"

text \<open>Operations on the MSI-X table: a register write and the clearing of bits.\<close>

datatype table_op = Table_write u32 u32 | Table_clear u32 u32

definition msix_table_address :: "cfg_space \<Rightarrow> pci_dev \<Rightarrow> u64 drv_result" where
  "msix_table_address cfg d =
     bind_res (cfg_read_32 cfg (cap_addr (msix_cap d) + Pci_msix_Table_offset)) (\<lambda>raw.
     bind_res (cfg_read_32 cfg (0x10 + offset_bir_bir raw * 4)) (\<lambda>bar_lo.
     bind_res
       (if (ucast bar_lo :: u64) AND 4 \<noteq> 0 then
          bind_res (cfg_read_32 cfg (0x14 + offset_bir_bir raw * 4)) (\<lambda>bar2.
            Inr ((ucast bar_lo :: u64) OR push_bit 32 (ucast bar2)))
        else Inr (ucast bar_lo))
       (\<lambda>bar. Inr ((bar AND NOT 0xf) + ucast (offset_bir_offset raw)))))"

definition enable_msix ::
  "cfg_space \<Rightarrow> (u64 \<Rightarrow> u64 \<Rightarrow> u64 l4_ret) \<Rightarrow> u32 \<Rightarrow> msi_info \<Rightarrow> pci_dev \<Rightarrow>
   (table_op list \<times> pci_dev) drv_result" where
  "enable_msix cfg attach irq info d =
     bind_res
       (if msix_table d = None then
          bind_res (msix_table_address cfg d) (\<lambda>pa.
          bind_res (iomem_new attach pa (ucast ((ucast (msix_ts (cap_ctrl (msix_cap d))) + 1) * 16 :: u32)))
            (\<lambda>m. Inr (d\<lparr>msix_table := Some m\<rparr>)))
        else Inr d)
       (\<lambda>d1.
         let (v, d2) = get_local_vector (irq AND NOT Icu_F_msi) d1 in
         Inr ([Table_write (v * 16 + 0) (ucast (msi_addr info AND 0xffffffff)),
               Table_write (v * 16 + 4) (ucast (drop_bit 32 (msi_addr info))),
               Table_write (v * 16 + 8) (msi_data info),
               Table_clear (v * 16 + 12) 1], d2))"

section \<open>The capability walk\<close>

text \<open>
  A capability list as the PCI specification wants it: pointers that lead to zero. \<open>visit_caps\<close>
  is the loop body along such a list.
\<close>

inductive cap_chain :: "cfg_space \<Rightarrow> u8 \<Rightarrow> u8 list \<Rightarrow> bool" for cfg where
  chain_end: "cap_chain cfg 0 []"
| chain_cap: "ptr \<noteq> 0 \<Longrightarrow> next_cap cfg ptr = Inr nxt \<Longrightarrow> cap_chain cfg nxt ps \<Longrightarrow>
    cap_chain cfg ptr (ptr # ps)"

inductive_simps cap_chain_Nil_iff: "cap_chain cfg p []"
inductive_simps cap_chain_Cons_iff: "cap_chain cfg p (q # ps)"

fun visit_caps :: "cfg_space \<Rightarrow> u8 list \<Rightarrow> pci_dev \<Rightarrow> pci_dev drv_result" where
  "visit_caps cfg [] d = Inr d"
| "visit_caps cfg (p # ps) d = bind_res (visit_cap cfg p d) (visit_caps cfg ps)"

lemma walk_caps_chain: "cap_chain cfg ptr ps \<Longrightarrow> walk_caps cfg ptr d = Some (visit_caps cfg ps d)"
proof (induction arbitrary: d rule: cap_chain.induct)
  case chain_end
  then show ?case by (simp add: walk_caps.simps)
next
  case (chain_cap ptr nxt ps)
  then show ?case
    by (cases "visit_cap cfg ptr d") (simp_all add: walk_caps.simps [of cfg ptr])
qed

text \<open>The walk over pointers that never reach zero does not end.\<close>

lemma walk_caps_returns_outside:
  assumes closed: "\<And>p. p \<in> S \<Longrightarrow> p \<noteq> 0 \<and> (\<exists>n \<in> S. next_cap cfg p = Inr n) \<and>
      (\<forall>d. \<exists>d'. visit_cap cfg p d = Inr d')"
    and ret: "walk_caps cfg ptr d = Some r"
  shows "ptr \<notin> S"
proof (rule walk_caps.raw_induct [where P = "\<lambda>c p d r. c = cfg \<longrightarrow> p \<notin> S", OF _ ret, THEN mp])
  fix f c p d r
  assume IH: "\<And>c p d r. f c p d = Some r \<Longrightarrow> c = cfg \<longrightarrow> p \<notin> S"
    and eq: "(if p = 0 then Some (Inr d) else case visit_cap c p d of Inl e \<Rightarrow> Some (Inl e)
      | Inr d' \<Rightarrow> (case next_cap c p of Inl e \<Rightarrow> Some (Inl e) | Inr nxt \<Rightarrow> f c nxt d')) = Some r"
  show "c = cfg \<longrightarrow> p \<notin> S"
  proof (intro impI notI)
    assume c: "c = cfg" and p: "p \<in> S"
    obtain n d' where "p \<noteq> 0" "n \<in> S" "next_cap cfg p = Inr n" "visit_cap cfg p d = Inr d'"
      using closed [OF p] by metis
    with eq c have "f cfg n d' = Some r" by simp
    with IH \<open>n \<in> S\<close> show False by blast
  qed
qed simp

text \<open>What a visit records, and what the whole list leaves behind.\<close>

definition is_cap :: "cfg_space \<Rightarrow> u8 \<Rightarrow> u8 \<Rightarrow> bool" where
  "is_cap cfg k p \<longleftrightarrow> cfg_read_8 cfg (ucast p) = Inr k"

definition cap_found :: "cfg_space \<Rightarrow> u8 \<Rightarrow> u8 list \<Rightarrow> pci_cap \<Rightarrow> bool" where
  "cap_found cfg k ps c \<longleftrightarrow> (\<exists>p \<in> set ps. is_cap cfg k p \<and> cap_id c = k \<and>
     cap_addr c = ucast p \<and> cfg_read_16 cfg (ucast p + 2) = Inr (cap_ctrl c))"

lemma visit_cap_InrD:
  assumes "visit_cap cfg p d = Inr d'"
  shows "(if is_cap cfg Cap_Msi p then cap_found cfg Cap_Msi [p] (msi_cap d')
      else msi_cap d' = msi_cap d)"
    and "(if is_cap cfg Cap_Msi_x p then cap_found cfg Cap_Msi_x [p] (msix_cap d')
      else msix_cap d' = msix_cap d)"
    and "vectors d' = vectors d" "last_vector d' = last_vector d" "msix_table d' = msix_table d"
proof -
  from assms obtain i where i: "cfg_read_8 cfg (ucast p) = Inr i"
    by (auto simp: visit_cap_def bind_res_Inr_iff)
  consider (msi) c where "i = Cap_Msi" "cfg_read_16 cfg (ucast p + 2) = Inr c"
      "d' = d\<lparr>msi_cap := \<lparr>cap_id = i, cap_addr = ucast p, cap_ctrl = c\<rparr>\<rparr>"
    | (msix) c where "i = Cap_Msi_x" "cfg_read_16 cfg (ucast p + 2) = Inr c"
      "d' = d\<lparr>msix_cap := \<lparr>cap_id = i, cap_addr = ucast p, cap_ctrl = c\<rparr>\<rparr>"
    | (other) "i \<noteq> Cap_Msi" "i \<noteq> Cap_Msi_x" "d' = d"
    using assms i
    by (auto simp: visit_cap_def bind_res_Inr_iff Pci_msi_Ctrl_offset_def
        Pci_msix_Ctrl_offset_def split: if_splits)
  note c = this
  show "(if is_cap cfg Cap_Msi p then cap_found cfg Cap_Msi [p] (msi_cap d')
      else msi_cap d' = msi_cap d)"
    and "(if is_cap cfg Cap_Msi_x p then cap_found cfg Cap_Msi_x [p] (msix_cap d')
      else msix_cap d' = msix_cap d)"
    and "vectors d' = vectors d" "last_vector d' = last_vector d" "msix_table d' = msix_table d"
    using i by (cases rule: c;
        simp add: is_cap_def cap_found_def Cap_Msi_def Cap_Msi_x_def)+
qed

lemma cap_found_mono: "cap_found cfg k ps c \<Longrightarrow> set ps \<subseteq> set qs \<Longrightarrow> cap_found cfg k qs c"
  by (auto simp: cap_found_def)

lemma visit_caps_InrD:
  "visit_caps cfg ps d = Inr d' \<Longrightarrow>
    (if \<exists>p \<in> set ps. is_cap cfg Cap_Msi p then cap_found cfg Cap_Msi ps (msi_cap d')
     else msi_cap d' = msi_cap d) \<and>
    (if \<exists>p \<in> set ps. is_cap cfg Cap_Msi_x p then cap_found cfg Cap_Msi_x ps (msix_cap d')
     else msix_cap d' = msix_cap d)"
proof (induction ps arbitrary: d)
  case (Cons p ps)
  obtain d1 where d1: "visit_cap cfg p d = Inr d1" "visit_caps cfg ps d1 = Inr d'"
    using Cons.prems by (auto simp: bind_res_Inr_iff)
  from visit_cap_InrD(1,2) [OF d1(1)] Cons.IH [OF d1(2)] show ?case
    by (auto simp: cap_found_def split: if_splits)
qed simp

lemma cap_msis_supported_pos: "cap_msis_supported c \<noteq> 0"
proof -
  have "unat (msi_mmc (cap_ctrl c)) < 8"
    using unat_bf_get_less [of 1 3 "cap_ctrl c"] by (simp add: msi_mmc_def)
  then have "bit (cap_msis_supported c) (unat (msi_mmc (cap_ctrl c)))"
    by (simp add: cap_msis_supported_def bit_simps)
  then show ?thesis by auto
qed

lemma cap_msixs_supported_pos: "cap_msixs_supported c \<noteq> 0"
proof -
  have "unat (ucast (msix_ts (cap_ctrl c)) :: u32) < 2048"
    using unat_bf_get_less [of 0 10 "cap_ctrl c", where ?'b = 16]
    by (simp add: msix_ts_def unsigned_ucast_eq le_less_trans [OF take_bit_nat_less_eq_self])
  then have "unat (cap_msixs_supported c) = unat (ucast (msix_ts (cap_ctrl c)) :: u32) + 1"
    unfolding cap_msixs_supported_def by (subst unat_add_lem [THEN iffD1]) auto
  then show ?thesis by auto
qed

section \<open>Local vectors\<close>

text \<open>
  The numbering is a bijection between the MSI numbers seen so far (without the MSI flag) and an
  initial segment of the vectors.
\<close>

definition vec_inv :: "pci_dev \<Rightarrow> bool" where
  "vec_inv d \<longleftrightarrow>
     (\<forall>k v. vectors d k = Some v \<longrightarrow> v < last_vector d \<and> k AND Icu_F_msi = 0) \<and>
     inj_on (vectors d) (dom (vectors d)) \<and> card (dom (vectors d)) = unat (last_vector d)"

lemma vec_inv_new: "vec_inv (pci_dev_new c cx)"
  by (simp add: vec_inv_def pci_dev_new_def)

lemma unflagged_less: "k AND Icu_F_msi = 0 \<Longrightarrow> unat k < 2 ^ 31"
proof -
  assume k: "k AND Icu_F_msi = 0"
  have "\<not> bit k 31"
  proof
    assume "bit k 31"
    then have "bit (k AND Icu_F_msi) 31" by (simp add: bit_simps Icu_F_msi_def)
    with k show False by simp
  qed
  then have "take_bit 31 k = k"
  proof (intro bit_word_eqI)
    fix n assume "n < LENGTH(32)"
    then have "n < 31 \<or> n = 31" by auto
    with \<open>\<not> bit k 31\<close> show "bit (take_bit 31 k) n \<longleftrightarrow> bit k n"
      by (auto simp: bit_simps)
  qed
  then show ?thesis
    by (metis take_bit_nat_less_exp unsigned_take_bit_eq)
qed

lemma unflag_clears: "(irq AND NOT Icu_F_msi) AND Icu_F_msi = 0"
  by (simp add: and.assoc)

lemma vec_inv_room:
  assumes "vec_inv d"
  shows "unat (last_vector d) \<le> 2 ^ 31"
proof -
  have "card (dom (vectors d)) = card (unat ` dom (vectors d))"
    by (intro card_image [symmetric] inj_onI) (simp add: unat_eq_iff)
  also have "\<dots> \<le> card {..< 2 ^ 31 :: nat}"
    using assms unflagged_less by (intro card_mono) (fastforce simp: vec_inv_def)+
  finally show ?thesis using assms by (simp add: vec_inv_def)
qed

lemma get_local_vector_known:
  assumes "vectors d (irq AND NOT Icu_F_msi) = Some v"
  shows "get_local_vector irq d = (v, d)"
  using assms by (simp add: get_local_vector_def Let_def)

lemma get_local_vector_new:
  assumes "vectors d (irq AND NOT Icu_F_msi) = None"
  shows "get_local_vector irq d = (last_vector d,
    d\<lparr>vectors := (vectors d)(irq AND NOT Icu_F_msi \<mapsto> last_vector d),
      last_vector := last_vector d + 1\<rparr>)"
  using assms by (simp add: get_local_vector_def Let_def)

lemma last_vector_inc:
  assumes "vec_inv d"
  shows "unat (last_vector d + 1) = Suc (unat (last_vector d))"
proof -
  have "unat (last_vector d) + unat (1 :: u32) < 2 ^ LENGTH(32)"
    using vec_inv_room [OF assms] by simp
  then show ?thesis by (simp only: unat_add_lem) simp
qed

lemma get_local_vector_grows:
  assumes "vec_inv d"
  shows "case get_local_vector irq d of (v, d') \<Rightarrow>
    vec_inv d' \<and> v < last_vector d' \<and> vectors d' (irq AND NOT Icu_F_msi) = Some v \<and>
    vectors d \<subseteq>\<^sub>m vectors d' \<and>
    (vectors d (irq AND NOT Icu_F_msi) = None \<longrightarrow> v = last_vector d \<and> v \<notin> ran (vectors d))"
proof (cases "vectors d (irq AND NOT Icu_F_msi)")
  case (Some v)
  with assms show ?thesis by (simp add: get_local_vector_known vec_inv_def)
next
  case None
  let ?k = "irq AND NOT Icu_F_msi"
  note inc = last_vector_inc [OF assms]
  have grow: "v < last_vector d \<Longrightarrow> v < last_vector d + 1" for v
    using inc by (simp add: word_less_nat_alt)
  have top: "last_vector d < last_vector d + 1"
    using inc by (simp add: word_less_nat_alt)
  have fresh: "last_vector d \<notin> ran (vectors d)"
    using assms by (auto simp: vec_inv_def ran_def)
  then have "inj_on ((vectors d)(?k \<mapsto> last_vector d)) (insert ?k (dom (vectors d)))"
    using assms None by (auto simp: vec_inv_def inj_on_def ran_def split: if_splits)
  moreover have "card (insert ?k (dom (vectors d))) = unat (last_vector d + 1)"
    using assms None inc by (simp add: vec_inv_def domIff)
  ultimately have "vec_inv (d\<lparr>vectors := (vectors d)(?k \<mapsto> last_vector d),
      last_vector := last_vector d + 1\<rparr>)"
    using assms grow top unflag_clears by (auto simp: vec_inv_def split: if_splits)
  with None fresh top show ?thesis
    by (auto simp: get_local_vector_new map_le_def)
qed

lemma get_local_vector_inv:
  assumes "vec_inv d"
  shows "vec_inv (snd (get_local_vector irq d))"
    and "vectors (snd (get_local_vector irq d)) (irq AND NOT Icu_F_msi) = Some (fst (get_local_vector irq d))"
    and "vectors d \<subseteq>\<^sub>m vectors (snd (get_local_vector irq d))"
  using get_local_vector_grows [OF assms, of irq] by (simp_all add: case_prod_unfold)

text \<open>
  \<^verbatim>\<open>get_local_vector\<close> numbers the controller's interrupt vectors consistently: an MSI number,
  with or without its flag, keeps the vector it got first; a new one gets the next unused vector,
  so distinct MSIs never share a vector and the vectors in use are \<open>0, \<dots>, _last - 1\<close>. The
  counter cannot wrap.
\<close>

lemma get_local_vector_spec:
  assumes "vec_inv d"
  shows "case get_local_vector irq d of (v, d') \<Rightarrow>
    vec_inv d' \<and> v < last_vector d' \<and> vectors d' (irq AND NOT Icu_F_msi) = Some v \<and>
    vectors d \<subseteq>\<^sub>m vectors d' \<and>
    (vectors d (irq AND NOT Icu_F_msi) = None \<longrightarrow> v = last_vector d \<and> v \<notin> ran (vectors d))"
  by (rule get_local_vector_grows [OF assms])

section \<open>Detection\<close>

text \<open>A configuration space in which every read succeeds.\<close>

definition readable :: "cfg_space \<Rightarrow> bool" where
  "readable cfg \<longleftrightarrow> (\<forall>reg w. \<exists>v. cfg reg w = Inr v)"

lemma readable_reads:
  assumes "readable cfg"
  shows "\<exists>v. cfg_read_8 cfg reg = Inr v" "\<exists>v. cfg_read_16 cfg reg = Inr v"
proof -
  obtain v w where "cfg reg 8 = Inr v" "cfg reg 16 = Inr w"
    using assms unfolding readable_def by metis
  then show "\<exists>v. cfg_read_8 cfg reg = Inr v" "\<exists>v. cfg_read_16 cfg reg = Inr v"
    by (simp_all add: cfg_read_8_def cfg_read_16_def)
qed

lemma readable_visit: "readable cfg \<Longrightarrow> \<exists>d'. visit_cap cfg p d = Inr d'"
  using readable_reads(1) [of cfg "ucast p"] readable_reads(2) [of cfg "ucast p + 2"]
  by (auto simp: visit_cap_def Pci_msi_Ctrl_offset_def Pci_msix_Ctrl_offset_def)

lemma readable_visit_caps: "readable cfg \<Longrightarrow> \<exists>d'. visit_caps cfg ps d = Inr d'"
proof (induction ps arbitrary: d)
  case (Cons p ps)
  obtain d1 where "visit_cap cfg p d = Inr d1" using readable_visit [OF Cons.prems] by blast
  with Cons.IH [OF Cons.prems, of d1] show ?case by simp
qed simp

lemma readable_next: "readable cfg \<Longrightarrow> \<exists>n. next_cap cfg p = Inr n"
  using readable_reads(1) [of cfg "ucast p + 1"] by (auto simp: next_cap_def)

text \<open>
  C31: On a device whose capability list is well formed, detection ends and finds exactly what is
  there: it reports MSI (MSI-X) support if and only if the list holds an MSI (MSI-X) capability,
  and the address and control word it keeps are those of such an entry.
\<close>

theorem detect_msi_support_correct:
  assumes "readable cfg" and "cfg_read_16 cfg Cfg_status = Inr st" and "st AND 0x10 \<noteq> 0"
    and "cfg_read_8 cfg Cfg_cap_ptr = Inr v" and "cap_chain cfg (v AND NOT 0x3) ps"
  shows "\<exists>d. detect_msi_support cfg (pci_dev_new c cx) = Inr d \<and>
    (msis_supported d \<noteq> 0 \<longleftrightarrow> (\<exists>p \<in> set ps. is_cap cfg Cap_Msi p)) \<and>
    (msixs_supported d \<noteq> 0 \<longleftrightarrow> (\<exists>p \<in> set ps. is_cap cfg Cap_Msi_x p)) \<and>
    (msis_supported d \<noteq> 0 \<longrightarrow> cap_found cfg Cap_Msi ps (msi_cap d)) \<and>
    (msixs_supported d \<noteq> 0 \<longrightarrow> cap_found cfg Cap_Msi_x ps (msix_cap d))"
proof -
  obtain d where d: "visit_caps cfg ps (pci_dev_new c cx) = Inr d"
    using readable_visit_caps [OF assms(1)] by blast
  then have "detect_msi_support cfg (pci_dev_new c cx) = Inr d"
    using assms(2-4) walk_caps_chain [OF assms(5)] by (simp add: detect_msi_support_def)
  moreover have "msis_supported d \<noteq> 0 \<longleftrightarrow> cap_id (msi_cap d) = Cap_Msi"
    "msixs_supported d \<noteq> 0 \<longleftrightarrow> cap_id (msix_cap d) = Cap_Msi_x"
    by (simp_all add: msis_supported_def msixs_supported_def cap_msis_supported_pos
        cap_msixs_supported_pos)
  moreover have "cap_found cfg k ps e \<Longrightarrow> cap_id e = k" for k e
    by (auto simp: cap_found_def)
  ultimately show ?thesis
    using visit_caps_InrD [OF d]
    by (auto simp: pci_dev_new_def Cap_Msi_def Cap_Msi_x_def split: if_splits)
qed

text \<open>
  The walk has no bound of its own: on a device whose capability pointers run in a circle
  (every pointer reached leads to a pointer in the same set, none is zero) detection never
  returns.
\<close>

lemma detect_msi_support_circular:
  assumes "readable cfg" and "cfg_read_16 cfg Cfg_status = Inr st" and "st AND 0x10 \<noteq> 0"
    and "cfg_read_8 cfg Cfg_cap_ptr = Inr v" and "v AND NOT 0x3 \<in> S" and "0 \<notin> S"
    and "\<forall>p \<in> S. \<forall>n. next_cap cfg p = Inr n \<longrightarrow> n \<in> S"
  shows "detect_msi_support cfg d = Inl Hang"
proof -
  have "p \<noteq> 0 \<and> (\<exists>n \<in> S. next_cap cfg p = Inr n) \<and> (\<forall>d. \<exists>d'. visit_cap cfg p d = Inr d')"
    if "p \<in> S" for p
    using that assms(6,7) readable_next [OF assms(1), of p] readable_visit [OF assms(1), of p]
    by blast
  from walk_caps_returns_outside [of S cfg, OF this] assms(5)
  have "walk_caps cfg (v AND NOT 0x3) d = None"
    by (cases "walk_caps cfg (v AND NOT 0x3) d") auto
  with assms(2-4) show ?thesis by (simp add: detect_msi_support_def)
qed

text \<open>Two configuration spaces: MSI at 0x50 followed by MSI-X at 0x70, and a self-loop at 0x50.\<close>

definition good_cfg :: cfg_space where
  "good_cfg reg w = Inr (if reg = 0x6 then 0x10 else if reg = 0x34 then 0x50
     else if reg = 0x50 then 0x05 else if reg = 0x51 then 0x70 else if reg = 0x52 then 0x86
     else if reg = 0x70 then 0x11 else if reg = 0x72 then 0x1f else 0)"

definition loop_cfg :: cfg_space where
  "loop_cfg reg w = Inr (if reg = 0x6 then 0x10 else if reg = 0x34 then 0x50
     else if reg = 0x51 then 0x50 else 0)"

lemma good_cfg_chain: "cap_chain good_cfg 0x50 [0x50, 0x70]"
  by (simp add: cap_chain_Cons_iff cap_chain_Nil_iff next_cap_def cfg_read_8_def good_cfg_def)

theorem detect_msi_support_correct_witness:
  "\<exists>d. detect_msi_support good_cfg (pci_dev_new 0 0) = Inr d \<and>
    (msis_supported d \<noteq> 0 \<longleftrightarrow> (\<exists>p \<in> set [0x50, 0x70]. is_cap good_cfg Cap_Msi p)) \<and>
    (msixs_supported d \<noteq> 0 \<longleftrightarrow> (\<exists>p \<in> set [0x50, 0x70]. is_cap good_cfg Cap_Msi_x p)) \<and>
    (msis_supported d \<noteq> 0 \<longrightarrow> cap_found good_cfg Cap_Msi [0x50, 0x70] (msi_cap d)) \<and>
    (msixs_supported d \<noteq> 0 \<longrightarrow> cap_found good_cfg Cap_Msi_x [0x50, 0x70] (msix_cap d))"
  by (rule detect_msi_support_correct [where st = "0x10" and v = "0x50"])
    (simp_all add: readable_def good_cfg_def cfg_read_16_def cfg_read_8_def Cfg_status_def
      Cfg_cap_ptr_def good_cfg_chain [simplified])

end
