(* ===== verification/Ctl_Base.thy ===== *)
theory Ctl_Base
  imports Nvme_Types
begin

text \<open>
  The part of the controller object of \<^verbatim>\<open>server/src/ctl.h\<close> that the block device reads: the
  capabilities register, the SGL support found by the identification, the maximum data transfer
  size, the serial number, and the global switches that the command line sets.
\<close>

record ctl_base =
  use_sgls :: bool
  use_msis :: bool
  use_msixs :: bool
  ctl_cap :: u64
  ctl_sgls :: bool
  ctl_sn :: string
  ctl_mdts :: u8

definition Mps_base :: nat where "Mps_base = 12"

definition supports_sgl :: "'a ctl_base_scheme \<Rightarrow> bool" where
  "supports_sgl c \<longleftrightarrow> use_sgls c \<and> ctl_sgls c"

end
