(* ===== verification/Controller.thy ===== *)
theory Controller
  imports Queue_Laws Completion_Ring Pci Ctl_Base
begin

text \<open>
  \<^verbatim>\<open>server/src/ctl.h\<close> and \<^verbatim>\<open>server/src/ctl.cc\<close> without the identification (theory Identification): the
  constructor that resets and enables the controller, the interrupt set-up, the allocation of
  interrupts for namespaces, and the admin commands that create I/O queues.

  The registers of the controller are an argument: \<open>dev h reg\<close> is what a read of \<open>reg\<close> answers
  after the accesses \<open>h\<close>. The history of all accesses is part of the result.
\<close>

section \<open>Register accesses\<close>

datatype mmio_op = Mmio_read u32 u32 | Mmio_write u32 u32

type_synonym mmio_dev = "mmio_op list \<Rightarrow> u32 \<Rightarrow> u32"

definition mmio_read :: "mmio_dev \<Rightarrow> u32 \<Rightarrow> mmio_op list \<Rightarrow> u32 \<times> mmio_op list" where
  "mmio_read dev reg h = (let v = dev h reg in (v, h @ [Mmio_read reg v]))"

definition mmio_write :: "u32 \<Rightarrow> u32 \<Rightarrow> mmio_op list \<Rightarrow> mmio_op list" where
  "mmio_write reg v h = h @ [Mmio_write reg v]"

text \<open>The two polling loops: until the ready bit is as wanted. \<open>None\<close> is a loop that never ends.\<close>

partial_function (option) wait_rdy :: "mmio_dev \<Rightarrow> bool \<Rightarrow> mmio_op list \<Rightarrow> mmio_op list option" where
  "wait_rdy dev want h =
     (let (v, h1) = mmio_read dev (ctl_reg_off Reg_Csts) h in
      if (csts_rdy v \<noteq> 0) = want then Some h1 else wait_rdy dev want h1)"

definition or_hang :: "'a option \<Rightarrow> 'a drv_result" where
  "or_hang r = (case r of None \<Rightarrow> Inl Hang | Some v \<Rightarrow> Inr v)"

section \<open>The controller object\<close>

record 'cb ctl = ctl_base +
  ctl_pci :: pci_dev
  ctl_iomem :: iomem
  ctl_irq_trigger :: u8
  ctl_acq :: completion_queue
  ctl_asq :: "'cb submission_queue"

text \<open>
  What the constructor gets from outside: the configuration space and its answers to writes, the
  attaching of device memory, the registers, fresh memory and the answers to its three buffer
  allocations, the command line switches, and the contents of members that are not initialised.
\<close>

record ctl_env =
  env_cfg :: cfg_space
  env_wr :: "cfg_write \<Rightarrow> unit l4_ret"
  env_attach :: "u64 \<Rightarrow> u64 \<Rightarrow> u64 l4_ret"
  env_dev :: mmio_dev
  env_mem :: fresh_memory
  env_acq_buf :: buffer_answers
  env_asq_buf :: buffer_answers
  env_asq_prps :: buffer_answers
  env_use_sgls :: bool
  env_use_msis :: bool
  env_use_msixs :: bool
  env_uninit_ctrl :: u16
  env_uninit_ctrlx :: u16
  env_uninit_trigger :: u8
  env_uninit_mdts :: u8

definition cfg_read_bar :: "cfg_space \<Rightarrow> u64 drv_result" where
  "cfg_read_bar cfg =
     bind_res (cfg_read_32 cfg 0x14) (\<lambda>hi.
     bind_res (cfg_read_32 cfg 0x10) (\<lambda>lo.
       Inr ((push_bit 32 (ucast hi) OR ucast lo) AND 0xFFFFFFFFFFFFF000)))"

section \<open>The constructor\<close>

text \<open>Its first part: the PCI interrupt capabilities.\<close>

definition ctl_setup_msi :: "ctl_env \<Rightarrow> icu \<Rightarrow> (cfg_write list \<times> pci_dev) drv_result" where
  "ctl_setup_msi env i =
     bind_res (detect_msi_support (env_cfg env)
         (pci_dev_new (env_uninit_ctrl env) (env_uninit_ctrlx env))) (\<lambda>d.
       if icu_msis_supported i then
         if env_use_msixs env \<and> msixs_supported d \<noteq> 0 then enable_msix_pci (env_wr env) d
         else if env_use_msis env \<and> msis_supported d \<noteq> 0 then enable_msi_pci (env_wr env) d
         else Inr ([], d)
       else Inr ([], d))"

text \<open>Then the reset of a controller that is enabled.\<close>

definition ctl_reset :: "mmio_dev \<Rightarrow> mmio_op list \<Rightarrow> mmio_op list option" where
  "ctl_reset dev h =
     (let (csts, h1) = mmio_read dev (ctl_reg_off Reg_Csts) h in
      if csts_rdy csts \<noteq> 0 then
        let (raw, h2) = mmio_read dev (ctl_reg_off Reg_Cc) h1;
            h3 = mmio_write (ctl_reg_off Reg_Cc) (cc_set_en 0 raw) h2;
            (_, h4) = mmio_read dev (ctl_reg_off Reg_Cc) h3
        in wait_rdy dev False h4
      else Some h1)"

definition ctl_aqa :: u32 where
  "ctl_aqa = aqa_set_asqs 1 (aqa_set_acqs 1 0)"

definition write_queue_addresses :: "u64 \<Rightarrow> u64 \<Rightarrow> mmio_op list \<Rightarrow> mmio_op list" where
  "write_queue_addresses acq asq h =
     (let h1 = mmio_write (ctl_reg_off Reg_Acq) (ucast (acq AND 0xffffffff)) h;
          h2 = mmio_write (ctl_reg_off Reg_Acq + 4) (ucast (drop_bit 32 acq)) h1;
          h3 = mmio_write (ctl_reg_off Reg_Asq) (ucast (asq AND 0xffffffff)) h2
      in mmio_write (ctl_reg_off Reg_Asq + 4) (ucast (drop_bit 32 asq)) h3)"

text \<open>The configuration register up to the page size, and its final value.\<close>

definition ctl_cc_mps :: u32 where
  "ctl_cc_mps =
     cc_set_mps (of_nat (L4_PAGESHIFT - Mps_base)) (cc_set_ams Cc_Ams_rr (cc_set_iosqes 6 (cc_set_iocqes 4 0)))"

definition ctl_cc_final :: u32 where
  "ctl_cc_final = cc_set_en 1 (cc_set_css Cc_Css_nvm ctl_cc_mps)"

definition ctl_start ::
  "ctl_env \<Rightarrow> u64 \<Rightarrow> mmio_op list \<Rightarrow>
   (completion_queue \<times> 'cb submission_queue \<times> cfg_write list \<times> mmio_op list) drv_result" where
  "ctl_start env cap h =
     bind_res (or_hang (ctl_reset (env_dev env) h)) (\<lambda>h1.
     let h2 = mmio_write (ctl_reg_off Reg_Aqa) ctl_aqa h1 in
     bind_res (completion_queue_new (env_mem env) (env_acq_buf env) (aqa_acqs ctl_aqa + 1)
         (ucast Aq_id) (ucast (cap_dstrd cap))) (\<lambda>acq.
     bind_res (submission_queue_new (env_mem env) (env_asq_buf env) (env_asq_prps env)
         (aqa_asqs ctl_aqa + 1) (ucast Aq_id) (ucast (cap_dstrd cap)) 0) (\<lambda>asq.
     let h3 = write_queue_addresses (phys_base acq) (phys_base asq) h2 in
     if cap_mpsmin cap > cc_mps ctl_cc_mps \<or> cap_mpsmax cap < cc_mps ctl_cc_mps
     then Inl (Sys_error L4_ENOSYS)
     else
       bind_res (or_hang (wait_rdy (env_dev env) True
           (mmio_write (ctl_reg_off Reg_Cc) ctl_cc_final h3))) (\<lambda>h4.
       bind_res (cfg_read_16 (env_cfg env) 0x04) (\<lambda>cmd.
       bind_res (if cmd AND 4 = 0 then cfg_write_16 (env_wr env) 0x04 (cmd OR 4) else Inr []) (\<lambda>ws.
         Inr (acq, asq, ws, h4)))))))"

definition ctl_new ::
  "ctl_env \<Rightarrow> icu \<Rightarrow> ('cb ctl \<times> cfg_write list \<times> mmio_op list) drv_result" where
  "ctl_new env i =
     bind_res (cfg_read_bar (env_cfg env)) (\<lambda>bar.
     bind_res (iomem_new (env_attach env) bar (ucast (ctl_reg_off Reg_Sq0tdbl) + 1)) (\<lambda>io.
     let (lo, h1) = mmio_read (env_dev env) (ctl_reg_off Reg_Cap) [];
         (hi, h2) = mmio_read (env_dev env) (ctl_reg_off Reg_Cap + 4) h1;
         cap = ucast lo OR push_bit 32 (ucast hi);
         (_, h3) = mmio_read (env_dev env) (ctl_reg_off Reg_Vs) h2
     in
     if cap_css cap AND 1 = 0 then Inl (Sys_error L4_ENOSYS)
     else
       bind_res (ctl_setup_msi env i) (\<lambda>(ws1, pci).
       bind_res (ctl_start env cap h3) (\<lambda>(acq, asq, ws2, h4).
         Inr (\<lparr>use_sgls = env_use_sgls env, use_msis = env_use_msis env, use_msixs = env_use_msixs env,
               ctl_cap = cap, ctl_sgls = False, ctl_sn = [], ctl_mdts = env_uninit_mdts env,
               ctl_pci = pci, ctl_iomem = io, ctl_irq_trigger = env_uninit_trigger env,
               ctl_acq = acq, ctl_asq = asq\<rparr>, ws1 @ ws2, h4)))))"

section \<open>Interrupts\<close>

definition msis_enabled :: "icu \<Rightarrow> 'cb ctl \<Rightarrow> bool" where
  "msis_enabled i c \<longleftrightarrow> icu_msis_supported i \<and>
     ((use_msixs c \<and> msixs_supported (ctl_pci c) \<noteq> 0) \<or> (use_msis c \<and> msis_supported (ctl_pci c) \<noteq> 0))"

text \<open>
  The calls to the ICU, the registry, the PCI device and the registers, in their order.
  \<open>Ev_read_mask\<close> is the read of INTMS for the trace, \<open>Ev_unmask_mmio\<close> the write to INTMC.
\<close>

datatype irq_event =
    Ev_register
  | Ev_bind u32
  | Ev_msi_info u32
  | Ev_unmask_cap
  | Ev_unmask_icu u32
  | Ev_table table_op
  | Ev_cfg cfg_write
  | Ev_read_mask
  | Ev_unmask_mmio
  | Ev_delete_irq
  | Ev_unregister

text \<open>
  And their answers. A successful bind says whether the interrupt is to be unmasked at the ICU, the
  legacy interrupt comes with its trigger type.
\<close>

record irq_env =
  ie_cfg :: cfg_space
  ie_wr :: "cfg_write \<Rightarrow> unit l4_ret"
  ie_attach :: "u64 \<Rightarrow> u64 \<Rightarrow> u64 l4_ret"
  ie_scan_zero :: "bool list \<Rightarrow> int"
  ie_icu_info :: "(u32 \<times> u32 \<times> u32) l4_ret"
  ie_register :: "unit l4_ret"
  ie_legacy :: "(u32 \<times> u8) l4_ret"
  ie_bind :: "u32 \<Rightarrow> bool l4_ret"
  ie_msi_info :: "u32 \<Rightarrow> msi_info l4_ret"
  ie_unmask_cap :: "unit l4_ret"
  ie_unmask_icu :: "u32 \<Rightarrow> unit l4_ret"

definition ctl_enable_msi ::
  "irq_env \<Rightarrow> u32 \<Rightarrow> msi_info \<Rightarrow> 'cb ctl \<Rightarrow> (irq_event list \<times> 'cb ctl) drv_result" where
  "ctl_enable_msi env irq info c =
     (if irq AND Icu_F_msi = 0 then Inr ([], c)
      else if use_msixs c \<and> msixs_supported (ctl_pci c) \<noteq> 0 then
        bind_res (enable_msix (ie_cfg env) (ie_attach env) irq info (ctl_pci c)) (\<lambda>(ops, d).
          Inr (map Ev_table ops, c\<lparr>ctl_pci := d\<rparr>))
      else if use_msis c \<and> msis_supported (ctl_pci c) \<noteq> 0 then
        bind_res (enable_msi (ie_wr env) info (ctl_pci c)) (\<lambda>ws. Inr (map Ev_cfg ws, c))
      else Inr ([], c))"

definition register_interrupt_handler ::
  "irq_env \<Rightarrow> icu \<Rightarrow> 'cb ctl \<Rightarrow> (irq_event list \<times> icu \<times> 'cb ctl) drv_result" where
  "register_interrupt_handler env i c =
     bind_res (chksys (ie_icu_info env)) (\<lambda>_.
     bind_res (chksys (ie_register env)) (\<lambda>_.
     let (msi, i1) =
           (if msis_enabled i c then
              (case icu_alloc_msi (ie_scan_zero env) i of
                 Inl _ \<Rightarrow> (None, i)
               | Inr (n, i') \<Rightarrow> (Some (n OR Icu_F_msi), i'))
            else (None, i))
     in
     bind_res
       (case msi of
          Some irq \<Rightarrow> Inr (irq, 1)
        | None \<Rightarrow> chksys (ie_legacy env)) (\<lambda>(irq, trigger).
     bind_res (chksys (ie_bind env irq)) (\<lambda>via_icu.
     bind_res
       (if irq AND Icu_F_msi \<noteq> 0 then
          bind_res (chksys (ie_msi_info env irq)) (\<lambda>info.
          bind_res (chksys (ie_unmask_cap env)) (\<lambda>_.
          bind_res (ctl_enable_msi env irq info (c\<lparr>ctl_irq_trigger := trigger\<rparr>)) (\<lambda>(evs, c1).
            Inr ([Ev_msi_info irq, Ev_unmask_cap] @ evs, c1))))
        else if via_icu then
          bind_res (chksys (ie_unmask_icu env irq)) (\<lambda>_.
            Inr ([Ev_unmask_icu irq], c\<lparr>ctl_irq_trigger := trigger\<rparr>))
        else
          bind_res (chksys (ie_unmask_cap env)) (\<lambda>_.
            Inr ([Ev_unmask_cap], c\<lparr>ctl_irq_trigger := trigger\<rparr>))) (\<lambda>(evs, c1).
       Inr ([Ev_register, Ev_bind irq] @ evs @ [Ev_read_mask] @
            (if use_msixs c1 \<and> msixs_supported (ctl_pci c1) \<noteq> 0 then [] else [Ev_unmask_mmio]),
            i1, c1))))))"

definition allocate_msi ::
  "irq_env \<Rightarrow> icu \<Rightarrow> 'cb ctl \<Rightarrow> (u32 \<times> irq_event list \<times> icu \<times> 'cb ctl) drv_result" where
  "allocate_msi env i c =
     (if msis_enabled i c then
        (case icu_alloc_msi (ie_scan_zero env) i of
           Inl _ \<Rightarrow> Inr (0, [], i, c)
         | Inr (iv, i1) \<Rightarrow>
             let msi = iv OR Icu_F_msi in
             bind_res (chksys (ie_register env)) (\<lambda>_.
             bind_res (chksys (ie_bind env msi)) (\<lambda>_.
             bind_res (chksys (ie_msi_info env msi)) (\<lambda>info.
             bind_res (chksys (ie_unmask_cap env)) (\<lambda>_.
             bind_res (ctl_enable_msi env msi info c) (\<lambda>(evs, c1).
               Inr (iv, [Ev_register, Ev_bind msi, Ev_msi_info msi, Ev_unmask_cap] @ evs, i1, c1)))))))
      else Inr (0, [], i, c))"

definition ctl_free_msi :: "u32 \<Rightarrow> icu \<Rightarrow> (irq_event list \<times> icu) drv_result" where
  "ctl_free_msi iv i =
     (if iv = 0 then Inr ([], i)
      else bind_res (icu_free_msi iv i) (\<lambda>i1. Inr ([Ev_delete_irq, Ev_unregister], i1)))"

section \<open>Creating I/O queues\<close>

definition iocq_fill :: "u16 \<Rightarrow> u64 \<Rightarrow> u16 \<Rightarrow> u32 \<Rightarrow> sqe \<Rightarrow> sqe" where
  "iocq_fill i base sz v e =
     (let e1 = (sqe_set_opc (acs_code Create_iocq) e)\<lparr>sqe_nsid := 0\<rparr>;
          e2 = (sqe_set_psdt (psdt_code Use_prps) e1)\<lparr>sqe_prp1 := base, sqe_prp2 := 0\<rparr>
      in sqe_set_pc 1 (sqe_set_ien 1 (sqe_set_iv (ucast v)
           (sqe_set_qsize (sz - 1) (sqe_set_qid i e2)))))"

definition create_iocq ::
  "fresh_memory \<Rightarrow> buffer_answers \<Rightarrow> u16 \<Rightarrow> u16 \<Rightarrow> u32 \<Rightarrow> 'cb \<Rightarrow> 'cb ctl \<Rightarrow>
   (completion_queue \<times> reg_write \<times> 'cb ctl) drv_result" where
  "create_iocq mem ans i sz iv cb c =
     bind_res (completion_queue_new mem ans sz (ucast i) (ucast (cap_dstrd (ctl_cap c)))) (\<lambda>cq.
     bind_res (sq_produce cb (ctl_asq c)) (\<lambda>r.
       case r of None \<Rightarrow> Inl Null_deref
       | Some (slot, q) \<Rightarrow>
         let (v, d) = get_local_vector iv (ctl_pci c);
             q1 = sq_modify slot (iocq_fill i (phys_base cq) (q_size cq) v) q
         in Inr (cq, sq_submit q1, c\<lparr>ctl_asq := q1, ctl_pci := d\<rparr>)))"

definition iosq_fill :: "u16 \<Rightarrow> u64 \<Rightarrow> u16 \<Rightarrow> sqe \<Rightarrow> sqe" where
  "iosq_fill i base sz e =
     (let e1 = (sqe_set_opc (acs_code Create_iosq) e)\<lparr>sqe_nsid := 0\<rparr>;
          e2 = (sqe_set_psdt (psdt_code Use_prps) e1)\<lparr>sqe_prp1 := base, sqe_prp2 := 0\<rparr>
      in (sqe_set_cqid i (sqe_set_pc 1 (sqe_set_qsize (sz - 1) (sqe_set_qid i e2))))\<lparr>sqe_cdw12 := 0\<rparr>)"

definition create_iosq ::
  "fresh_memory \<Rightarrow> buffer_answers \<Rightarrow> buffer_answers \<Rightarrow> u16 \<Rightarrow> u16 \<Rightarrow> u64 \<Rightarrow> 'cb \<Rightarrow> 'cb ctl \<Rightarrow>
   ('io submission_queue \<times> reg_write \<times> 'cb ctl) drv_result" where
  "create_iosq mem ans ans2 i sz sgls cb c =
     bind_res (submission_queue_new mem ans ans2 sz (ucast i) (ucast (cap_dstrd (ctl_cap c))) sgls) (\<lambda>sq.
     bind_res (sq_produce cb (ctl_asq c)) (\<lambda>r.
       case r of None \<Rightarrow> Inl Null_deref
       | Some (slot, q) \<Rightarrow>
         let q1 = sq_modify slot (iosq_fill i (phys_base sq) (q_size sq)) q
         in Inr (sq, sq_submit q1, c\<lparr>ctl_asq := q1\<rparr>)))"

section \<open>Recognising a controller\<close>

text \<open>
  \<open>is_pci\<close> is the answer of the vbus library's interface test; a failing read of the class code is
  an exception, one of the vendor a \<^verbatim>\<open>false\<close>.
\<close>

definition is_nvme_ctl :: "bool \<Rightarrow> cfg_space \<Rightarrow> bool drv_result" where
  "is_nvme_ctl is_pci cfg =
     (if \<not> is_pci then Inr False
      else case cfg 0 32 of
        Inl _ \<Rightarrow> Inr False
      | Inr _ \<Rightarrow> bind_res (chksys (cfg 8 32)) (\<lambda>val. Inr (drop_bit 8 val = 0x10802)))"

end
