(* ===== verification/Namespaces.thy ===== *)
theory Namespaces
  imports Queue_Laws Completion_Ring
begin

text \<open>
  \<^verbatim>\<open>server/src/ns.h\<close> and \<^verbatim>\<open>server/src/ns.cc\<close>: a namespace with its pair of I/O queues, the
  preparation and submission of read, write and write-zeroes commands, and the interrupt handler.
  The asynchronous initialisation, which calls back into the controller, is in theory Identification.
  A pointer to a submission queue entry is its slot; a pointer into the PRP or SGL memory is an
  element index.
\<close>

section \<open>State\<close>

record 'cb namespace =
  ns_msi :: u32
  ns_iocq :: "completion_queue option"
  ns_iosq :: "'cb submission_queue option"
  ns_nsid :: u32
  ns_nsze :: u64
  ns_lba_sz :: u64
  ns_ro :: bool
  ns_dlfeat :: u8

text \<open>The constructor reads the Identify Namespace data in the buffer.\<close>

definition namespace_new :: "u32 \<Rightarrow> u64 \<Rightarrow> bytes \<Rightarrow> 'cb namespace" where
  "namespace_new nsid lba_sz inb =
     \<lparr>ns_msi = 0, ns_iocq = None, ns_iosq = None, ns_nsid = nsid,
      ns_nsze = rd64 inb (cns_in_off Nsze), ns_lba_sz = lba_sz,
      ns_ro = (inb (cns_in_off Nsattr) AND Nsattr_Wp \<noteq> 0), ns_dlfeat = inb (cns_in_off Dlfeat)\<rparr>"

definition ns_qid :: "'cb namespace \<Rightarrow> u16 drv_result" where
  "ns_qid ns = (if ns_nsid ns < 65536 then Inr (ucast (ns_nsid ns)) else Inl Assert_failed)"

lemma ns_qid_Inr_iff: "ns_qid ns = Inr q \<longleftrightarrow> ns_nsid ns < 65536 \<and> q = ucast (ns_nsid ns)"
  by (auto simp: ns_qid_def)

section \<open>Reading and writing\<close>

definition rw_opcode :: "bool \<Rightarrow> u8" where
  "rw_opcode read = iocs_code (if read then Read else Write)"

text \<open>The second PRP entry: unused, the second page, or the address of the PRP list.\<close>

definition prp2_of :: "'cb submission_queue \<Rightarrow> u64 \<Rightarrow> u64 \<Rightarrow> u64 \<Rightarrow> u64 drv_result" where
  "prp2_of q prp_list_start paddr sz =
     (let prp2 = l4_trunc_page (paddr + sz - 1) in
      if l4_trunc_page paddr = prp2 then Inr 0
      else if l4_trunc_page paddr \<noteq> prp2 - L4_PAGESIZE then
        (case sq_prps q of None \<Rightarrow> Inl Null_deref
         | Some b \<Rightarrow> Inr (inout_buffer_pget b (ucast prp_list_start)))
      else Inr prp2)"

definition rw_fill :: "bool \<Rightarrow> u32 \<Rightarrow> u8 \<Rightarrow> u64 \<Rightarrow> sqe \<Rightarrow> sqe" where
  "rw_fill read nsid transfer slba e =
     (let e1 = sqe_set_opc (rw_opcode read) e;
          e2 = e1\<lparr>sqe_nsid := nsid\<rparr>;
          e3 = sqe_set_psdt transfer e2
      in e3\<lparr>sqe_cdw10 := ucast (slba AND 0xffffffff), sqe_cdw11 := ucast (drop_bit 32 slba),
            sqe_cdw13 := 0, sqe_cdw14 := 0, sqe_cdw15 := 0\<rparr>)"

text \<open>
  The result \<open>Inr None\<close> is the null pointer; otherwise the entry's slot, and the index of the
  command's PRP list where the queue has PRP memory.
\<close>

definition readwrite_prepare_prp ::
  "bool \<Rightarrow> u64 \<Rightarrow> u64 \<Rightarrow> u64 \<Rightarrow> 'cb \<Rightarrow> 'cb namespace \<Rightarrow>
   (u16 \<times> nat option \<times> 'cb namespace) option drv_result" where
  "readwrite_prepare_prp read slba paddr sz cb ns =
     (case ns_iosq ns of None \<Rightarrow> Inl Null_deref
      | Some q \<Rightarrow>
        bind_res (sq_produce cb q) (\<lambda>r.
          case r of None \<Rightarrow> Inr None
          | Some (slot, q1) \<Rightarrow>
            let cid = sqe_cid (sq_entries q1 ! unat slot);
                prp_list_start = ucast cid * of_nat Prp_list_entries * of_nat sizeof_Prp_list_entry
            in bind_res (prp2_of q1 prp_list_start paddr sz) (\<lambda>prp2.
              let fill = (\<lambda>e. (rw_fill read (ns_nsid ns) (psdt_code Use_prps) slba e)
                      \<lparr>sqe_prp1 := paddr, sqe_prp2 := prp2\<rparr>);
                  prps = (if sq_prps q1 \<noteq> None then Some (unat cid * Prp_list_entries) else None)
              in Inr (Some (slot, prps, ns\<lparr>ns_iosq := Some (sq_modify slot fill q1)\<rparr>)))))"

definition readwrite_prepare_sgl ::
  "bool \<Rightarrow> u64 \<Rightarrow> 'cb \<Rightarrow> 'cb namespace \<Rightarrow> (u16 \<times> nat \<times> 'cb namespace) option drv_result" where
  "readwrite_prepare_sgl read slba cb ns =
     (case ns_iosq ns of None \<Rightarrow> Inl Null_deref
      | Some q \<Rightarrow>
        bind_res (sq_produce cb q) (\<lambda>r.
          case r of None \<Rightarrow> Inr None
          | Some (slot, q1) \<Rightarrow>
            let cid = sqe_cid (sq_entries q1 ! unat slot) in
            bind_res (sgls_paddr cid q1) (\<lambda>addr.
            bind_res (sgls_desc cid q1) (\<lambda>sgls.
              let fill = (\<lambda>e. sqe_set_sgl1_addr addr (sqe_set_sgl1_id (sgl_kind_code Last_segment_addr)
                      (rw_fill read (ns_nsid ns) (psdt_code Use_sgls) slba e)))
              in Inr (Some (slot, sgls, ns\<lparr>ns_iosq := Some (sq_modify slot fill q1)\<rparr>))))))"

definition readwrite_submit ::
  "u16 \<Rightarrow> u16 \<Rightarrow> u64 \<Rightarrow> 'cb namespace \<Rightarrow> (reg_write \<times> 'cb namespace) drv_result" where
  "readwrite_submit slot nlb blocks ns =
     (case ns_iosq ns of None \<Rightarrow> Inl Null_deref
      | Some q \<Rightarrow>
        let set_len = (\<lambda>e. if sqe_psdt e = psdt_code Use_sgls
                        then sqe_set_sgl1_len (ucast (blocks * of_nat sizeof_Sgl_desc)) e else e);
            q1 = sq_modify slot (\<lambda>e. sqe_set_nlb nlb (set_len e)) q
        in Inr (sq_submit q1, ns\<lparr>ns_iosq := Some q1\<rparr>))"

definition wz_fill :: "u32 \<Rightarrow> u64 \<Rightarrow> u16 \<Rightarrow> bool \<Rightarrow> sqe \<Rightarrow> sqe" where
  "wz_fill nsid slba nlb dealloc e =
     (let e1 = (sqe_set_opc (iocs_code Write_zeroes) e)\<lparr>sqe_nsid := nsid\<rparr>;
          e2 = e1\<lparr>sqe_cdw10 := ucast (slba AND 0xffffffff), sqe_cdw11 := ucast (drop_bit 32 slba)\<rparr>;
          e3 = sqe_set_deac (if dealloc then 1 else 0) (sqe_set_nlb nlb e2)
      in e3\<lparr>sqe_cdw14 := 0, sqe_cdw15 := 0\<rparr>)"

text \<open>\<open>Inr None\<close> is the result \<^verbatim>\<open>false\<close>.\<close>

definition ns_write_zeroes ::
  "u64 \<Rightarrow> u16 \<Rightarrow> bool \<Rightarrow> 'cb \<Rightarrow> 'cb namespace \<Rightarrow> (reg_write \<times> 'cb namespace) option drv_result"
where
  "ns_write_zeroes slba nlb dealloc cb ns =
     (case ns_iosq ns of None \<Rightarrow> Inl Null_deref
      | Some q \<Rightarrow>
        bind_res (sq_produce cb q) (\<lambda>r.
          case r of None \<Rightarrow> Inr None
          | Some (slot, q1) \<Rightarrow>
            let q2 = sq_modify slot (wz_fill (ns_nsid ns) slba nlb dealloc) q1
            in Inr (Some (sq_submit q2, ns\<lparr>ns_iosq := Some q2\<rparr>))))"

section \<open>The interrupt handler\<close>

text \<open>
  One round of the loop: consume, check the queue identifier, complete and run the callback,
  acknowledge. \<open>run\<close> is the client's code in the callback; it may use the namespace to issue new
  requests. A round returns the callback with its status, and the doorbell write.
\<close>

type_synonym 'cb ns_irq_event = "('cb \<times> u16) \<times> reg_write"

definition ns_irq_round ::
  "('cb \<Rightarrow> u16 \<Rightarrow> 'cb namespace \<Rightarrow> 'cb namespace) \<Rightarrow> 'cb namespace \<Rightarrow>
   ('cb ns_irq_event \<times> 'cb namespace) option drv_result" where
  "ns_irq_round run ns =
     (case (ns_iocq ns, ns_iosq ns) of
        (Some cq, Some sq) \<Rightarrow>
          (case cq_consume cq of
             (None, cq1) \<Rightarrow> Inr None
           | (Some c, cq1) \<Rightarrow>
               bind_res (ns_qid ns) (\<lambda>qid.
                 if cqe_sqid c \<noteq> qid then Inl Assert_failed
                 else
                   bind_res (sq_complete c sq) (\<lambda>(cb, st, sq1).
                     let ns1 = run cb st (ns\<lparr>ns_iocq := Some cq1, ns_iosq := Some sq1\<rparr>) in
                     case ns_iocq ns1 of None \<Rightarrow> Inl Null_deref
                     | Some cq2 \<Rightarrow> Inr (Some (((cb, st), cq_complete cq2), ns1)))))
      | _ \<Rightarrow> Inl Null_deref)"

partial_function (option) ns_irq_loop ::
  "('cb \<Rightarrow> u16 \<Rightarrow> 'cb namespace \<Rightarrow> 'cb namespace) \<Rightarrow> 'cb ns_irq_event list \<Rightarrow> 'cb namespace \<Rightarrow>
   ('cb ns_irq_event list \<times> 'cb namespace) drv_result option" where
  "ns_irq_loop run evs ns =
     (case ns_irq_round run ns of
        Inl e \<Rightarrow> Some (Inl e)
      | Inr None \<Rightarrow> Some (Inr (evs, ns))
      | Inr (Some (ev, ns1)) \<Rightarrow> ns_irq_loop run (evs @ [ev]) ns1)"

definition ns_handle_irq ::
  "('cb \<Rightarrow> u16 \<Rightarrow> 'cb namespace \<Rightarrow> 'cb namespace) \<Rightarrow> 'cb namespace \<Rightarrow>
   ('cb ns_irq_event list \<times> 'cb namespace) drv_result" where
  "ns_handle_irq run ns =
     (case ns_irq_loop run [] ns of None \<Rightarrow> Inl Hang | Some r \<Rightarrow> r)"

end
