(* ===== verification/Identification.thy ===== *)
theory Identification
  imports Controller Namespaces
begin

text \<open>
  \<^verbatim>\<open>server/src/ctl.cc\<close> and \<^verbatim>\<open>server/src/ns.cc\<close>: the asynchronous identification of a controller and
  its namespaces, the destructor of a namespace, and the controller's interrupt handler. The
  callbacks of the admin commands are lambdas that capture their context; here they are the
  constructors of \<open>admin_cb\<close> with that context as arguments, and \<open>run_admin_cb\<close> is their bodies.
  A namespace object is in a heap, since callbacks and the controller refer to it by pointer.
\<close>

section \<open>State\<close>

type_synonym ns_ptr = nat

datatype admin_cb =
    Cb_identify inout_buffer            \<comment> \<open>in \<^verbatim>\<open>Ctl::identify\<close>: ic\<close>
  | Cb_identify_ns u32 u32 inout_buffer \<comment> \<open>in \<^verbatim>\<open>Ctl::identify_namespace\<close>: nn, n, in\<close>
  | Cb_iocq ns_ptr u32                  \<comment> \<open>in \<^verbatim>\<open>Namespace::async_loop_init\<close>: this, nsids\<close>
  | Cb_iosq ns_ptr u32                  \<comment> \<open>the inner one: this, nsids\<close>

text \<open>
  One controller with the ICU, the namespaces, the next unused pointer, and the list of the
  namespaces that have been handed to the controller with \<^verbatim>\<open>add_ns\<close>.
\<close>

record 'io driver =
  dr_ctl :: "admin_cb ctl"
  dr_icu :: icu
  dr_heap :: "ns_ptr \<rightharpoonup> 'io namespace"
  dr_next :: ns_ptr
  dr_nss :: "ns_ptr list"

text \<open>
  What happens outside, in order: doorbell writes, interrupt set-up, requests to unmap DMA memory,
  and the calls of the two client callbacks: \<^verbatim>\<open>ns_cb\<close>, with the NSID it makes visible, and
  \<^verbatim>\<open>done_cb\<close>.
\<close>

datatype drv_event =
    Ev_doorbell reg_write
  | Ev_irq irq_event
  | Ev_unmap unmap_request
  | Ev_visible u32
  | Ev_done

text \<open>
  The answers of the surroundings during one callback: no callback makes two calls of one kind, but
  for the two buffers of a submission queue. \<open>se_data\<close> is what the controller has written into a
  buffer, \<open>se_post\<close> what it has done to the completion ring since it was last looked at.
\<close>

record step_env =
  se_irq :: irq_env
  se_mem :: fresh_memory
  se_buf :: buffer_answers
  se_buf2 :: buffer_answers
  se_unmap :: "unmap_request \<Rightarrow> unit l4_ret"
  se_data :: "inout_buffer \<Rightarrow> bytes"
  se_post :: "cqe list \<Rightarrow> cqe list"

type_synonym 'io step_result = "(drv_event list \<times> 'io driver) drv_result"

text \<open>Two parts of a callback, one after the other.\<close>

definition and_then :: "'io step_result \<Rightarrow> ('io driver \<Rightarrow> 'io step_result) \<Rightarrow> 'io step_result" where
  "and_then r f =
     bind_res r (\<lambda>(evs, st). bind_res (f st) (\<lambda>(evs', st'). Inr (evs @ evs', st')))"

section \<open>Issuing the Identify commands\<close>

definition identify_ns_fill :: "u32 \<Rightarrow> u64 \<Rightarrow> sqe \<Rightarrow> sqe" where
  "identify_ns_fill n paddr e =
     (let e1 = (sqe_set_opc (acs_code Identify) e)\<lparr>sqe_nsid := n\<rparr>;
          e2 = (sqe_set_psdt (psdt_code Use_prps) e1)\<lparr>sqe_prp1 := paddr, sqe_prp2 := 0\<rparr>
      in sqe_set_nvmsetid 0 (sqe_set_cns (cns_code Identify_namespace) (sqe_set_cntid 0 e2)))"

definition identify_namespace :: "step_env \<Rightarrow> u32 \<Rightarrow> u32 \<Rightarrow> 'io driver \<Rightarrow> 'io step_result" where
  "identify_namespace env nn n st =
     bind_res (inout_buffer_new (se_buf env) 4096 From_device) (\<lambda>inb.
     bind_res (sq_produce (Cb_identify_ns nn n inb) (ctl_asq (dr_ctl st))) (\<lambda>r.
       case r of None \<Rightarrow> Inl Null_deref
       | Some (slot, q) \<Rightarrow>
         let q1 = sq_modify slot (identify_ns_fill n (inout_buffer_pget inb 0)) q
         in Inr ([Ev_doorbell (sq_submit q1)], st\<lparr>dr_ctl := (dr_ctl st)\<lparr>ctl_asq := q1\<rparr>\<rparr>)))"

text \<open>The step of the asynchronous loop over the NSIDs, which occurs in three callbacks.\<close>

definition next_namespace :: "step_env \<Rightarrow> u32 \<Rightarrow> u32 \<Rightarrow> 'io driver \<Rightarrow> 'io step_result" where
  "next_namespace env nn n st =
     (if n + 1 \<le> nn then identify_namespace env nn (n + 1) st else Inr ([Ev_done], st))"

definition identify_ctl_fill :: "u64 \<Rightarrow> sqe \<Rightarrow> sqe" where
  "identify_ctl_fill paddr e =
     (let e1 = sqe_set_opc (acs_code Identify) e;
          e2 = (sqe_set_psdt (psdt_code Use_prps) e1)\<lparr>sqe_prp1 := paddr, sqe_prp2 := 0\<rparr>
      in sqe_set_nvmsetid 0 (sqe_set_cns (cns_code Identify_controller) (sqe_set_cntid 0 e2)))"

definition identify :: "step_env \<Rightarrow> 'io driver \<Rightarrow> 'io step_result" where
  "identify env st =
     bind_res (inout_buffer_new (se_buf env) 4096 From_device) (\<lambda>ic.
     bind_res (sq_produce (Cb_identify ic) (ctl_asq (dr_ctl st))) (\<lambda>r.
       case r of None \<Rightarrow> Inl Null_deref
       | Some (slot, q) \<Rightarrow>
         let q1 = sq_modify slot (identify_ctl_fill (inout_buffer_pget ic 0)) q
         in Inr ([Ev_doorbell (sq_submit q1)], st\<lparr>dr_ctl := (dr_ctl st)\<lparr>ctl_asq := q1\<rparr>\<rparr>)))"

section \<open>Setting up a namespace\<close>

text \<open>
  The checks of the Identify Namespace data: the LBA size of an active namespace with a valid
  format without metadata, \<open>None\<close> for one that is skipped. The LBA size is at least 512 and its
  exponent below the width of \<^verbatim>\<open>l4_size_t\<close>.
\<close>

definition usable_lba_size :: "bytes \<Rightarrow> u64 option" where
  "usable_lba_size inb =
     (let nsze = rd64 inb (cns_in_off Nsze);
          nlbaf = inb (cns_in_off Nlbaf);
          flbas = inb (cns_in_off Flbas) in
      if nsze \<noteq> 0 then
        if flbas AND 0xf \<le> nlbaf then
          let lbaf = rd32 inb (cns_in_off Lbaf0 + unat (flbas AND 0xf) * 4);
              lbads = (ucast (drop_bit 16 lbaf AND 0xff) :: u8) in
          if lbaf AND 0xffff \<noteq> 0 then None
          else if lbads < 9 \<or> lbads \<ge> 64 then None
          else Some (push_bit (unat lbads) 1)
        else None
      else None)"

text \<open>The destructor, with the buffers of the queues the object still owns.\<close>

definition namespace_buffers :: "'io namespace \<Rightarrow> inout_buffer list" where
  "namespace_buffers ns =
     (case ns_iosq ns of None \<Rightarrow> []
      | Some q \<Rightarrow> (case sq_prps q of None \<Rightarrow> [] | Some b \<Rightarrow> [b]) @
                  (case sq_sgls q of None \<Rightarrow> [] | Some b \<Rightarrow> [b]) @ [q_buf q]) @
     (case ns_iocq ns of None \<Rightarrow> [] | Some q \<Rightarrow> [q_buf q])"

fun destroy_buffers ::
  "(unmap_request \<Rightarrow> unit l4_ret) \<Rightarrow> inout_buffer list \<Rightarrow> unmap_request list drv_result" where
  "destroy_buffers ans [] = Inr []"
| "destroy_buffers ans (b # bs) =
     bind_res (inout_buffer_destroy ans b) (\<lambda>rs.
     bind_res (destroy_buffers ans bs) (\<lambda>rs'. Inr (rs @ rs')))"

definition namespace_destroy :: "step_env \<Rightarrow> ns_ptr \<Rightarrow> 'io driver \<Rightarrow> 'io step_result" where
  "namespace_destroy env p st =
     (case dr_heap st p of None \<Rightarrow> Inl Null_deref
      | Some ns \<Rightarrow>
        bind_res (ctl_free_msi (ns_msi ns) (dr_icu st)) (\<lambda>(evs, i).
        bind_res (destroy_buffers (se_unmap env) (namespace_buffers ns)) (\<lambda>rs.
          Inr (map Ev_irq evs @ map Ev_unmap rs,
               st\<lparr>dr_icu := i, dr_heap := (dr_heap st)(p := None)\<rparr>))))"

definition async_loop_init :: "step_env \<Rightarrow> ns_ptr \<Rightarrow> u32 \<Rightarrow> 'io driver \<Rightarrow> 'io step_result" where
  "async_loop_init env p nsids st =
     (case dr_heap st p of None \<Rightarrow> Inl Null_deref
      | Some ns \<Rightarrow>
        bind_res (allocate_msi (se_irq env) (dr_icu st) (dr_ctl st)) (\<lambda>(iv, evs, i, c).
        bind_res (ns_qid ns) (\<lambda>qid.
        bind_res (create_iocq (se_mem env) (se_buf env) qid Ioq_size iv (Cb_iocq p nsids) c)
          (\<lambda>(cq, db, c1).
          Inr (map Ev_irq evs @ [Ev_doorbell db],
               st\<lparr>dr_icu := i, dr_ctl := c1,
                  dr_heap := (dr_heap st)(p \<mapsto> ns\<lparr>ns_msi := iv, ns_iocq := Some cq\<rparr>)\<rparr>)))))"

section \<open>The callbacks\<close>

text \<open>
  The client's \<^verbatim>\<open>ns_cb\<close>: the namespace is made visible and handed back to the controller, which
  keeps it (\<^verbatim>\<open>add_ns\<close>).
\<close>

definition add_ns :: "ns_ptr \<Rightarrow> 'io driver \<Rightarrow> 'io driver" where
  "add_ns p st = st\<lparr>dr_nss := dr_nss st @ [p]\<rparr>"

definition iosq_created :: "step_env \<Rightarrow> u16 \<Rightarrow> ns_ptr \<Rightarrow> u32 \<Rightarrow> 'io driver \<Rightarrow> 'io step_result" where
  "iosq_created env status p nsids st =
     (case dr_heap st p of None \<Rightarrow> Inl Null_deref
      | Some ns \<Rightarrow>
        let nsid = ns_nsid ns; last_done = (if nsid = nsids then [Ev_done] else []) in
        and_then
          (if nsid + 1 \<le> nsids then identify_namespace env nsids (nsid + 1) st else Inr ([], st))
          (\<lambda>st1.
            if status \<noteq> 0 then and_then (Inr (last_done, st1)) (namespace_destroy env p)
            else Inr (Ev_visible nsid # last_done, add_ns p st1)))"

definition iocq_created :: "step_env \<Rightarrow> u16 \<Rightarrow> ns_ptr \<Rightarrow> u32 \<Rightarrow> 'io driver \<Rightarrow> 'io step_result" where
  "iocq_created env status p nsids st =
     (case dr_heap st p of None \<Rightarrow> Inl Null_deref
      | Some ns \<Rightarrow>
        if status \<noteq> 0 then
          and_then (next_namespace env nsids (ns_nsid ns) st) (namespace_destroy env p)
        else
          bind_res (ns_qid ns) (\<lambda>qid.
          bind_res (create_iosq (se_mem env) (se_buf env) (se_buf2 env) qid Ioq_size
              (if supports_sgl (dr_ctl st) then of_nat Ioq_sgls else 0) (Cb_iosq p nsids) (dr_ctl st))
            (\<lambda>(sq, db, c).
            Inr ([Ev_doorbell db],
                 st\<lparr>dr_ctl := c, dr_heap := (dr_heap st)(p \<mapsto> ns\<lparr>ns_iosq := Some sq\<rparr>)\<rparr>))))"

definition unmap_in :: "step_env \<Rightarrow> inout_buffer \<Rightarrow> 'io driver \<Rightarrow> 'io step_result" where
  "unmap_in env b st =
     bind_res (inout_buffer_unmap (se_unmap env) b) (\<lambda>(rs, _). Inr (map Ev_unmap rs, st))"

definition ns_identified ::
  "step_env \<Rightarrow> u16 \<Rightarrow> u32 \<Rightarrow> u32 \<Rightarrow> inout_buffer \<Rightarrow> 'io driver \<Rightarrow> 'io step_result" where
  "ns_identified env status nn n inb st =
     (if status \<noteq> 0 then next_namespace env nn n st
      else
        case usable_lba_size (se_data env inb) of
          Some lba_sz \<Rightarrow>
            let p = dr_next st;
                st1 = st\<lparr>dr_next := Suc p,
                  dr_heap := (dr_heap st)(p \<mapsto> namespace_new n lba_sz (se_data env inb))\<rparr>
            in and_then (async_loop_init env p nn st1) (unmap_in env inb)
        | None \<Rightarrow> and_then (unmap_in env inb st) (next_namespace env nn n))"

text \<open>The serial number: twenty characters, up to the first space.\<close>

definition serial_number :: "bytes \<Rightarrow> string" where
  "serial_number ic =
     takeWhile (\<lambda>c. c \<noteq> CHR '' '') (map (\<lambda>i. char_of (unat (ic (cns_ic_off Sn + i)))) [0..<20])"

definition ctl_identified :: "step_env \<Rightarrow> u16 \<Rightarrow> inout_buffer \<Rightarrow> 'io driver \<Rightarrow> 'io step_result" where
  "ctl_identified env status ic st =
     (if status \<noteq> 0 then Inr ([Ev_done], st)
      else
        let data = se_data env ic;
            nn = rd32 data (cns_ic_off Nn);
            st1 = st\<lparr>dr_ctl := (dr_ctl st)\<lparr>ctl_sn := serial_number data, ctl_mdts := data (cns_ic_off Mdts),
              ctl_sgls := (rd32 data (cns_ic_off Sgls) AND 0x3 \<noteq> 0)\<rparr>\<rparr>
        in and_then (unmap_in env ic st1) (identify_namespace env nn 1))"

fun run_admin_cb :: "step_env \<Rightarrow> u16 \<Rightarrow> admin_cb \<Rightarrow> 'io driver \<Rightarrow> 'io step_result" where
  "run_admin_cb env status (Cb_identify ic) st = ctl_identified env status ic st"
| "run_admin_cb env status (Cb_identify_ns nn n inb) st = ns_identified env status nn n inb st"
| "run_admin_cb env status (Cb_iocq p nsids) st = iocq_created env status p nsids st"
| "run_admin_cb env status (Cb_iosq p nsids) st = iosq_created env status p nsids st"

text \<open>
  A callback object owns its buffer: what is still mapped (after a failed command) is unmapped when
  the object is destroyed at the end of \<^verbatim>\<open>Submission_queue::complete\<close>.
\<close>

definition release_cb :: "step_env \<Rightarrow> u16 \<Rightarrow> admin_cb \<Rightarrow> 'io driver \<Rightarrow> 'io step_result" where
  "release_cb env status cb st =
     (case cb of
        Cb_identify b \<Rightarrow>
          if status \<noteq> 0
          then bind_res (inout_buffer_destroy (se_unmap env) b) (\<lambda>rs. Inr (map Ev_unmap rs, st))
          else Inr ([], st)
      | Cb_identify_ns _ _ b \<Rightarrow>
          if status \<noteq> 0
          then bind_res (inout_buffer_destroy (se_unmap env) b) (\<lambda>rs. Inr (map Ev_unmap rs, st))
          else Inr ([], st)
      | _ \<Rightarrow> Inr ([], st))"

section \<open>The interrupt handler\<close>

text \<open>The completion ring is memory that the controller writes to at any time.\<close>

definition see_ring :: "step_env \<Rightarrow> 'io driver \<Rightarrow> 'io driver" where
  "see_ring env st =
     st\<lparr>dr_ctl := (dr_ctl st)\<lparr>ctl_acq := (ctl_acq (dr_ctl st))
       \<lparr>cq_entries := se_post env (cq_entries (ctl_acq (dr_ctl st)))\<rparr>\<rparr>\<rparr>"

text \<open>One round of the loop over the admin completion queue; \<open>None\<close> where it ends.\<close>

definition acq_round ::
  "step_env \<Rightarrow> 'io driver \<Rightarrow> (drv_event list \<times> 'io driver) option drv_result" where
  "acq_round env st =
     (case cq_consume (ctl_acq (dr_ctl st)) of
        (None, _) \<Rightarrow> Inr None
      | (Some c, acq) \<Rightarrow>
          if cqe_sqid c \<noteq> Aq_id then Inl Assert_failed
          else
            bind_res (sq_complete c (ctl_asq (dr_ctl st))) (\<lambda>(cb, status, asq).
            bind_res (and_then
                (run_admin_cb env status cb
                  (st\<lparr>dr_ctl := (dr_ctl st)\<lparr>ctl_acq := acq, ctl_asq := asq\<rparr>\<rparr>))
                (release_cb env status cb)) (\<lambda>(evs, st1).
              Inr (Some (evs @ [Ev_doorbell (cq_complete (ctl_acq (dr_ctl st1)))], st1)))))"

partial_function (option) acq_loop ::
  "(nat \<Rightarrow> step_env) \<Rightarrow> nat \<Rightarrow> drv_event list \<Rightarrow> 'io driver \<Rightarrow> 'io step_result option" where
  "acq_loop envs k evs st =
     (let st0 = see_ring (envs k) st in
      case acq_round (envs k) st0 of
        Inl e \<Rightarrow> Some (Inl e)
      | Inr None \<Rightarrow> Some (Inr (evs, st0))
      | Inr (Some (evs1, st1)) \<Rightarrow> acq_loop envs (Suc k) (evs @ evs1) st1)"

text \<open>Then every namespace of the list; the result is what each handler did.\<close>

fun nss_handle_irq ::
  "('io \<Rightarrow> u16 \<Rightarrow> 'io namespace \<Rightarrow> 'io namespace) \<Rightarrow> ns_ptr list \<Rightarrow> (ns_ptr \<rightharpoonup> 'io namespace) \<Rightarrow>
   ((ns_ptr \<times> 'io ns_irq_event list) list \<times> (ns_ptr \<rightharpoonup> 'io namespace)) drv_result" where
  "nss_handle_irq run [] h = Inr ([], h)"
| "nss_handle_irq run (p # ps) h =
     (case h p of None \<Rightarrow> Inl Null_deref
      | Some ns \<Rightarrow>
        bind_res (ns_handle_irq run ns) (\<lambda>(evs, ns1).
        bind_res (nss_handle_irq run ps (h(p \<mapsto> ns1))) (\<lambda>(rest, h1). Inr ((p, evs) # rest, h1))))"

text \<open>The last component says whether the interrupt was unmasked, as level-triggered ones must be.\<close>

definition ctl_handle_irq ::
  "(nat \<Rightarrow> step_env) \<Rightarrow> ('io \<Rightarrow> u16 \<Rightarrow> 'io namespace \<Rightarrow> 'io namespace) \<Rightarrow> 'io driver \<Rightarrow>
   (drv_event list \<times> (ns_ptr \<times> 'io ns_irq_event list) list \<times> bool \<times> 'io driver) drv_result" where
  "ctl_handle_irq envs run st =
     bind_res (case acq_loop envs 0 [] st of None \<Rightarrow> Inl Hang | Some r \<Rightarrow> r) (\<lambda>(evs, st1).
     bind_res (nss_handle_irq run (dr_nss st1) (dr_heap st1)) (\<lambda>(ios, h).
       Inr (evs, ios, ctl_irq_trigger (dr_ctl st1) = 0, st1\<lparr>dr_heap := h\<rparr>)))"

end
