(* ===== verification/Queue_Pair.thy ===== *)
theory Queue_Pair
  imports Queue_Laws Completion_Ring
begin

text \<open>
  A submission and completion queue of \<^verbatim>\<open>queue.h\<close> together with a controller. The driver's steps
  are the operations of the code, the controller's steps are what the NVMe specification allows a
  controller to do with the queues: fetch entries up to the tail doorbell, execute commands in any
  order, and post one completion per command as long as the completion queue has room behind the
  head doorbell. Interleavings are arbitrary.
\<close>

section \<open>States and steps\<close>

text \<open>
  The fields \<open>s_\<dots>\<close> are the driver's queues and the doorbell registers, \<open>d_\<dots>\<close> the controller.
  The fields \<open>h_\<dots>\<close> and \<open>a_\<dots>\<close> only record history: the commands issued with their callbacks,
  the commands answered with their status, the callbacks invoked; the completion entries posted,
  how many of them were fetched at the time of each posting, how many were consumed, announced and
  acknowledged, and the command last issued under each identifier.
\<close>

record 'cb qpair =
  s_sq :: "'cb submission_queue"
  s_cq :: completion_queue
  s_sqdb :: u16
  s_cqdb :: u16
  d_sqhead :: u16
  d_exec :: "sqe list"
  d_cqtail :: u16
  d_phase :: bool
  h_issued :: "(sqe \<times> 'cb) list"
  h_answered :: "(sqe \<times> u16) list"
  h_invoked :: "('cb \<times> u16) list"
  a_posted :: "cqe list"
  a_fetches :: "nat list"
  a_fetched :: nat
  a_head :: nat
  a_consumed :: nat
  a_rung :: nat
  a_cmd :: "u16 \<Rightarrow> sqe"

definition cqe_make :: "u16 \<Rightarrow> u16 \<Rightarrow> u16 \<Rightarrow> bool \<Rightarrow> u16 \<Rightarrow> cqe" where
  "cqe_make sqhd sqid cid p sf =
     \<lparr>cqe_dw0 = 0, cqe_dw1 = 0, cqe_dw2 = bf_set 16 31 sqid (bf_set 0 15 sqhd 0),
      cqe_dw3 = bf_set 17 31 sf (bf_set 16 16 (if p then 1 else 0 :: u8) (bf_set 0 15 cid 0))\<rparr>"

lemma cqe_make_fields [simp]:
  "cqe_sqhd (cqe_make sqhd sqid cid p sf) = sqhd"
  "cqe_sqid (cqe_make sqhd sqid cid p sf) = sqid"
  "cqe_cid (cqe_make sqhd sqid cid p sf) = cid"
  "cqe_p (cqe_make sqhd sqid cid p sf) = p"
  "bf_fits 17 31 sf \<Longrightarrow> cqe_sf (cqe_make sqhd sqid cid p sf) = sf"
  by (simp_all add: cqe_make_def cqe_fields bf_get_set bf_fits_def)

inductive qp_step :: "'cb qpair \<Rightarrow> 'cb qpair \<Rightarrow> bool" where
  issue: "sq_issue fill cb (s_sq s) = Some q \<Longrightarrow> keeps_cid fill \<Longrightarrow>
    e = sq_entries q ! unat (sq_tail (s_sq s)) \<Longrightarrow>
    qp_step s (s\<lparr>s_sq := q, s_sqdb := ucast (snd (sq_submit q)),
      h_issued := h_issued s @ [(e, cb)], a_cmd := (a_cmd s)(sqe_cid e := e)\<rparr>)"
| fetch: "d_sqhead s \<noteq> s_sqdb s \<Longrightarrow>
    qp_step s (s\<lparr>d_exec := d_exec s @ [sq_entries (s_sq s) ! unat (d_sqhead s)],
      d_sqhead := wrap_around (q_size (s_sq s)) (d_sqhead s + 1), a_fetched := Suc (a_fetched s)\<rparr>)"
| post: "i < length (d_exec s) \<Longrightarrow> bf_fits 17 31 st \<Longrightarrow>
    wrap_around (q_size (s_cq s)) (d_cqtail s + 1) \<noteq> s_cqdb s \<Longrightarrow>
    e = d_exec s ! i \<Longrightarrow>
    c = cqe_make (d_sqhead s) (ucast (q_y (s_sq s))) (sqe_cid e) (d_phase s) st \<Longrightarrow>
    t = wrap_around (q_size (s_cq s)) (d_cqtail s + 1) \<Longrightarrow>
    qp_step s (s\<lparr>s_cq := cq_write (unat (d_cqtail s)) c (s_cq s),
      d_exec := take i (d_exec s) @ drop (Suc i) (d_exec s),
      d_cqtail := t, d_phase := (if t = 0 then \<not> d_phase s else d_phase s),
      h_answered := h_answered s @ [(e, st)], a_posted := a_posted s @ [c],
      a_fetches := a_fetches s @ [a_fetched s]\<rparr>)"
| take: "cq_consume (s_cq s) = (Some c, cq) \<Longrightarrow>
    sq_complete c (s_sq s) = Inr (cb, st, sq) \<Longrightarrow>
    qp_step s (s\<lparr>s_cq := cq, s_sq := sq, h_invoked := h_invoked s @ [(cb, st)],
      a_head := a_fetches s ! a_consumed s, a_consumed := Suc (a_consumed s)\<rparr>)"
| ring: "qp_step s (s\<lparr>s_cqdb := ucast (snd (cq_complete (s_cq s))), a_rung := a_consumed s\<rparr>)"

inductive_cases qp_stepE: "qp_step s t"

text \<open>The initial state: two new queues, doorbells and controller at zero, no history.\<close>

definition qp_start :: "'cb submission_queue \<Rightarrow> completion_queue \<Rightarrow> 'cb qpair" where
  "qp_start sq cq =
     \<lparr>s_sq = sq, s_cq = cq, s_sqdb = 0, s_cqdb = 0, d_sqhead = 0, d_exec = [], d_cqtail = 0,
      d_phase = True, h_issued = [], h_answered = [], h_invoked = [], a_posted = [],
      a_fetches = [], a_fetched = 0, a_head = 0, a_consumed = 0, a_rung = 0,
      a_cmd = (\<lambda>_. undefined)\<rparr>"

inductive qp_reachable :: "'cb qpair \<Rightarrow> bool" where
  start: "submission_queue_new mem1 ans1 ans2 sz1 y dstrd sgls = Inr sq \<Longrightarrow> sz1 \<noteq> 0 \<Longrightarrow>
    completion_queue_new mem2 ans3 sz2 y dstrd = Inr cq \<Longrightarrow> sz2 \<noteq> 0 \<Longrightarrow>
    qp_reachable (qp_start sq cq)"
| step: "qp_reachable s \<Longrightarrow> qp_step s t \<Longrightarrow> qp_reachable t"

section \<open>The invariant\<close>

text \<open>The completion side: the ring tracks the posted entries, the controller never overruns it.\<close>

definition inv_cq :: "'cb qpair \<Rightarrow> bool" where
  "inv_cq s \<longleftrightarrow>
     (let n = unat (q_size (s_cq s)); len = length (a_posted s) in
      cq_tracks (s_cq s) (a_posted s) (a_consumed s) \<and>
      unat (d_cqtail s) = len mod n \<and> d_phase s = lap_phase n len \<and>
      unat (s_cqdb s) = a_rung s mod n \<and> a_rung s \<le> a_consumed s \<and> len < a_rung s + n)"

text \<open>
  The submission side: positions as running counts. Unfetched slots hold the commands issued; the
  head positions reported in posted entries are behind the fetch count, in order.
\<close>

definition inv_sq :: "'cb qpair \<Rightarrow> bool" where
  "inv_sq s \<longleftrightarrow>
     (let n = unat (q_size (s_sq s)); issued = length (h_issued s) in
      sq_inv (s_sq s) \<and> unat (sq_tail (s_sq s)) = issued mod n \<and> s_sqdb s = sq_tail (s_sq s) \<and>
      unat (d_sqhead s) = a_fetched s mod n \<and> a_fetched s \<le> issued \<and>
      unat (q_head (s_sq s)) = a_head s mod n \<and> a_head s \<le> a_fetched s \<and>
      issued < a_head s + n \<and>
      (\<forall>k. a_fetched s \<le> k \<and> k < issued \<longrightarrow>
         sq_entries (s_sq s) ! (k mod n) = fst (h_issued s ! k)))"

definition inv_fetches :: "'cb qpair \<Rightarrow> bool" where
  "inv_fetches s \<longleftrightarrow>
     length (a_fetches s) = length (a_posted s) \<and>
     (\<forall>k. a_consumed s \<le> k \<and> k < length (a_posted s) \<longrightarrow>
        a_head s \<le> a_fetches s ! k \<and> a_fetches s ! k \<le> a_fetched s \<and>
        unat (cqe_sqhd (a_posted s ! k)) = a_fetches s ! k mod unat (q_size (s_sq s)) \<and>
        cqe_sqid (a_posted s ! k) = ucast (q_y (s_sq s))) \<and>
     (\<forall>j k. a_consumed s \<le> j \<and> j \<le> k \<and> k < length (a_posted s) \<longrightarrow>
        a_fetches s ! j \<le> a_fetches s ! k)"

text \<open>
  Every outstanding identifier is in exactly one place: waiting in the submission ring, being
  executed, or in a posted entry not yet consumed.
\<close>

definition cids :: "'cb qpair \<Rightarrow> u16 multiset" where
  "cids s = mset (map (sqe_cid \<circ> fst) (drop (a_fetched s) (h_issued s)))
     + mset (map sqe_cid (d_exec s)) + mset (map cqe_cid (drop (a_consumed s) (a_posted s)))"

definition inv_cids :: "'cb qpair \<Rightarrow> bool" where
  "inv_cids s \<longleftrightarrow> cids s = mset_set (dom (pending (s_sq s)))"

text \<open>The command behind an identifier is the same in all these places.\<close>

definition inv_cmd :: "'cb qpair \<Rightarrow> bool" where
  "inv_cmd s \<longleftrightarrow>
     (\<forall>cid cb. pending (s_sq s) cid = Some cb \<longrightarrow> (a_cmd s cid, cb) \<in> set (h_issued s)) \<and>
     (\<forall>e \<in> set (map fst (drop (a_fetched s) (h_issued s)) @ d_exec s). a_cmd s (sqe_cid e) = e) \<and>
     length (h_answered s) = length (a_posted s) \<and>
     (\<forall>k. a_consumed s \<le> k \<and> k < length (a_posted s) \<longrightarrow>
        h_answered s ! k = (a_cmd s (cqe_cid (a_posted s ! k)), cqe_sf (a_posted s ! k)))"

definition inv_hist :: "'cb qpair \<Rightarrow> bool" where
  "inv_hist s \<longleftrightarrow>
     length (h_invoked s) = a_consumed s \<and>
     (\<forall>k < a_consumed s. \<exists>e. h_answered s ! k = (e, snd (h_invoked s ! k)) \<and>
        (e, fst (h_invoked s ! k)) \<in> set (h_issued s)) \<and>
     mset (map snd (h_issued s)) =
       mset (map fst (h_invoked s)) + map_values (pending (s_sq s))"

definition qp_inv :: "'cb qpair \<Rightarrow> bool" where
  "qp_inv s \<longleftrightarrow> inv_cq s \<and> inv_sq s \<and> inv_fetches s \<and> inv_cids s \<and> inv_cmd s \<and> inv_hist s"

lemmas qp_invs = inv_cq_def inv_sq_def inv_fetches_def inv_cids_def inv_cmd_def inv_hist_def Let_def

lemma qp_inv_start:
  assumes "submission_queue_new mem1 ans1 ans2 sz1 y dstrd sgls = Inr sq" and "sz1 \<noteq> 0"
    and "completion_queue_new mem2 ans3 sz2 y dstrd = Inr cq" and "sz2 \<noteq> 0"
  shows "qp_inv (qp_start sq cq)"
proof -
  note sq = submission_queue_new_inv [OF assms(1,2)] submission_queue_new_fields [OF assms(1)]
  note cq = completion_queue_new_tracks [OF assms(3,4)] completion_queue_new_fields [OF assms(3)]
  from assms(2,4) have "0 < unat sz1" "0 < unat sz2" by (simp_all add: unat_gt_0)
  with sq cq show ?thesis
    by (simp add: qp_inv_def qp_invs qp_start_def cids_def lap_phase_def)
qed

section \<open>Every step keeps the invariant\<close>

lemma ucast_doorbell [simp]: "ucast (ucast (w :: u16) :: u32) = w"
  by (intro bit_word_eqI) (auto simp: bit_simps)

lemma cids_outstanding:
  assumes "inv_cids s"
  shows "e \<in> set (map fst (drop (a_fetched s) (h_issued s)) @ d_exec s) \<Longrightarrow>
      sqe_cid e \<in> dom (pending (s_sq s))"
    and "a_consumed s \<le> k \<Longrightarrow> k < length (a_posted s) \<Longrightarrow>
      cqe_cid (a_posted s ! k) \<in> dom (pending (s_sq s))"
proof -
  have dom: "dom (pending (s_sq s)) = set_mset (cids s)"
    using assms by (simp add: inv_cids_def)
  show "sqe_cid e \<in> dom (pending (s_sq s))"
    if "e \<in> set (map fst (drop (a_fetched s) (h_issued s)) @ d_exec s)"
    using that unfolding dom by (auto simp: cids_def image_iff intro: bexI [rotated])
  show "cqe_cid (a_posted s ! k) \<in> dom (pending (s_sq s))"
    if "a_consumed s \<le> k" "k < length (a_posted s)"
  proof -
    have "a_posted s ! k \<in> set (drop (a_consumed s) (a_posted s))"
      using that nth_mem [of "k - a_consumed s" "drop (a_consumed s) (a_posted s)"] by simp
    then show ?thesis unfolding dom by (simp add: cids_def)
  qed
qed

text \<open>Entering a command in the submission queue, and ringing its doorbell.\<close>

definition qp_issue :: "sqe \<Rightarrow> 'cb \<Rightarrow> 'cb submission_queue \<Rightarrow> 'cb qpair \<Rightarrow> 'cb qpair" where
  "qp_issue e cb q s = s\<lparr>s_sq := q, s_sqdb := ucast (snd (sq_submit q)),
     h_issued := h_issued s @ [(e, cb)], a_cmd := (a_cmd s)(sqe_cid e := e)\<rparr>"

lemma qp_issue_simps [simp]:
  "s_sq (qp_issue e cb q s) = q" "s_cq (qp_issue e cb q s) = s_cq s"
  "h_issued (qp_issue e cb q s) = h_issued s @ [(e, cb)]"
  "h_invoked (qp_issue e cb q s) = h_invoked s" "a_cmd (qp_issue e cb q s) = (a_cmd s)(sqe_cid e := e)"
  "a_posted (qp_issue e cb q s) = a_posted s" "a_consumed (qp_issue e cb q s) = a_consumed s"
  "h_answered (qp_issue e cb q s) = h_answered s"
  by (simp_all add: qp_issue_def)

lemma qp_inv_issued:
  assumes inv: "qp_inv s" and can: "sq_can_produce (s_sq s)" and iss: "issued cb cid e (s_sq s) q"
  shows "qp_inv (qp_issue e cb q s)" (is "qp_inv ?t")
proof -
  let ?n = "unat (q_size (s_sq s))" and ?si = "length (h_issued s)"
  have i: "inv_cq s" "inv_sq s" "inv_fetches s" "inv_cids s" "inv_cmd s" "inv_hist s"
    using inv by (simp_all add: qp_inv_def)
  have sq: "sq_inv (s_sq s)" using i(2) by (simp add: inv_sq_def Let_def)
  have sq': "sq_inv q" and new: "pending (s_sq s) (sqe_cid e) = None"
      "pending q = (pending (s_sq s))(sqe_cid e \<mapsto> cb)"
    and ent: "sq_entries q = (sq_entries (s_sq s))[unat (sq_tail (s_sq s)) := e]"
    and f: "sq_tail q = wrap_around (q_size (s_sq s)) (sq_tail (s_sq s) + 1)"
      "q_head q = q_head (s_sq s)" "q_size q = q_size (s_sq s)" "q_y q = q_y (s_sq s)"
    using iss by (simp_all add: issued_def)
  note D = sq_invD [OF sq]
  have tail: "unat (sq_tail q) = Suc ?si mod ?n"
    using i(2) D(4) by (simp add: f inv_sq_def Let_def wrap_around_Suc mod_Suc_eq)
  have room: "Suc ?si < a_head s + ?n"
  proof -
    have "a_head s mod ?n \<noteq> Suc ?si mod ?n"
      using can i(2) tail unfolding f(1)
      by (simp add: sq_can_produce_def is_full_def inv_sq_def Let_def)
        (metis unat_eq_iff)
    moreover have "Suc ?si \<le> a_head s + ?n" using i(2) by (simp add: inv_sq_def Let_def)
    ultimately show ?thesis by (cases "Suc ?si = a_head s + ?n") auto
  qed
  have "inv_sq ?t"
    using i(2) sq' tail room D(2)
    by (auto simp: qp_issue_def inv_sq_def Let_def f sq_submit_def ent nth_append less_Suc_eq
        mod_neq_in_window [THEN not_sym] split: if_splits)
  moreover have "inv_cids ?t"
    using i(2,4) new mset_set_dom_upd [of "pending (s_sq s)" "sqe_cid e" cb]
    by (simp add: qp_issue_def inv_cids_def cids_def inv_sq_def Let_def)
  moreover have "inv_cmd ?t"
  proof -
    have "sqe_cid d \<noteq> sqe_cid e"
      if "d \<in> set (map fst (drop (a_fetched s) (h_issued s)) @ d_exec s)" for d
      using cids_outstanding(1) [OF i(4) that] new(1) by auto
    moreover have "cqe_cid (a_posted s ! k) \<noteq> sqe_cid e"
      if "a_consumed s \<le> k" "k < length (a_posted s)" for k
      using cids_outstanding(2) [OF i(4) that] new(1) by auto
    ultimately show ?thesis
      using i(2,5) new by (auto simp: qp_issue_def inv_cmd_def inv_sq_def Let_def split: if_splits)
  qed
  moreover have "inv_hist ?t"
    using i(6) new map_values_upd [of "pending (s_sq s)" "sqe_cid e" cb]
    by (auto simp: qp_issue_def inv_hist_def)
  moreover have "inv_cq ?t" "inv_fetches ?t"
    using i(1,3) by (simp_all add: qp_issue_def inv_cq_def inv_fetches_def f Let_def)
  ultimately show ?thesis by (simp add: qp_inv_def)
qed

lemma qp_inv_issue:
  assumes inv: "qp_inv s" and iss: "sq_issue fill cb (s_sq s) = Some q" and keep: "keeps_cid fill"
    and e: "e = sq_entries q ! unat (sq_tail (s_sq s))"
  shows "qp_inv (s\<lparr>s_sq := q, s_sqdb := ucast (snd (sq_submit q)),
      h_issued := h_issued s @ [(e, cb)], a_cmd := (a_cmd s)(sqe_cid e := e)\<rparr>)"
proof -
  have sq: "sq_inv (s_sq s)" using inv by (simp add: qp_inv_def inv_sq_def Let_def)
  obtain e' where e': "sq_can_produce (s_sq s)" "issued cb (sqe_cid e') e' (s_sq s) q"
    by (rule sq_issue_issued [OF sq iss keep])
  have "e' = e" using issued_entry [OF e'(2) sq] e by simp
  with qp_inv_issued [OF inv e'] show ?thesis by (simp add: qp_issue_def)
qed

lemma qp_inv_fetch:
  assumes inv: "qp_inv s" and "d_sqhead s \<noteq> s_sqdb s"
  shows "qp_inv (s\<lparr>d_exec := d_exec s @ [sq_entries (s_sq s) ! unat (d_sqhead s)],
      d_sqhead := wrap_around (q_size (s_sq s)) (d_sqhead s + 1),
      a_fetched := Suc (a_fetched s)\<rparr>)" (is "qp_inv ?t")
proof -
  let ?n = "unat (q_size (s_sq s))" and ?sf = "a_fetched s" and ?si = "length (h_issued s)"
  have i: "inv_cq s" "inv_sq s" "inv_fetches s" "inv_cids s" "inv_cmd s" "inv_hist s"
    using inv by (simp_all add: qp_inv_def)
  note D = i(2) [unfolded inv_sq_def Let_def]
  have lt: "?sf < ?si"
    using D assms(2) by (metis le_neq_implies_less unat_eq_iff)
  then have e: "sq_entries (s_sq s) ! unat (d_sqhead s) = fst (h_issued s ! ?sf)"
    using D by simp
  have split: "drop ?sf (h_issued s) = h_issued s ! ?sf # drop (Suc ?sf) (h_issued s)"
    using lt by (simp add: Cons_nth_drop_Suc)
  have "inv_sq ?t"
    using D lt sq_invD(1) [of "s_sq s"] by (simp add: inv_sq_def Let_def wrap_around_Suc mod_Suc_eq)
  moreover have "inv_cids ?t"
    using i(4) by (simp add: inv_cids_def cids_def e split ac_simps)
  moreover have "inv_cmd ?t"
    using i(5) by (auto simp: inv_cmd_def e split)
  moreover have "inv_cq ?t" "inv_hist ?t"
    using i by (simp_all add: qp_invs)
  moreover have "inv_fetches ?t"
    using i(3) by (auto simp: inv_fetches_def intro: le_SucI)
  ultimately show ?thesis by (simp add: qp_inv_def)
qed

lemma qp_inv_ring:
  assumes inv: "qp_inv s"
  shows "qp_inv (s\<lparr>s_cqdb := ucast (snd (cq_complete (s_cq s))), a_rung := a_consumed s\<rparr>)"
proof -
  have "inv_cq s" using inv by (simp add: qp_inv_def)
  then have "inv_cq (s\<lparr>s_cqdb := ucast (snd (cq_complete (s_cq s))), a_rung := a_consumed s\<rparr>)"
    using cq_tracksD(3) [of "s_cq s" "a_posted s" "a_consumed s"]
    by (simp add: inv_cq_def Let_def cq_complete_def)
  with inv show ?thesis
    by (simp add: qp_inv_def inv_sq_def inv_fetches_def inv_cids_def inv_cmd_def inv_hist_def
        cids_def Let_def)
qed

lemma wrap_around_neq_room:
  assumes "unat i = len mod unat n" and "unat d = r mod unat n" and "len < r + unat n"
    and "0 < unat n" and "wrap_around n (i + 1) \<noteq> d"
  shows "Suc len < r + unat n" and "unat (wrap_around n (i + 1)) = Suc len mod unat n"
proof -
  show w: "unat (wrap_around n (i + 1)) = Suc len mod unat n"
    using assms(1,4) by (simp add: wrap_around_Suc mod_Suc_eq)
  show "Suc len < r + unat n"
  proof (rule ccontr)
    assume "\<not> Suc len < r + unat n"
    with assms(3) have "Suc len = r + unat n" by simp
    then have "unat (wrap_around n (i + 1)) = unat d" using w assms(2) by simp
    with assms(5) show False by (simp add: unat_eq_iff)
  qed
qed

lemma take_drop_nth_mset:
  "i < length xs \<Longrightarrow> mset (map f xs) = add_mset (f (xs ! i)) (mset (map f (take i xs @ drop (Suc i) xs)))"
  by (subst id_take_nth_drop [of i xs]) simp_all

lemma qp_inv_post:
  assumes inv: "qp_inv s" and ix: "i < length (d_exec s)" and st: "bf_fits 17 31 st"
    and room: "wrap_around (q_size (s_cq s)) (d_cqtail s + 1) \<noteq> s_cqdb s"
    and e: "e = d_exec s ! i"
    and c: "c = cqe_make (d_sqhead s) (ucast (q_y (s_sq s))) (sqe_cid e) (d_phase s) st"
    and t: "t = wrap_around (q_size (s_cq s)) (d_cqtail s + 1)"
  shows "qp_inv (s\<lparr>s_cq := cq_write (unat (d_cqtail s)) c (s_cq s),
      d_exec := take i (d_exec s) @ drop (Suc i) (d_exec s),
      d_cqtail := t, d_phase := (if t = 0 then \<not> d_phase s else d_phase s),
      h_answered := h_answered s @ [(e, st)], a_posted := a_posted s @ [c],
      a_fetches := a_fetches s @ [a_fetched s]\<rparr>)" (is "qp_inv ?t")
proof -
  let ?n = "unat (q_size (s_cq s))" and ?len = "length (a_posted s)"
  have i: "inv_cq s" "inv_sq s" "inv_fetches s" "inv_cids s" "inv_cmd s" "inv_hist s"
    using inv by (simp_all add: qp_inv_def)
  note C = i(1) [unfolded inv_cq_def Let_def]
  note T = C [THEN conjunct1]
  have n: "0 < ?n" by (rule cq_tracksD(1) [OF T])
  note w = wrap_around_neq_room [of "d_cqtail s" ?len "q_size (s_cq s)" "s_cqdb s" "a_rung s",
      OF _ _ _ n room, folded t]
  have t': "unat t = Suc ?len mod ?n" and lt: "Suc ?len < a_rung s + ?n"
    using w C by auto
  have tz: "t = 0 \<longleftrightarrow> Suc ?len mod ?n = 0"
    using t' by (metis unat_eq_0)
  have "cq_tracks (cq_write (unat (d_cqtail s)) c (s_cq s)) (a_posted s @ [c]) (a_consumed s)"
    using C cq_write_tracks [OF T, of c] by (simp add: c)
  with C lt t' tz n have "inv_cq ?t"
    by (simp add: inv_cq_def Let_def cq_write_def lap_phase_Suc)
  moreover have "inv_sq ?t" using i(2) by (simp add: inv_sq_def Let_def)
  moreover have "inv_fetches ?t"
  proof -
    have "unat (d_sqhead s) = a_fetched s mod unat (q_size (s_sq s))" "a_head s \<le> a_fetched s"
      using i(2) by (simp_all add: inv_sq_def Let_def)
    with i(3) show ?thesis
      by (auto simp: inv_fetches_def nth_append less_Suc_eq c)
  qed
  moreover have "inv_cids ?t"
    using i(4) C cq_tracksD(5) [OF T] take_drop_nth_mset [OF ix, of sqe_cid]
    by (simp add: inv_cids_def cids_def c e)
  moreover have "inv_cmd ?t"
  proof -
    have "d_exec s ! i \<in> set (d_exec s)" using ix by simp
    moreover have "set (take i (d_exec s) @ drop (Suc i) (d_exec s)) \<subseteq> set (d_exec s)"
      using set_take_subset set_drop_subset by fastforce
    ultimately show ?thesis
      using i(5) st by (auto simp: inv_cmd_def nth_append less_Suc_eq c e)
  qed
  moreover have "inv_hist ?t"
    using i(5,6) cq_tracksD(5) [OF T] by (auto simp: inv_hist_def inv_cmd_def nth_append)
  ultimately show ?thesis by (simp add: qp_inv_def)
qed

text \<open>What the driver finds when it consumes: the oldest posted entry, for an outstanding command.\<close>

lemma consume_effect:
  assumes inv: "qp_inv s" and cons: "cq_consume (s_cq s) = (Some c, cq)"
  shows "a_consumed s < length (a_posted s)" and "c = a_posted s ! a_consumed s"
    and "cq_tracks cq (a_posted s) (Suc (a_consumed s))" and "q_size cq = q_size (s_cq s)"
    and "completes (s_sq s) c" and "cqe_sqid c = ucast (q_y (s_sq s))"
proof -
  have i: "inv_cq s" "inv_sq s" "inv_fetches s" "inv_cids s"
    using inv by (simp_all add: qp_inv_def)
  then have T: "cq_tracks (s_cq s) (a_posted s) (a_consumed s)"
    by (simp add: inv_cq_def Let_def)
  show lt: "a_consumed s < length (a_posted s)"
    using cq_consume_empty [OF T] cq_tracksD(5) [OF T] cons by (cases rule: le_neq_trans) auto
  obtain q' where q': "cq_consume (s_cq s) = (Some (a_posted s ! a_consumed s), q')"
    "cq_tracks q' (a_posted s) (Suc (a_consumed s))" "q_size q' = q_size (s_cq s)"
    by (rule cq_consume_next [OF T lt])
  with cons show c: "c = a_posted s ! a_consumed s"
    and "cq_tracks cq (a_posted s) (Suc (a_consumed s))" and "q_size cq = q_size (s_cq s)"
    by simp_all
  have "0 < unat (q_size (s_sq s))"
    using i(2) sq_invD(1) by (auto simp: inv_sq_def Let_def)
  then show "completes (s_sq s) c"
    using i(3) lt cids_outstanding(2) [OF i(4) order_refl lt]
    by (simp add: completes_def c inv_fetches_def)
  show "cqe_sqid c = ucast (q_y (s_sq s))"
    using i(3) lt by (simp add: c inv_fetches_def)
qed

lemma qp_inv_take:
  assumes inv: "qp_inv s" and cons: "cq_consume (s_cq s) = (Some c, cq)"
    and compl: "sq_complete c (s_sq s) = Inr (cb, st, sq)"
  shows "qp_inv (s\<lparr>s_cq := cq, s_sq := sq, h_invoked := h_invoked s @ [(cb, st)],
      a_head := a_fetches s ! a_consumed s, a_consumed := Suc (a_consumed s)\<rparr>)" (is "qp_inv ?t")
proof -
  let ?m = "a_consumed s"
  have i: "inv_cq s" "inv_sq s" "inv_fetches s" "inv_cids s" "inv_cmd s" "inv_hist s"
    using inv by (simp_all add: qp_inv_def)
  note ce = consume_effect [OF inv cons]
  have S: "sq_inv (s_sq s)" using i(2) by (simp add: inv_sq_def Let_def)
  obtain cb' where cb': "pending (s_sq s) (cqe_cid c) = Some cb'"
    using ce(5) by (auto simp: completes_def)
  then have sq: "cb = cb'" "st = cqe_sf c" "sq = sq_completed c (s_sq s)"
    using sq_complete_ok [OF S cb'] compl by simp_all
  note sc = sq_completed_inv [OF S ce(5)]
  have f: "q_size sq = q_size (s_sq s)" "q_y sq = q_y (s_sq s)" "sq_tail sq = sq_tail (s_sq s)"
    "sq_entries sq = sq_entries (s_sq s)" "q_head sq = cqe_sqhd c"
    by (simp_all add: sq sq_completed_def)
  have fm: "a_head s \<le> a_fetches s ! ?m" "a_fetches s ! ?m \<le> a_fetched s"
    "unat (cqe_sqhd c) = a_fetches s ! ?m mod unat (q_size (s_sq s))"
    using i(3) ce(1) by (simp_all add: inv_fetches_def ce(2))
  have split: "drop ?m (a_posted s) = c # drop (Suc ?m) (a_posted s)"
    using ce(1,2) by (simp add: Cons_nth_drop_Suc)
  have "inv_cq ?t"
    using i(1) ce(3,4) by (simp add: inv_cq_def Let_def)
  moreover have "inv_sq ?t"
    using i(2) fm sc(1) [folded sq(3)] by (simp add: inv_sq_def Let_def f)
  moreover have "inv_fetches ?t"
    using i(3) by (simp add: inv_fetches_def f)
  moreover have "inv_cids ?t"
    using i(4) mset_set_dom_clear [of "pending (s_sq s)" "cqe_cid c", OF cb']
    by (simp add: inv_cids_def cids_def split sc(2) sq(3))
  moreover have "inv_cmd ?t"
    using i(5) by (auto simp: inv_cmd_def sc(2) sq(3) split: if_splits)
  moreover have "inv_hist ?t"
  proof -
    have "h_answered s ! ?m = (a_cmd s (cqe_cid c), cqe_sf c)"
      using i(5) ce(1) by (simp add: inv_cmd_def ce(2))
    moreover have "(a_cmd s (cqe_cid c), cb') \<in> set (h_issued s)"
      using i(5) cb' by (simp add: inv_cmd_def)
    moreover have "map_values (pending (s_sq s)) = add_mset cb' (map_values (pending sq))"
      using map_values_clear [of "pending (s_sq s)" "cqe_cid c", OF cb'] by (simp add: sc(2) sq(3))
    ultimately show ?thesis
      using i(6) by (auto simp: inv_hist_def nth_append less_Suc_eq sq(1,2))
  qed
  ultimately show ?thesis by (simp add: qp_inv_def)
qed

lemma qp_step_inv: "qp_step s t \<Longrightarrow> qp_inv s \<Longrightarrow> qp_inv t"
proof (induction rule: qp_step.induct)
  case (issue fill cb s q e)
  then show ?case by (intro qp_inv_issue)
next
  case (fetch s)
  then show ?case by (intro qp_inv_fetch)
next
  case (post i s st e c t)
  then show ?case by (intro qp_inv_post)
next
  case (take s c cq cb st sq)
  then show ?case by (intro qp_inv_take)
next
  case (ring s)
  then show ?case by (rule qp_inv_ring)
qed

lemma qp_reachable_inv: "qp_reachable s \<Longrightarrow> qp_inv s"
proof (induction rule: qp_reachable.induct)
  case (start mem1 ans1 ans2 sz1 y dstrd sgls sq mem2 ans3 sz2 cq)
  then show ?case by (rule qp_inv_start)
next
  case (step s t)
  show ?case by (rule qp_step_inv [OF step.hyps(2) step.IH])
qed

section \<open>Properties of every reachable state\<close>

text \<open>
  C4: Whenever the driver's interrupt handler consumes a completion entry, the entry names an
  outstanding command of this queue: \<^verbatim>\<open>complete\<close> returns that command's callback, so neither of its
  assertions fails, the callback vector is indexed in range, and the handler's assertion on the
  submission queue identifier holds.
\<close>

theorem qp_completion_safe:
  assumes "qp_reachable s" and "cq_consume (s_cq s) = (Some c, cq)"
  shows "\<exists>cb q. sq_complete c (s_sq s) = Inr (cb, cqe_sf c, q) \<and>
    pending (s_sq s) (cqe_cid c) = Some cb \<and> pending q = (pending (s_sq s))(cqe_cid c := None) \<and>
    cqe_sqid c = ucast (q_y (s_sq s))"
proof -
  have inv: "qp_inv s" by (rule qp_reachable_inv [OF assms(1)])
  then have S: "sq_inv (s_sq s)" by (simp add: qp_inv_def inv_sq_def Let_def)
  note ce = consume_effect [OF inv assms(2)]
  then obtain cb where "pending (s_sq s) (cqe_cid c) = Some cb"
    by (auto simp: completes_def)
  with sq_complete_ok [OF S this] sq_completed_inv(2) [OF S ce(5)] ce(6) show ?thesis
    by simp
qed

text \<open>
  Every callback handed to the queue is accounted for: as a multiset, the callbacks issued are
  the callbacks invoked together with those still outstanding. In particular none is invoked
  twice and none is lost.
\<close>

lemma qp_callbacks_conserved:
  assumes "qp_reachable s"
  shows "mset (map snd (h_issued s)) =
    mset (map fst (h_invoked s)) + map_values (pending (s_sq s))"
  using qp_reachable_inv [OF assms] by (simp add: qp_inv_def inv_hist_def)

text \<open>
  C18: The \<open>k\<close>-th callback invoked belongs to the \<open>k\<close>-th command the controller answered: it was
  issued with exactly that command, and it is called with exactly the status the controller
  gave, in the order of the controller's completions.
\<close>

theorem qp_status_delivery:
  assumes "qp_reachable s" and "k < length (h_invoked s)"
  shows "\<exists>e. h_answered s ! k = (e, snd (h_invoked s ! k)) \<and>
    (e, fst (h_invoked s ! k)) \<in> set (h_issued s)"
  using qp_reachable_inv [OF assms(1)] assms(2) by (simp add: qp_inv_def inv_hist_def)

text \<open>
  C19: The controller fetches exactly the commands the driver submitted, in order: while a fetch is
  enabled, the entry under the controller's head is the next command issued and has not been
  overwritten by a later \<^verbatim>\<open>produce\<close>.
\<close>

theorem qp_fetch_in_order:
  assumes "qp_reachable s" and "d_sqhead s \<noteq> s_sqdb s"
  shows "a_fetched s < length (h_issued s) \<and>
    sq_entries (s_sq s) ! unat (d_sqhead s) = fst (h_issued s ! a_fetched s)"
proof -
  have D: "inv_sq s" using qp_reachable_inv [OF assms(1)] by (simp add: qp_inv_def)
  then have "a_fetched s \<noteq> length (h_issued s)"
    using assms(2) unat_eq_iff by (fastforce simp: inv_sq_def Let_def)
  with D show ?thesis by (simp add: inv_sq_def Let_def)
qed

section \<open>A concrete run\<close>

text \<open>A queue pair of two entries, one command issued, fetched and answered.\<close>

definition run_answers :: buffer_answers where
  "run_answers = \<lparr>ans_cap = Inr (), ans_alloc = Inr (), ans_attach = Inr 0x10000,
     ans_map = Inr (0x100000, 0x20000)\<rparr>"

definition run_sqe :: sqe where
  "run_sqe = \<lparr>sqe_cdw0 = 0, sqe_nsid = 0, sqe_res = 0, sqe_mptr = 0, sqe_prp1 = 0, sqe_prp2 = 0,
     sqe_cdw10 = 0, sqe_cdw11 = 0, sqe_cdw12 = 0, sqe_cdw13 = 0, sqe_cdw14 = 0, sqe_cdw15 = 0\<rparr>"

definition run_memory :: fresh_memory where
  "run_memory = \<lparr>fresh_sqe = (\<lambda>_. run_sqe), fresh_cqe = (\<lambda>_. \<lparr>cqe_dw0 = 0, cqe_dw1 = 0, cqe_dw2 = 0,
     cqe_dw3 = 0\<rparr>), fresh_sgl = (\<lambda>_. \<lparr>sgl_addr = 0, sgl_len = 0, sgl_res = 0, sgl_id = 0\<rparr>),
     fresh_prp = (\<lambda>_. 0)\<rparr>"

definition run_sq :: "nat submission_queue" where
  "run_sq = (case submission_queue_new run_memory run_answers run_answers 2 1 0 0 of Inr q \<Rightarrow> q)"

definition run_cq :: completion_queue where
  "run_cq = (case completion_queue_new run_memory run_answers 2 1 0 of Inr q \<Rightarrow> q)"

lemmas run_eval = run_sq_def run_cq_def run_answers_def run_memory_def run_sqe_def
  submission_queue_new_def completion_queue_new_def queue_new_def inout_buffer_new_def
  l4_round_page_def page_simps queue.defs submission_queue.defs completion_queue.defs
  sizeof_Sqe_def sizeof_Cqe_def Prp_list_pages_def upt_rec cqe_init_def mask_eq_exp_minus_1

lemma run_sq_eq: "submission_queue_new run_memory run_answers run_answers 2 1 0 0 = Inr run_sq"
  by (simp add: run_eval)

lemma run_cq_eq: "completion_queue_new run_memory run_answers 2 1 0 = Inr run_cq"
  by (simp add: run_eval)

lemmas run_op_eval = sq_issue_def sq_produce_def is_full_def wrap_around_def find_free.simps
  sq_modify_def sqe_init_def sqe_set_cid_def sqe_set_opc_def sqe_cid_def bf_set_def bf_get_def
  sq_submit_def tdbl_def mask_eq_exp_minus_1

definition run_q :: "nat submission_queue" where
  "run_q = (case sq_issue (sqe_set_opc 2) 7 run_sq of Some q \<Rightarrow> q)"

definition run_entry :: sqe where
  "run_entry = run_sqe\<lparr>sqe_cdw0 := 2\<rparr>"

lemma run_q_eq: "sq_issue (sqe_set_opc 2) 7 run_sq = Some run_q"
  and run_q_entry: "sq_entries run_q ! 0 = run_entry"
  and run_q_fields: "sq_tail run_q = 1" "q_size run_q = 2" "q_y run_q = 1"
  by (simp_all add: run_q_def run_entry_def run_eval run_op_eval)

lemma run_sq_fields: "sq_tail run_sq = 0" "q_size run_sq = 2" "q_size run_cq = 2"
  using submission_queue_new_fields [OF run_sq_eq] completion_queue_new_fields [OF run_cq_eq]
  by simp_all

definition run_issued :: "nat qpair" where
  "run_issued = (qp_start run_sq run_cq)\<lparr>s_sq := run_q, s_sqdb := 1,
     h_issued := [(run_entry, 7)], a_cmd := (a_cmd (qp_start run_sq run_cq))(0 := run_entry)\<rparr>"

definition run_fetched :: "nat qpair" where
  "run_fetched = run_issued\<lparr>d_exec := [run_entry], d_sqhead := 1, a_fetched := 1\<rparr>"

definition run_cqe :: cqe where
  "run_cqe = cqe_make 1 1 0 True 5"

definition run_posted :: "nat qpair" where
  "run_posted = run_fetched\<lparr>s_cq := cq_write 0 run_cqe run_cq, d_exec := [], d_cqtail := 1,
     h_answered := [(run_entry, 5)], a_posted := [run_cqe], a_fetches := [1]\<rparr>"

definition run_taken :: "nat qpair" where
  "run_taken = run_posted\<lparr>s_cq := snd (cq_consume (cq_write 0 run_cqe run_cq)),
     s_sq := sq_completed run_cqe run_q, h_invoked := [(7, 5)], a_head := 1, a_consumed := 1\<rparr>"

lemma run_entry_cid: "sqe_cid run_entry = 0"
  by (simp add: run_entry_def run_sqe_def sqe_cid_def bf_get_def)

lemma run_start_reachable: "qp_reachable (qp_start run_sq run_cq)"
  by (rule qp_reachable.start [OF run_sq_eq _ run_cq_eq]) simp_all

lemma run_issued_reachable: "qp_reachable run_issued"
proof (rule qp_reachable.step [OF run_start_reachable])
  have "qp_step (qp_start run_sq run_cq) ((qp_start run_sq run_cq)\<lparr>s_sq := run_q,
      s_sqdb := ucast (snd (sq_submit run_q)),
      h_issued := h_issued (qp_start run_sq run_cq) @ [(run_entry, 7)],
      a_cmd := (a_cmd (qp_start run_sq run_cq))(sqe_cid run_entry := run_entry)\<rparr>)"
  proof (rule qp_step.issue)
    show "sq_issue (sqe_set_opc 2) 7 (s_sq (qp_start run_sq run_cq)) = Some run_q"
      by (simp add: qp_start_def run_q_eq)
    show "keeps_cid (sqe_set_opc 2)"
      by (simp add: keeps_cid_def sqe_set_opc_def sqe_cid_def)
    show "run_entry = sq_entries run_q ! unat (sq_tail (s_sq (qp_start run_sq run_cq)))"
      by (simp add: qp_start_def run_sq_fields run_q_entry)
  qed
  then show "qp_step (qp_start run_sq run_cq) run_issued"
    by (simp add: run_issued_def run_entry_cid sq_submit_def run_q_fields qp_start_def)
qed

lemma run_fetched_reachable: "qp_reachable run_fetched"
proof (rule qp_reachable.step [OF run_issued_reachable])
  have "d_sqhead run_issued \<noteq> s_sqdb run_issued"
    by (simp add: run_issued_def qp_start_def)
  from qp_step.fetch [OF this] show "qp_step run_issued run_fetched"
    by (simp add: run_fetched_def run_issued_def qp_start_def run_q_entry run_q_fields
        wrap_around_def)
qed

lemma run_posted_reachable: "qp_reachable run_posted"
proof (rule qp_reachable.step [OF run_fetched_reachable])
  have "0 < length (d_exec run_fetched)" by (simp add: run_fetched_def)
  moreover have "bf_fits 17 31 (5 :: u16)" by (simp add: bf_fits_def take_bit_eq_mod)
  moreover have "wrap_around (q_size (s_cq run_fetched)) (d_cqtail run_fetched + 1) \<noteq> s_cqdb run_fetched"
    by (simp add: run_fetched_def run_issued_def qp_start_def run_sq_fields wrap_around_def)
  ultimately have "qp_step run_fetched (run_fetched\<lparr>
      s_cq := cq_write (unat (d_cqtail run_fetched)) run_cqe (s_cq run_fetched),
      d_exec := take 0 (d_exec run_fetched) @ drop (Suc 0) (d_exec run_fetched),
      d_cqtail := 1, d_phase := (if (1 :: u16) = 0 then \<not> d_phase run_fetched else d_phase run_fetched),
      h_answered := h_answered run_fetched @ [(run_entry, 5)],
      a_posted := a_posted run_fetched @ [run_cqe],
      a_fetches := a_fetches run_fetched @ [a_fetched run_fetched]\<rparr>)"
    by (rule qp_step.post) (simp_all add: run_fetched_def run_issued_def qp_start_def run_cqe_def
        run_entry_cid run_q_fields run_sq_fields wrap_around_def)
  then show "qp_step run_fetched run_posted"
    by (simp add: run_posted_def run_fetched_def run_issued_def qp_start_def)
qed

lemma run_consume: "cq_consume (s_cq run_posted) =
    (Some run_cqe, snd (cq_consume (cq_write 0 run_cqe run_cq)))"
  by (simp add: run_posted_def cq_consume_def cq_write_def run_cqe_def run_eval Let_def)

lemma run_complete: "sq_complete run_cqe (s_sq run_posted) = Inr (7, 5, sq_completed run_cqe run_q)"
  by (simp add: run_posted_def run_fetched_def run_issued_def sq_complete_def sq_completed_def
      run_cqe_def bf_fits_def take_bit_eq_mod run_q_def run_eval run_op_eval)

lemma run_taken_reachable: "qp_reachable run_taken"
proof (rule qp_reachable.step [OF run_posted_reachable])
  from qp_step.take [OF run_consume run_complete] show "qp_step run_posted run_taken"
    by (simp add: run_taken_def run_posted_def run_fetched_def run_issued_def qp_start_def)
qed

theorem qp_completion_safe_witness:
  "\<exists>cb q. sq_complete run_cqe (s_sq run_posted) = Inr (cb, cqe_sf run_cqe, q) \<and>
    pending (s_sq run_posted) (cqe_cid run_cqe) = Some cb \<and>
    pending q = (pending (s_sq run_posted))(cqe_cid run_cqe := None) \<and>
    cqe_sqid run_cqe = ucast (q_y (s_sq run_posted))"
  by (rule qp_completion_safe [OF run_posted_reachable run_consume])

theorem qp_status_delivery_witness:
  "\<exists>e. h_answered run_taken ! 0 = (e, snd (h_invoked run_taken ! 0)) \<and>
    (e, fst (h_invoked run_taken ! 0)) \<in> set (h_issued run_taken)"
  by (rule qp_status_delivery [OF run_taken_reachable]) (simp add: run_taken_def)

theorem qp_fetch_in_order_witness:
  "a_fetched run_issued < length (h_issued run_issued) \<and>
    sq_entries (s_sq run_issued) ! unat (d_sqhead run_issued) =
      fst (h_issued run_issued ! a_fetched run_issued)"
  by (rule qp_fetch_in_order [OF run_issued_reachable]) (simp add: run_issued_def qp_start_def)

end
