(* ===== verification/Controller_Laws.thy ===== *)
theory Controller_Laws
  imports Controller Queue_Pair
begin

text \<open>
  What the controller code of theory Controller promises: the register protocol of the bring-up,
  when it does not return, the order of interrupt set-up, the commands that create queues, and the
  place of the doorbells in the mapped registers.
\<close>

section \<open>Polling\<close>

text \<open>The history after \<open>n\<close> unsuccessful polls, and when a poll succeeds.\<close>

primrec polls :: "mmio_dev \<Rightarrow> nat \<Rightarrow> mmio_op list \<Rightarrow> mmio_op list" where
  "polls dev 0 h = h"
| "polls dev (Suc n) h = polls dev n (snd (mmio_read dev (ctl_reg_off Reg_Csts) h))"

definition poll_ready :: "mmio_dev \<Rightarrow> bool \<Rightarrow> mmio_op list \<Rightarrow> bool" where
  "poll_ready dev want h \<longleftrightarrow> (csts_rdy (dev h (ctl_reg_off Reg_Csts)) \<noteq> 0) = want"

lemma wait_rdy_unfold:
  "wait_rdy dev want h =
    (if poll_ready dev want h then Some (polls dev 1 h) else wait_rdy dev want (polls dev 1 h))"
  by (subst wait_rdy.simps) (simp add: poll_ready_def mmio_read_def Let_def)

lemma wait_rdy_returns:
  assumes "poll_ready dev want (polls dev n h)" and "\<forall>k < n. \<not> poll_ready dev want (polls dev k h)"
  shows "wait_rdy dev want h = Some (polls dev (Suc n) h)"
  using assms
proof (induction n arbitrary: h)
  case 0
  then show ?case by (subst wait_rdy_unfold) simp
next
  case (Suc n)
  have "\<forall>k < n. \<not> poll_ready dev want (polls dev k (polls dev 1 h))"
    using Suc.prems(2) by (metis One_nat_def Suc_less_eq polls.simps)
  moreover have "poll_ready dev want (polls dev n (polls dev 1 h))" using Suc.prems(1) by simp
  ultimately have "wait_rdy dev want (polls dev 1 h) = Some (polls dev (Suc n) (polls dev 1 h))"
    by (rule Suc.IH [rotated])
  moreover have "\<not> poll_ready dev want h" using Suc.prems(2) by (metis polls.simps(1) zero_less_Suc)
  ultimately show ?case by (subst wait_rdy_unfold) simp
qed

lemma wait_rdy_SomeD: "wait_rdy dev want h = Some h' \<Longrightarrow> \<exists>n. poll_ready dev want (polls dev n h)"
proof (rule wait_rdy.raw_induct [where P = "\<lambda>dev want h h'. \<exists>n. poll_ready dev want (polls dev n h)"], goal_cases)
  case (1 f dev want h r)
  then show ?case
  proof (cases "poll_ready dev want h")
    case True
    then show ?thesis by (metis polls.simps(1))
  next
    case False
    with 1(3) have "f dev want (polls dev 1 h) = Some r"
      by (simp add: mmio_read_def Let_def poll_ready_def)
    with 1(2) obtain n where "poll_ready dev want (polls dev n (polls dev 1 h))" by blast
    then have "poll_ready dev want (polls dev (Suc n) h)" by simp
    then show ?thesis by blast
  qed
qed

text \<open>
  C35: Each of the two polling loops returns if and only if some later read of the status register
  shows the wanted ready bit, and then after the first such read. The loop has no other way out: it
  does not honour the time limit of the capabilities register.
\<close>

theorem wait_rdy_spec:
  "wait_rdy dev want h =
    (if \<exists>n. poll_ready dev want (polls dev n h)
     then Some (polls dev (Suc (LEAST n. poll_ready dev want (polls dev n h))) h) else None)"
proof (cases "\<exists>n. poll_ready dev want (polls dev n h)")
  case True
  let ?P = "\<lambda>n. poll_ready dev want (polls dev n h)"
  have "?P (LEAST n. ?P n)" using True by (rule LeastI_ex)
  moreover have "\<forall>k < (LEAST n. ?P n). \<not> ?P k" by (blast dest: not_less_Least)
  ultimately have "wait_rdy dev want h = Some (polls dev (Suc (LEAST n. ?P n)) h)"
    by (rule wait_rdy_returns)
  then show ?thesis unfolding if_P [OF True] .
next
  case False
  then show ?thesis using wait_rdy_SomeD [of dev want h] by (cases "wait_rdy dev want h") auto
qed

section \<open>The register writes of a history\<close>

fun mmio_writes :: "mmio_op list \<Rightarrow> reg_write list" where
  "mmio_writes [] = []"
| "mmio_writes (Mmio_read r v # h) = mmio_writes h"
| "mmio_writes (Mmio_write r v # h) = (r, v) # mmio_writes h"

lemma mmio_writes_append [simp]: "mmio_writes (h @ h') = mmio_writes h @ mmio_writes h'"
  by (induction h rule: mmio_writes.induct) simp_all

lemma mmio_writes_read [simp]: "mmio_writes (snd (mmio_read dev r h)) = mmio_writes h"
  by (simp add: mmio_read_def Let_def)

lemma mmio_writes_write [simp]: "mmio_writes (mmio_write r v h) = mmio_writes h @ [(r, v)]"
  by (simp add: mmio_write_def)

lemma mmio_writes_polls [simp]: "mmio_writes (polls dev n h) = mmio_writes h"
  by (induction n arbitrary: h) simp_all

lemma polls_snoc:
  "polls dev (Suc n) h = polls dev n h @ [Mmio_read 0x1c (dev (polls dev n h) 0x1c)]"
proof (induction n arbitrary: h)
  case 0
  then show ?case by (simp add: mmio_read_def Let_def)
next
  case (Suc n)
  then show ?case using Suc.IH [of "snd (mmio_read dev (ctl_reg_off Reg_Csts) h)"] by (simp only: polls.simps(2))
qed

lemma polls_prefix: "\<exists>t. polls dev n h = h @ t"
  by (induction n arbitrary: h) (auto simp: mmio_read_def Let_def, metis append.assoc)

text \<open>What a loop that returned leaves behind: reads only, the last of them as wanted.\<close>

lemma wait_rdy_Some:
  assumes "wait_rdy dev want h = Some h'"
  obtains h1 v where "h' = h1 @ [Mmio_read 0x1c v]" and "(csts_rdy v \<noteq> 0) = want"
    and "mmio_writes h' = mmio_writes h" and "\<exists>t. h' = h @ t"
proof -
  let ?n = "LEAST n. poll_ready dev want (polls dev n h)"
  have ex: "\<exists>n. poll_ready dev want (polls dev n h)" by (rule wait_rdy_SomeD [OF assms])
  then have h': "h' = polls dev (Suc ?n) h" using assms by (simp add: wait_rdy_spec del: polls.simps)
  have "poll_ready dev want (polls dev ?n h)" using ex by (rule LeastI_ex)
  then show ?thesis
    using polls_prefix [of dev "Suc ?n" h]
    by (intro that [of "polls dev ?n h" "dev (polls dev ?n h) 0x1c"])
      (simp_all add: h' polls_snoc poll_ready_def del: polls.simps)
qed

lemma ctl_reset_Some:
  assumes "ctl_reset dev h = Some h'"
  obtains h1 v pre where "h' = h1 @ [Mmio_read 0x1c v]" and "csts_rdy v = 0"
    and "mmio_writes h' = mmio_writes h @ pre"
    and "pre = [] \<or> (\<exists>raw. pre = [(0x14, cc_set_en 0 raw)])"
proof (cases "csts_rdy (dev h 0x1c) = 0")
  case True
  then show ?thesis
    using assms by (intro that [of h "dev h 0x1c" "[]"]) (auto simp: ctl_reset_def mmio_read_def Let_def)
next
  case False
  then obtain raw h2 where w: "wait_rdy dev False h2 = Some h'" "mmio_writes h2 = mmio_writes h @ [(0x14, cc_set_en 0 raw)]"
    using assms by (fastforce simp: ctl_reset_def mmio_read_def mmio_write_def Let_def)
  obtain h1 v where "h' = h1 @ [Mmio_read 0x1c v]" "(csts_rdy v \<noteq> 0) = False" "mmio_writes h' = mmio_writes h2" "\<exists>t. h' = h2 @ t"
    by (rule wait_rdy_Some [OF w(1)])
  with w(2) show ?thesis by (intro that [of h1 v "[(0x14, cc_set_en 0 raw)]"]) auto
qed

section \<open>Bring-up\<close>

lemma ctl_register_values: "ctl_aqa = 0x00010001" "ctl_cc_final = 0x00460001" "cc_mps ctl_cc_mps = 0"
  "aqa_acqs 0x00010001 = 1" "aqa_asqs 0x00010001 = 1"
  by (simp_all add: ctl_aqa_def ctl_cc_final_def ctl_cc_mps_def aqa_fields cc_fields bf_set_def bf_get_def
      L4_PAGESHIFT_def Mps_base_def Cc_Ams_rr_def Cc_Css_nvm_def mask_eq_exp_minus_1)

definition lo32 :: "u64 \<Rightarrow> u32" where "lo32 a = ucast (a AND 0xffffffff)"
definition hi32 :: "u64 \<Rightarrow> u32" where "hi32 a = ucast (drop_bit 32 a)"

text \<open>The writes that program the admin queues and enable the controller.\<close>

definition bring_up_writes :: "u64 \<Rightarrow> u64 \<Rightarrow> reg_write list" where
  "bring_up_writes acq asq =
     [(0x24, 0x00010001), (0x30, lo32 acq), (0x34, hi32 acq), (0x28, lo32 asq), (0x2c, hi32 asq),
      (0x14, 0x00460001)]"

lemma ctl_start_Inr:
  assumes "ctl_start env cap h = Inr (acq, asq, ws, h')"
  obtains h1 v h2 pre h3 w where
    "mmio_writes h' = mmio_writes h @ pre @ bring_up_writes (phys_base acq) (phys_base asq)"
    and "pre = [] \<or> (\<exists>raw. pre = [(0x14, cc_set_en 0 raw)])"
    and "h' = h1 @ [Mmio_read 0x1c v, Mmio_write 0x24 0x00010001] @ h2" and "csts_rdy v = 0"
    and "h' = h3 @ [Mmio_read 0x1c w]" and "csts_rdy w \<noteq> 0"
    and "completion_queue_new (env_mem env) (env_acq_buf env) 2 0 (ucast (cap_dstrd cap)) = Inr acq"
    and "submission_queue_new (env_mem env) (env_asq_buf env) (env_asq_prps env) 2 0
      (ucast (cap_dstrd cap)) 0 = Inr asq"
    and "cap_mpsmin cap = 0"
proof -
  from assms obtain ha hb where r: "ctl_reset (env_dev env) h = Some ha"
    "wait_rdy (env_dev env) True (mmio_write 0x14 0x00460001
       (write_queue_addresses (phys_base acq) (phys_base asq) (mmio_write 0x24 0x00010001 ha))) = Some hb"
    "hb = h'" "cap_mpsmin cap = 0"
    "completion_queue_new (env_mem env) (env_acq_buf env) 2 0 (ucast (cap_dstrd cap)) = Inr acq"
    "submission_queue_new (env_mem env) (env_asq_buf env) (env_asq_prps env) 2 0
      (ucast (cap_dstrd cap)) 0 = Inr asq"
    by (auto simp: ctl_start_def bind_res_Inr_iff or_hang_def ctl_register_values Aq_id_def Let_def
        not_less word_le_0_iff split: option.splits if_splits)
  obtain h1 v pre where a: "ha = h1 @ [Mmio_read 0x1c v]" "csts_rdy v = 0"
    "mmio_writes ha = mmio_writes h @ pre" "pre = [] \<or> (\<exists>raw. pre = [(0x14, cc_set_en 0 raw)])"
    by (rule ctl_reset_Some [OF r(1)])
  obtain h3 w where b: "hb = h3 @ [Mmio_read 0x1c w]" "(csts_rdy w \<noteq> 0) = True"
    "mmio_writes hb = mmio_writes (mmio_write 0x14 0x00460001
       (write_queue_addresses (phys_base acq) (phys_base asq) (mmio_write 0x24 0x00010001 ha)))"
    "\<exists>t. hb = mmio_write 0x14 0x00460001
       (write_queue_addresses (phys_base acq) (phys_base asq) (mmio_write 0x24 0x00010001 ha)) @ t"
    by (rule wait_rdy_Some [OF r(2)])
  obtain h2 where "h' = h1 @ [Mmio_read 0x1c v, Mmio_write 0x24 0x00010001] @ h2"
    using b(4) r(3) a(1) by (auto simp: mmio_write_def write_queue_addresses_def Let_def)
  then show ?thesis
    using r a b
    by (intro that [of pre h1 v h2 h3 w])
      (simp_all add: bring_up_writes_def write_queue_addresses_def lo32_def hi32_def Let_def)
qed

lemma ctl_new_started:
  assumes "ctl_new env i = Inr (c, ws, h)"
  obtains cap h0 ws2 where "ctl_start env cap h0 = Inr (ctl_acq c, ctl_asq c, ws2, h)" and "mmio_writes h0 = []"
    and "ctl_cap c = cap" and "cap_css cap AND 1 \<noteq> 0"
  using assms by (auto simp: ctl_new_def bind_res_Inr_iff mmio_read_def Let_def split: if_splits)

lemma ctl_new_queues:
  assumes "ctl_new env i = Inr (c, ws, h)"
  shows "\<exists>cap. completion_queue_new (env_mem env) (env_acq_buf env) 2 0 (ucast (cap_dstrd cap)) = Inr (ctl_acq c) \<and>
    submission_queue_new (env_mem env) (env_asq_buf env) (env_asq_prps env) 2 0 (ucast (cap_dstrd cap)) 0 =
      Inr (ctl_asq c)"
proof -
  obtain cap h0 ws2 where s: "ctl_start env cap h0 = Inr (ctl_acq c, ctl_asq c, ws2, h)"
    by (rule ctl_new_started [OF assms])
  show ?thesis by (rule ctl_start_Inr [OF s]) blast
qed

text \<open>
  C12: A controller object that is constructed has brought the hardware up in the order the
  specification asks for: the admin queues' sizes and addresses are written only after a read of
  the status register that showed the controller disabled (an enabled one has been disabled
  first), the configuration register is written last, with the entry sizes 16 and 64, the NVM
  command set and the enable bit, and the constructor has seen the ready bit after it. The
  controller supports the NVM command set and the page size, both admin queues are empty,
  consistent and of two entries, and the first admin command can be issued.
\<close>

theorem ctl_new_bring_up:
  assumes "ctl_new env i = Inr (c, ws, h)"
  shows "(\<exists>pre. mmio_writes h = pre @ bring_up_writes (phys_base (ctl_acq c)) (phys_base (ctl_asq c)) \<and>
      (pre = [] \<or> (\<exists>raw. pre = [(0x14, cc_set_en 0 raw)]))) \<and>
    (\<exists>h1 v h2. h = h1 @ [Mmio_read 0x1c v, Mmio_write 0x24 0x00010001] @ h2 \<and> csts_rdy v = 0) \<and>
    (\<exists>h3 w. h = h3 @ [Mmio_read 0x1c w] \<and> csts_rdy w \<noteq> 0) \<and>
    cap_css (ctl_cap c) AND 1 \<noteq> 0 \<and> cap_mpsmin (ctl_cap c) = 0 \<and>
    sq_inv (ctl_asq c) \<and> pending (ctl_asq c) = Map.empty \<and> sq_can_produce (ctl_asq c) \<and>
    q_size (ctl_asq c) = 2 \<and> cq_tracks (ctl_acq c) [] 0 \<and> q_size (ctl_acq c) = 2"
proof -
  obtain cap h0 ws2 where
    s: "ctl_start env cap h0 = Inr (ctl_acq c, ctl_asq c, ws2, h)" "mmio_writes h0 = []"
    and cap: "ctl_cap c = cap" "cap_css cap AND 1 \<noteq> 0"
    by (rule ctl_new_started [OF assms])
  obtain h1 v h2 pre h3 w where
    w: "mmio_writes h = mmio_writes h0 @ pre @ bring_up_writes (phys_base (ctl_acq c)) (phys_base (ctl_asq c))"
      "pre = [] \<or> (\<exists>raw. pre = [(0x14, cc_set_en 0 raw)])"
      "h = h1 @ [Mmio_read 0x1c v, Mmio_write 0x24 0x00010001] @ h2" "csts_rdy v = 0"
      "h = h3 @ [Mmio_read 0x1c w]" "csts_rdy w \<noteq> 0"
    and q: "completion_queue_new (env_mem env) (env_acq_buf env) 2 0 (ucast (cap_dstrd cap)) = Inr (ctl_acq c)"
      "submission_queue_new (env_mem env) (env_asq_buf env) (env_asq_prps env) 2 0
        (ucast (cap_dstrd cap)) 0 = Inr (ctl_asq c)" "cap_mpsmin cap = 0"
    by (rule ctl_start_Inr [OF s(1)])
  note f = submission_queue_new_fields [OF q(2)]
  have "sq_can_produce (ctl_asq c)"
    by (simp add: sq_can_produce_def is_full_def f wrap_around_def)
  moreover have "sq_inv (ctl_asq c)" "pending (ctl_asq c) = Map.empty"
    using submission_queue_new_inv [OF q(2)] by simp_all
  moreover have "cq_tracks (ctl_acq c) [] 0" using completion_queue_new_tracks [OF q(1)] by simp
  moreover have "q_size (ctl_acq c) = 2" by (rule completion_queue_new_fields(1) [OF q(1)])
  moreover have "\<exists>pre. mmio_writes h = pre @ bring_up_writes (phys_base (ctl_acq c)) (phys_base (ctl_asq c)) \<and>
      (pre = [] \<or> (\<exists>raw. pre = [(0x14, cc_set_en 0 raw)]))"
    using w(1,2) s(2) by auto
  moreover have "\<exists>h1 v h2. h = h1 @ [Mmio_read 0x1c v, Mmio_write 0x24 0x00010001] @ h2 \<and> csts_rdy v = 0"
    using w(3,4) by blast
  moreover have "\<exists>h3 w. h = h3 @ [Mmio_read 0x1c w] \<and> csts_rdy w \<noteq> 0" using w(5,6) by blast
  ultimately show ?thesis using cap q(3) f(1) by simp
qed

section \<open>Interrupt set-up\<close>

definition programs_msi :: "irq_event \<Rightarrow> bool" where
  "programs_msi ev = (case ev of Ev_table _ \<Rightarrow> True | Ev_cfg _ \<Rightarrow> True | _ \<Rightarrow> False)"

lemma ctl_enable_msi_Inr:
  assumes "ctl_enable_msi env irq info c = Inr (evs, c')"
  shows "\<forall>ev \<in> set evs. programs_msi ev" and "use_msixs c' = use_msixs c"
    and "ctl_irq_trigger c' = ctl_irq_trigger c" and "ctl_asq c' = ctl_asq c"
    and "ctl_acq c' = ctl_acq c" and "ctl_cap c' = ctl_cap c"
    and "msixs_supported (ctl_pci c') = msixs_supported (ctl_pci c)"
  using assms
  by (auto simp: ctl_enable_msi_def bind_res_Inr_iff programs_msi_def enable_msix_def
      get_local_vector_def msixs_supported_def Let_def split: if_splits)

lemma flagged: "(n OR Icu_F_msi) AND Icu_F_msi \<noteq> 0"
proof -
  have "bit ((n OR Icu_F_msi) AND Icu_F_msi) 31" by (simp add: bit_simps Icu_F_msi_def)
  then show ?thesis by auto
qed

text \<open>The write to the interrupt mask register at the end, made exactly when MSI-X is not in use.\<close>

definition mask_writes :: "'cb ctl \<Rightarrow> irq_event list" where
  "mask_writes c = (if use_msixs c \<and> msixs_supported (ctl_pci c) \<noteq> 0 then [] else [Ev_unmask_mmio])"

text \<open>
  What programming the device with a message amounts to: with MSI-X, the entry of a vector in the
  table gets the two halves of the address and the data and is then unmasked; with MSI, the message
  registers of the capability get them, the data word after one half of the address or after both,
  with as many low bits clear as the device may set itself.
\<close>

definition table_message :: "u32 \<Rightarrow> msi_info \<Rightarrow> irq_event list" where
  "table_message v info =
     [Ev_table (Table_write (v * 16 + 0) (ucast (msi_addr info AND 0xffffffff))),
      Ev_table (Table_write (v * 16 + 4) (ucast (drop_bit 32 (msi_addr info)))),
      Ev_table (Table_write (v * 16 + 8) (msi_data info)),
      Ev_table (Table_clear (v * 16 + 12) 1)]"

definition cfg_message :: "pci_dev \<Rightarrow> msi_info \<Rightarrow> irq_event list" where
  "cfg_message d info =
     (let a = cap_addr (msi_cap d); low = ucast (msi_addr info AND 0xffffffff);
          high = ucast (drop_bit 32 (msi_addr info));
          data = ucast (ucast (msi_data info AND NOT (msis_supported d - 1)) :: u16) in
      if msi_large (cap_ctrl (msi_cap d))
      then [Ev_cfg (a + 4, low, 32), Ev_cfg (a + 8, high, 32), Ev_cfg (a + 0xc, data, 16)]
      else [Ev_cfg (a + 4, low, 32), Ev_cfg (a + 8, data, 16)])"

lemma enable_msix_message:
  assumes "enable_msix cfg attach irq info d = Inr (ops, d')"
  shows "\<exists>v. vectors d' (irq AND NOT Icu_F_msi) = Some v \<and> map Ev_table ops = table_message v info"
proof -
  from assms obtain d1 where d1: "d' = snd (get_local_vector (irq AND NOT Icu_F_msi) d1)"
    "map Ev_table ops = table_message (fst (get_local_vector (irq AND NOT Icu_F_msi) d1)) info"
    by (auto simp: enable_msix_def table_message_def bind_res_Inr_iff Let_def case_prod_unfold)
  have "vectors (snd (get_local_vector m d1)) (m AND NOT Icu_F_msi) = Some (fst (get_local_vector m d1))" for m
    by (auto simp: get_local_vector_def Let_def)
  from this [of "irq AND NOT Icu_F_msi"] d1 show ?thesis by (simp add: and.assoc)
qed

lemma enable_msi_message:
  assumes "enable_msi wr info d = Inr ws"
  shows "map Ev_cfg ws = cfg_message d info"
  using assms
  by (auto simp: enable_msi_def bind_res_Inr_iff cfg_write_32_def cfg_write_16_def cfg_message_def
      Let_def split: if_splits)

lemma ctl_enable_msi_message:
  assumes "ctl_enable_msi env (n OR Icu_F_msi) info c = Inr (ops, c')" and "msis_enabled i c"
  shows "if use_msixs c \<and> msixs_supported (ctl_pci c) \<noteq> 0
    then \<exists>v. vectors (ctl_pci c') ((n OR Icu_F_msi) AND NOT Icu_F_msi) = Some v \<and>
      ops = table_message v info
    else ops = cfg_message (ctl_pci c) info"
  using assms flagged [of n]
  by (auto simp: ctl_enable_msi_def msis_enabled_def bind_res_Inr_iff
      dest!: enable_msix_message enable_msi_message)

text \<open>
  C30: The controller's interrupt is set up in an order in which none can be lost. With MSIs, the
  fresh MSI is bound, its message is queried, and only then is the interrupt unmasked and last of
  all the device programmed with exactly this message: with MSI-X in the table entry of the vector
  that belongs to the MSI, which is then unmasked, otherwise in the message registers of the MSI
  capability. The trigger type is edge, so that the interrupt is not unmasked again after each
  interrupt. Without MSIs, or when none is left, nothing is allocated, the legacy interrupt is bound
  and unmasked, and no message is programmed. The interrupt mask registers are written exactly when
  MSI-X is not in use, after a read for the trace.
\<close>

theorem register_interrupt_handler_order:
  assumes r: "register_interrupt_handler env i c = Inr (evs, i', c')"
    and legacy: "\<forall>irq t. ie_legacy env = Inr (irq, t) \<longrightarrow> irq AND Icu_F_msi = 0"
  shows "if msis_enabled i c \<and> (\<exists>a. icu_alloc_msi (ie_scan_zero env) i = Inr a)
     then \<exists>n info ops. icu_alloc_msi (ie_scan_zero env) i = Inr (n, i') \<and>
       ie_msi_info env (n OR Icu_F_msi) = Inr info \<and>
       evs = [Ev_register, Ev_bind (n OR Icu_F_msi), Ev_msi_info (n OR Icu_F_msi), Ev_unmask_cap] @ ops @
         [Ev_read_mask] @ mask_writes c \<and>
       (if use_msixs c \<and> msixs_supported (ctl_pci c) \<noteq> 0
        then \<exists>v. vectors (ctl_pci c') ((n OR Icu_F_msi) AND NOT Icu_F_msi) = Some v \<and>
          ops = table_message v info
        else ops = cfg_message (ctl_pci c) info) \<and>
       (\<forall>ev \<in> set ops. programs_msi ev) \<and> ctl_irq_trigger c' = 1
     else \<exists>irq t unmask. ie_legacy env = Inr (irq, t) \<and> i' = i \<and> ctl_irq_trigger c' = t \<and>
       evs = [Ev_register, Ev_bind irq, unmask] @ [Ev_read_mask] @ mask_writes c \<and>
       unmask \<in> {Ev_unmask_cap, Ev_unmask_icu irq}"
proof (cases "msis_enabled i c \<and> (\<exists>a. icu_alloc_msi (ie_scan_zero env) i = Inr a)")
  case True
  then obtain n i1 where a: "msis_enabled i c" "icu_alloc_msi (ie_scan_zero env) i = Inr (n, i1)" by auto
  let ?irq = "n OR Icu_F_msi"
  from r a flagged [of n] obtain info ops where
    e: "ctl_enable_msi env ?irq info (c\<lparr>ctl_irq_trigger := 1\<rparr>) = Inr (ops, c')" "i' = i1"
      "ie_msi_info env ?irq = Inr info"
      "evs = [Ev_register, Ev_bind ?irq, Ev_msi_info ?irq, Ev_unmask_cap] @ ops @ [Ev_read_mask] @ mask_writes c'"
    by (auto simp: register_interrupt_handler_def bind_res_Inr_iff mask_writes_def split: if_splits)
  note p = ctl_enable_msi_Inr [OF e(1)]
  have "msis_enabled i (c\<lparr>ctl_irq_trigger := 1\<rparr>)" using a(1) by (simp add: msis_enabled_def)
  note m = ctl_enable_msi_message [OF e(1) this]
  have "mask_writes c' = mask_writes c" using p(2,7) by (simp add: mask_writes_def)
  then show ?thesis
    unfolding if_P [OF True] using a e p(1,3) m
    by (intro exI [of _ n] exI [of _ info] exI [of _ ops]) simp
next
  case False
  then have no: "(if msis_enabled i c then
        (case icu_alloc_msi (ie_scan_zero env) i of Inl _ \<Rightarrow> (None, i)
         | Inr (n, i') \<Rightarrow> (Some (n OR Icu_F_msi), i')) else (None, i)) = (None, i)"
    by (auto split: sum.splits)
  from r obtain irq t where "ie_legacy env = Inr (irq, t)"
    unfolding register_interrupt_handler_def Let_def no by (auto simp: bind_res_Inr_iff)
  with legacy have l: "ie_legacy env = Inr (irq, t)" "irq AND Icu_F_msi = 0" by auto
  from r l show ?thesis
    unfolding if_not_P [OF False] register_interrupt_handler_def Let_def no
    by (auto simp: bind_res_Inr_iff mask_writes_def split: if_splits)
qed

section \<open>I/O queues\<close>

lemma iocq_entry:
  assumes "e0 = sqe_set_cid cid (sqe_init e')" and "e = iocq_fill qi base sz v e0"
  shows "sqe_opc e = 5" and "sqe_nsid e = 0" and "sqe_psdt e = 0" and "sqe_prp1 e = base"
    and "sqe_prp2 e = 0" and "sqe_qid e = qi" and "sqe_qsize e = sz - 1" and "sqe_iv e = ucast v"
    and "sqe_ien e = 1" and "sqe_pc e = 1" and "sqe_cid e = cid"
  by (simp_all add: assms iocq_fill_def Let_def sqe_fields bf_get_set)

lemma iosq_entry:
  assumes "e0 = sqe_set_cid cid (sqe_init e')" and "e = iosq_fill qi base sz e0"
  shows "sqe_opc e = 1" and "sqe_nsid e = 0" and "sqe_psdt e = 0" and "sqe_prp1 e = base"
    and "sqe_prp2 e = 0" and "sqe_qid e = qi" and "sqe_qsize e = sz - 1" and "sqe_cqid e = qi"
    and "sqe_pc e = 1" and "sqe_cdw12 e = 0" and "sqe_cid e = cid"
  by (simp_all add: assms iosq_fill_def Let_def sqe_fields bf_get_set)

text \<open>Creating a completion queue, from an admin queue with room.\<close>

lemma create_iocq_ok:
  assumes "sq_inv (ctl_asq c)" and "sq_can_produce (ctl_asq c)"
    and "completion_queue_new mem ans sz (ucast qi) (ucast (cap_dstrd (ctl_cap c))) = Inr cq"
    and "get_local_vector iv (ctl_pci c) = (v, d)"
  obtains cid e0 q' where
    "create_iocq mem ans qi sz iv cb c = Inr (cq, sq_submit q', c\<lparr>ctl_asq := q', ctl_pci := d\<rparr>)"
    and "e0 = sqe_set_cid cid (sqe_init (sq_entries (ctl_asq c) ! unat (sq_tail (ctl_asq c))))"
    and "issued cb cid (iocq_fill qi (phys_base cq) sz v e0) (ctl_asq c) q'"
proof -
  let ?q = "ctl_asq c" and ?t = "sq_tail (ctl_asq c)"
  let ?fill = "iocq_fill qi (phys_base cq) sz v"
  obtain cid q1 e0 where p: "sq_produce cb ?q = Inr (Some (?t, q1))"
    "e0 = sqe_set_cid cid (sqe_init (sq_entries ?q ! unat ?t))" "unat cid < unat (q_size ?q)"
    "issued cb cid e0 ?q q1" "sq_sgls q1 = sq_sgls ?q" "sq_prps q1 = sq_prps ?q"
    "sq_sgl_mem q1 = sq_sgl_mem ?q" "sq_prp_mem q1 = sq_prp_mem ?q"
    by (rule sq_produce_issued [OF assms(1,2)])
  have "issued cb cid (?fill e0) ?q (sq_modify ?t ?fill q1)"
    by (rule issued_modify [where f = ?fill, OF p(4) assms(1) iocq_entry(11) [OF p(2) refl]])
  moreover have "create_iocq mem ans qi sz iv cb c =
      Inr (cq, sq_submit (sq_modify ?t ?fill q1), c\<lparr>ctl_asq := sq_modify ?t ?fill q1, ctl_pci := d\<rparr>)"
    using assms(3,4) p(1) completion_queue_new_fields(1) [OF assms(3)]
    by (simp add: create_iocq_def Let_def)
  ultimately show ?thesis using p(2) by (intro that)
qed

lemma create_iosq_ok:
  assumes "sq_inv (ctl_asq c)" and "sq_can_produce (ctl_asq c)"
    and "submission_queue_new mem ans ans2 sz (ucast qi) (ucast (cap_dstrd (ctl_cap c))) sgls = Inr sq"
  obtains cid e0 q' where
    "create_iosq mem ans ans2 qi sz sgls cb c = Inr (sq, sq_submit q', c\<lparr>ctl_asq := q'\<rparr>)"
    and "e0 = sqe_set_cid cid (sqe_init (sq_entries (ctl_asq c) ! unat (sq_tail (ctl_asq c))))"
    and "issued cb cid (iosq_fill qi (phys_base sq) sz e0) (ctl_asq c) q'"
proof -
  let ?q = "ctl_asq c" and ?t = "sq_tail (ctl_asq c)"
  let ?fill = "iosq_fill qi (phys_base sq) sz"
  obtain cid q1 e0 where p: "sq_produce cb ?q = Inr (Some (?t, q1))"
    "e0 = sqe_set_cid cid (sqe_init (sq_entries ?q ! unat ?t))" "unat cid < unat (q_size ?q)"
    "issued cb cid e0 ?q q1" "sq_sgls q1 = sq_sgls ?q" "sq_prps q1 = sq_prps ?q"
    "sq_sgl_mem q1 = sq_sgl_mem ?q" "sq_prp_mem q1 = sq_prp_mem ?q"
    by (rule sq_produce_issued [OF assms(1,2)])
  have "issued cb cid (?fill e0) ?q (sq_modify ?t ?fill q1)"
    by (rule issued_modify [where f = ?fill, OF p(4) assms(1) iosq_entry(11) [OF p(2) refl]])
  moreover have "create_iosq mem ans ans2 qi sz sgls cb c =
      Inr (sq, sq_submit (sq_modify ?t ?fill q1), c\<lparr>ctl_asq := sq_modify ?t ?fill q1\<rparr>)"
    using assms(3) p(1) submission_queue_new_fields(1) [OF assms(3)]
    by (simp add: create_iosq_def Let_def)
  ultimately show ?thesis using p(2) by (intro that)
qed

text \<open>
  From an admin queue with room, \<^verbatim>\<open>create_iocq\<close> returns an empty completion queue of the asked
  size whose ring the driver and the controller read alike, and issues the one admin command that
  announces exactly this queue: its address, identifier and zero-based size, physically contiguous,
  with interrupts enabled on the local vector of the given MSI.
\<close>

lemma create_iocq_command:
  assumes "sq_inv (ctl_asq c)" and "sq_can_produce (ctl_asq c)" and "sz \<noteq> 0"
    and "completion_queue_new mem ans sz (ucast qi) (ucast (cap_dstrd (ctl_cap c))) = Inr cq"
  shows "\<exists>cid e q'.
    create_iocq mem ans qi sz iv cb c =
      Inr (cq, sq_submit q', c\<lparr>ctl_asq := q', ctl_pci := snd (get_local_vector iv (ctl_pci c))\<rparr>) \<and>
    issued cb cid e (ctl_asq c) q' \<and> sqe_opc e = 5 \<and> sqe_nsid e = 0 \<and> sqe_psdt e = 0 \<and>
    sqe_prp1 e = ib_paddr (q_buf cq) \<and> sqe_prp2 e = 0 \<and> sqe_qid e = qi \<and>
    unat (sqe_qsize e) + 1 = unat (q_size cq) \<and> q_size cq = sz \<and> q_y cq = ucast qi \<and>
    sqe_iv e = ucast (fst (get_local_vector iv (ctl_pci c))) \<and> sqe_ien e = 1 \<and> sqe_pc e = 1 \<and>
    cq_tracks cq [] 0"
proof -
  obtain v d where v: "get_local_vector iv (ctl_pci c) = (v, d)" by (rule prod.exhaust)
  obtain cid e0 q' where c: "create_iocq mem ans qi sz iv cb c =
      Inr (cq, sq_submit q', c\<lparr>ctl_asq := q', ctl_pci := d\<rparr>)"
    "e0 = sqe_set_cid cid (sqe_init (sq_entries (ctl_asq c) ! unat (sq_tail (ctl_asq c))))"
    "issued cb cid (iocq_fill qi (phys_base cq) sz v e0) (ctl_asq c) q'"
    by (rule create_iocq_ok [OF assms(1,2,4) v])
  have "unat (sz - 1) + 1 = unat sz" using assms(3) by (subst unat_minus_one) (auto simp: unat_gt_0)
  moreover have "phys_base cq = ib_paddr (q_buf cq)" by (simp add: phys_base_def inout_buffer_pget_def)
  ultimately show ?thesis
    using c(1,3) v iocq_entry [OF c(2) refl] completion_queue_new_fields [OF assms(4)]
      completion_queue_new_tracks [OF assms(4,3)]
    by (intro exI [of _ cid] exI [of _ "iocq_fill qi (phys_base cq) sz v e0"] exI [of _ q']) simp
qed

text \<open>
  From an admin queue with room, \<^verbatim>\<open>create_iosq\<close> returns an empty, consistent submission queue
  into which a command can be entered, and issues the one admin command that announces exactly this
  queue, bound to the completion queue of the same identifier.
\<close>

lemma create_iosq_command:
  assumes "sq_inv (ctl_asq c)" and "sq_can_produce (ctl_asq c)" and "1 < sz"
    and "submission_queue_new mem ans ans2 sz (ucast qi) (ucast (cap_dstrd (ctl_cap c))) sgls = Inr sq"
  shows "\<exists>cid e q'.
    create_iosq mem ans ans2 qi sz sgls cb c = Inr (sq, sq_submit q', c\<lparr>ctl_asq := q'\<rparr>) \<and>
    issued cb cid e (ctl_asq c) q' \<and> sqe_opc e = 1 \<and> sqe_nsid e = 0 \<and> sqe_psdt e = 0 \<and>
    sqe_prp1 e = ib_paddr (q_buf sq) \<and> sqe_prp2 e = 0 \<and> sqe_qid e = qi \<and> sqe_cqid e = qi \<and>
    unat (sqe_qsize e) + 1 = unat (q_size sq) \<and> q_size sq = sz \<and> q_y sq = ucast qi \<and> sqe_pc e = 1 \<and>
    sq_inv sq \<and> pending sq = Map.empty \<and> sq_can_produce sq"
proof -
  obtain cid e0 q' where c: "create_iosq mem ans ans2 qi sz sgls cb c =
      Inr (sq, sq_submit q', c\<lparr>ctl_asq := q'\<rparr>)"
    "e0 = sqe_set_cid cid (sqe_init (sq_entries (ctl_asq c) ! unat (sq_tail (ctl_asq c))))"
    "issued cb cid (iosq_fill qi (phys_base sq) sz e0) (ctl_asq c) q'"
    by (rule create_iosq_ok [OF assms(1,2,4)])
  have sz: "1 < unat sz" using assms(3) by (simp add: word_less_nat_alt)
  then have n0: "sz \<noteq> 0" by auto
  have "unat (sz - 1) + 1 = unat sz" using n0 by (subst unat_minus_one) (auto simp: unat_gt_0)
  moreover have "phys_base sq = ib_paddr (q_buf sq)" by (simp add: phys_base_def inout_buffer_pget_def)
  moreover have "sq_can_produce sq"
  proof -
    have "unat (wrap_around sz 1) = 1" using sz wrap_around_Suc [of 0 sz] by simp
    then have "wrap_around sz 1 \<noteq> 0" by auto
    with submission_queue_new_fields [OF assms(4)] n0 show ?thesis
      by (auto simp: sq_can_produce_def is_full_def word_neq_0_conv)
  qed
  ultimately show ?thesis
    using c(1,3) iosq_entry [OF c(2) refl] submission_queue_new_fields [OF assms(4)]
      submission_queue_new_inv [OF assms(4) n0]
    by (intro exI [of _ cid] exI [of _ "iosq_fill qi (phys_base sq) sz e0"] exI [of _ q']) simp
qed

text \<open>
  C28: The controller learns of exactly the queues that the driver has created. From an admin queue
  with room, \<^verbatim>\<open>create_iocq\<close> returns an empty completion queue of the asked size whose ring the driver
  and the controller read alike, and issues the one admin command that announces it: its address,
  identifier and zero-based size, physically contiguous, with interrupts enabled on the local
  vector of the given MSI. \<^verbatim>\<open>create_iosq\<close> returns an empty, consistent submission queue with room and
  issues the one command that announces it, bound to the completion queue of the same identifier.
\<close>

theorem create_queue_commands:
  assumes "sq_inv (ctl_asq c)" and "sq_can_produce (ctl_asq c)" and "1 < sz"
    and "completion_queue_new mem ans sz (ucast qi) (ucast (cap_dstrd (ctl_cap c))) = Inr cq"
    and "submission_queue_new mem ans2 ans3 sz (ucast qi) (ucast (cap_dstrd (ctl_cap c))) sgls = Inr sq"
  shows "(\<exists>cid e q'.
    create_iocq mem ans qi sz iv cb c =
      Inr (cq, sq_submit q', c\<lparr>ctl_asq := q', ctl_pci := snd (get_local_vector iv (ctl_pci c))\<rparr>) \<and>
    issued cb cid e (ctl_asq c) q' \<and> sqe_opc e = 5 \<and> sqe_nsid e = 0 \<and> sqe_psdt e = 0 \<and>
    sqe_prp1 e = ib_paddr (q_buf cq) \<and> sqe_prp2 e = 0 \<and> sqe_qid e = qi \<and>
    unat (sqe_qsize e) + 1 = unat (q_size cq) \<and> q_size cq = sz \<and> q_y cq = ucast qi \<and>
    sqe_iv e = ucast (fst (get_local_vector iv (ctl_pci c))) \<and> sqe_ien e = 1 \<and> sqe_pc e = 1 \<and>
    cq_tracks cq [] 0) \<and>
  (\<exists>cid e q'.
    create_iosq mem ans2 ans3 qi sz sgls cb c = Inr (sq, sq_submit q', c\<lparr>ctl_asq := q'\<rparr>) \<and>
    issued cb cid e (ctl_asq c) q' \<and> sqe_opc e = 1 \<and> sqe_nsid e = 0 \<and> sqe_psdt e = 0 \<and>
    sqe_prp1 e = ib_paddr (q_buf sq) \<and> sqe_prp2 e = 0 \<and> sqe_qid e = qi \<and> sqe_cqid e = qi \<and>
    unat (sqe_qsize e) + 1 = unat (q_size sq) \<and> q_size sq = sz \<and> q_y sq = ucast qi \<and> sqe_pc e = 1 \<and>
    sq_inv sq \<and> pending sq = Map.empty \<and> sq_can_produce sq)"
proof -
  have "sz \<noteq> 0" using assms(3) by auto
  from create_iocq_command [OF assms(1,2) this assms(4)] create_iosq_command [OF assms(1,2,3,5)]
  show ?thesis by blast
qed

section \<open>The interrupt vector of a namespace\<close>

lemma unflag_small: "unat n < 2 ^ 31 \<Longrightarrow> (n OR Icu_F_msi) AND NOT Icu_F_msi = n"
proof -
  assume n: "unat n < 2 ^ 31"
  have "unat (take_bit 31 n) = unat n"
    using n by (subst unsigned_take_bit_eq) (simp add: take_bit_eq_mod)
  then have "take_bit 31 n = n" by (simp only: unat_eq_iff)
  then have n31: "bit n k \<Longrightarrow> k < 31" for k by (metis bit_take_bit_iff)
  show ?thesis
  proof (rule bit_word_eqI)
    fix k
    assume "k < LENGTH(32)"
    have "bit Icu_F_msi k \<longleftrightarrow> k = 31"
    proof -
      have eq: "Icu_F_msi = push_bit 31 1" by (simp add: Icu_F_msi_def)
      show ?thesis unfolding eq bit_push_bit_iff bit_1_iff using \<open>k < LENGTH(32)\<close> by auto
    qed
    then show "bit ((n OR Icu_F_msi) AND NOT Icu_F_msi) k \<longleftrightarrow> bit n k"
      using n31 [of k] \<open>k < LENGTH(32)\<close> by (auto simp: bit_simps)
  qed
qed

lemma allocated_unflag:
  assumes "bitmap_scan scan" and "icu_inv i" and "icu_alloc_msi scan i = Inr (n, i')"
  shows "(n OR Icu_F_msi) AND NOT Icu_F_msi = n" and "n AND NOT Icu_F_msi = n"
proof -
  have "unat n < 2048"
    using bitmap_scan.icu_alloc_InrD [OF assms] by (simp add: Num_msis_def)
  then show 1: "(n OR Icu_F_msi) AND NOT Icu_F_msi = n" by (intro unflag_small) simp
  show "n AND NOT Icu_F_msi = n" by (metis 1 and.assoc and.idem)
qed

lemma enable_msix_vector:
  assumes "enable_msix cfg attach irq info d = Inr (ops, d')" and "vec_inv d"
  obtains v where "vectors d' (irq AND NOT Icu_F_msi) = Some v" and "vec_inv d'"
    and "ops = [Table_write (v * 16 + 0) (ucast (msi_addr info AND 0xffffffff)),
      Table_write (v * 16 + 4) (ucast (drop_bit 32 (msi_addr info))),
      Table_write (v * 16 + 8) (msi_data info), Table_clear (v * 16 + 12) 1]"
proof -
  have "vec_inv (d\<lparr>msix_table := t\<rparr>)" for t using assms(2) by (simp add: vec_inv_def)
  with assms obtain d1 where d1: "vec_inv d1"
    "d' = snd (get_local_vector (irq AND NOT Icu_F_msi) d1)"
    "ops = (let v = fst (get_local_vector (irq AND NOT Icu_F_msi) d1) in
      [Table_write (v * 16 + 0) (ucast (msi_addr info AND 0xffffffff)),
       Table_write (v * 16 + 4) (ucast (drop_bit 32 (msi_addr info))),
       Table_write (v * 16 + 8) (msi_data info), Table_clear (v * 16 + 12) 1])"
    by (auto simp: enable_msix_def bind_res_Inr_iff Let_def case_prod_unfold split: if_splits)
  have "(irq AND NOT Icu_F_msi) AND NOT Icu_F_msi = irq AND NOT Icu_F_msi" by (simp add: and.assoc)
  with get_local_vector_inv [OF d1(1), of "irq AND NOT Icu_F_msi"] d1(2,3) show ?thesis
    by (intro that [of "fst (get_local_vector (irq AND NOT Icu_F_msi) d1)"]) (simp_all add: Let_def)
qed

text \<open>
  C29: With MSI-X, the interrupt of a namespace and the vector of its completion queue agree: when
  \<^verbatim>\<open>allocate_msi\<close> hands out an MSI, the message of exactly this MSI has been written to one entry of
  the device's table and that entry unmasked, and the completion queue created with the MSI number
  afterwards is bound to the vector of that entry.
\<close>

theorem namespace_vector_programmed:
  assumes scan: "bitmap_scan (ie_scan_zero env)" "icu_inv i"
    and c: "vec_inv (ctl_pci c)" "use_msixs c" "msixs_supported (ctl_pci c) \<noteq> 0"
    and a: "allocate_msi env i c = Inr (iv, evs, i', c')" "evs \<noteq> []"
    and q: "sq_inv (ctl_asq c)" "sq_can_produce (ctl_asq c)"
      "completion_queue_new mem ans sz (ucast qi) (ucast (cap_dstrd (ctl_cap c))) = Inr cq"
  shows "\<exists>v info cid e q' d. ie_msi_info env (iv OR Icu_F_msi) = Inr info \<and>
    evs = [Ev_register, Ev_bind (iv OR Icu_F_msi), Ev_msi_info (iv OR Icu_F_msi), Ev_unmask_cap,
      Ev_table (Table_write (v * 16 + 0) (ucast (msi_addr info AND 0xffffffff))),
      Ev_table (Table_write (v * 16 + 4) (ucast (drop_bit 32 (msi_addr info)))),
      Ev_table (Table_write (v * 16 + 8) (msi_data info)), Ev_table (Table_clear (v * 16 + 12) 1)] \<and>
    create_iocq mem ans qi sz iv cb c' = Inr (cq, sq_submit q', c'\<lparr>ctl_asq := q', ctl_pci := d\<rparr>) \<and>
    issued cb cid e (ctl_asq c) q' \<and> sqe_iv e = ucast v"
proof -
  let ?irq = "iv OR Icu_F_msi"
  from a flagged obtain info ops where
    al: "icu_alloc_msi (ie_scan_zero env) i = Inr (iv, i')" and info: "ie_msi_info env ?irq = Inr info"
    and en: "ctl_enable_msi env ?irq info c = Inr (ops, c')"
    and evs: "evs = [Ev_register, Ev_bind ?irq, Ev_msi_info ?irq, Ev_unmask_cap] @ ops"
    by (auto simp: allocate_msi_def bind_res_Inr_iff Let_def split: if_splits sum.splits)
  note un = allocated_unflag [OF scan al]
  note keep = ctl_enable_msi_Inr [OF en]
  from en c(2,3) flagged [of iv] obtain tops d' where
    mx: "enable_msix (ie_cfg env) (ie_attach env) ?irq info (ctl_pci c) = Inr (tops, d')"
      "ops = map Ev_table tops" "c' = c\<lparr>ctl_pci := d'\<rparr>"
    by (auto simp: ctl_enable_msi_def bind_res_Inr_iff)
  obtain v where v: "vectors d' iv = Some v"
    "tops = [Table_write (v * 16 + 0) (ucast (msi_addr info AND 0xffffffff)),
      Table_write (v * 16 + 4) (ucast (drop_bit 32 (msi_addr info))),
      Table_write (v * 16 + 8) (msi_data info), Table_clear (v * 16 + 12) 1]"
    using enable_msix_vector [OF mx(1) c(1)] un(1) by metis
  have "get_local_vector iv (ctl_pci c') = (v, d')"
    using get_local_vector_known [of d' iv v] v(1) un(2) mx(3) by simp
  from create_iocq_ok [of c' mem ans sz qi cq iv v d' cb, unfolded keep(4,6), OF q this]
  obtain cid e0 q' where "create_iocq mem ans qi sz iv cb c' =
      Inr (cq, sq_submit q', c'\<lparr>ctl_asq := q', ctl_pci := d'\<rparr>)"
    and e0: "e0 = sqe_set_cid cid (sqe_init (sq_entries (ctl_asq c) ! unat (sq_tail (ctl_asq c))))"
    and "issued cb cid (iocq_fill qi (phys_base cq) sz v e0) (ctl_asq c) q'"
    by metis
  with info evs mx(2) v(2) iocq_entry(8) [OF e0 refl] show ?thesis
    by (intro exI [of _ v] exI [of _ info] exI [of _ cid]
        exI [of _ "iocq_fill qi (phys_base cq) sz v e0"] exI [of _ q'] exI [of _ d']) simp
qed

text \<open>
  C37: The fall-back of \<^verbatim>\<open>allocate_msi\<close> does not do what it is meant to. When no MSI is left it
  returns 0, so that the namespace shares the controller's vector 0; but \<^verbatim>\<open>create_iocq\<close> takes the 0
  for the MSI number 0. On a controller whose own MSI has another number (any but the first one set
  up), the completion queue is bound to a fresh vector for which no message has been programmed.
\<close>

theorem fallback_vector_unprogrammed:
  assumes full: "icu_alloc_msi (ie_scan_zero env) i = Inl e"
    and c: "vec_inv (ctl_pci c)" "vectors (ctl_pci c) 0 = None"
    and q: "sq_inv (ctl_asq c)" "sq_can_produce (ctl_asq c)"
      "completion_queue_new mem ans sz (ucast qi) (ucast (cap_dstrd (ctl_cap c))) = Inr cq"
  shows "\<exists>cid e q' d. allocate_msi env i c = Inr (0, [], i, c) \<and>
    create_iocq mem ans qi sz 0 cb c = Inr (cq, sq_submit q', c\<lparr>ctl_asq := q', ctl_pci := d\<rparr>) \<and>
    issued cb cid e (ctl_asq c) q' \<and> sqe_iv e = ucast (last_vector (ctl_pci c)) \<and>
    last_vector (ctl_pci c) \<notin> ran (vectors (ctl_pci c))"
proof -
  let ?d = "(ctl_pci c)\<lparr>vectors := (vectors (ctl_pci c))(0 \<mapsto> last_vector (ctl_pci c)),
      last_vector := last_vector (ctl_pci c) + 1\<rparr>"
  have "get_local_vector 0 (ctl_pci c) = (last_vector (ctl_pci c), ?d)"
    using get_local_vector_new [of "ctl_pci c" 0] c(2) by simp
  from create_iocq_ok [OF q this] obtain cid e0 q' where
    "create_iocq mem ans qi sz 0 cb c = Inr (cq, sq_submit q', c\<lparr>ctl_asq := q', ctl_pci := ?d\<rparr>)"
    and e0: "e0 = sqe_set_cid cid (sqe_init (sq_entries (ctl_asq c) ! unat (sq_tail (ctl_asq c))))"
    and "issued cb cid (iocq_fill qi (phys_base cq) sz (last_vector (ctl_pci c)) e0) (ctl_asq c) q'"
    by metis
  moreover have "allocate_msi env i c = Inr (0, [], i, c)" using full by (simp add: allocate_msi_def)
  moreover have "last_vector (ctl_pci c) \<notin> ran (vectors (ctl_pci c))"
    using c(1) by (auto simp: vec_inv_def ran_def)
  ultimately show ?thesis
    using iocq_entry(8) [OF e0 refl]
    by (intro exI [of _ cid] exI [of _ "iocq_fill qi (phys_base cq) sz (last_vector (ctl_pci c)) e0"]
        exI [of _ q'] exI [of _ ?d]) simp
qed

section \<open>Doorbells\<close>

lemma doorbell_width: "d < 16 \<Longrightarrow> y < 65536 \<Longrightarrow> (4096 :: nat) + (2 * y + 1) * (4 * 2 ^ d) < 2 ^ 36"
proof -
  assume "d < 16" "y < (65536 :: nat)"
  then have "(2 :: nat) ^ d \<le> 2 ^ 15" by (intro power_increasing) simp_all
  then have "(2 * y + 1) * (4 * 2 ^ d) \<le> (2 * 65535 + 1) * (4 * 2 ^ 15)"
    using \<open>y < 65536\<close> by (intro mult_le_mono) simp_all
  then show ?thesis by simp
qed

text \<open>
  C36: The doorbells of a queue lie inside the mapped registers exactly as long as its identifier is
  small enough for the doorbell stride. The constructor maps two pages whatever the stride, so
  with the smallest stride the doorbells of queues up to 511 are mapped, and those of a namespace
  with a higher identifier, which the code accepts up to 65535, are not. The offset is assumed not to
  wrap around at 32 bits, which can only fail for strides of 14 and more.
\<close>

theorem doorbells_mapped:
  assumes m: "iomem_new attach bar (ucast (ctl_reg_off Reg_Sq0tdbl) + 1) = Inr io"
    and q: "unat (q_y cq) = y" "unat (q_dstrd cq) = d" "q_y sq = q_y cq" "q_dstrd sq = q_dstrd cq"
    and range: "4096 + (2 * y + 1) * (4 * 2 ^ d) < 2 ^ 32"
  shows "unat (tdbl sq) = 4096 + 2 * y * (4 * 2 ^ d) \<and> unat (hdbl cq) = 4096 + (2 * y + 1) * (4 * 2 ^ d) \<and>
    (unat (tdbl sq) + 4 \<le> unat (io_len io) \<longleftrightarrow> 2 * y * 2 ^ d < 1024) \<and>
    (unat (hdbl cq) + 4 \<le> unat (io_len io) \<longleftrightarrow> (2 * y + 1) * 2 ^ d < 1024)"
proof -
  have len: "unat (io_len io) = 8192"
  proof -
    have "io_len io = l4_round_page 0x1001" using m by (simp add: iomem_new_Inr_iff)
    then show ?thesis by (simp add: l4_round_page_def page_simps mask_eq_exp_minus_1)
  qed
  let ?s = "4 * 2 ^ d :: nat"
  have s: "1 * ?s \<le> (2 * y + 1) * ?s" by (rule mult_le_mono1) simp
  have y: "(2 * y + 1) * 4 \<le> (2 * y + 1) * ?s" by (rule mult_le_mono2) simp
  have "unat (push_bit d 4 :: u32) = ?s"
    using s range by (subst unsigned_push_bit_eq) (simp add: take_bit_eq_mod push_bit_eq_mult mult.commute)
  moreover have "unat (2 * q_y cq) = 2 * y" "unat (2 * q_y cq + 1) = 2 * y + 1"
    using y range by (simp_all add: unat_word_ariths q(1))
  moreover have "2 * y * ?s \<le> (2 * y + 1) * ?s" by (rule mult_le_mono1) simp
  ultimately have "unat (2 * q_y cq * push_bit d 4) = 2 * y * ?s"
    "unat ((2 * q_y cq + 1) * push_bit d 4) = (2 * y + 1) * ?s"
    using range by (simp_all add: unat_word_ariths(2) del: push_bit_numeral)
  then have "unat (tdbl sq) = 4096 + 2 * y * ?s" and "unat (hdbl cq) = 4096 + (2 * y + 1) * ?s"
    using range \<open>2 * y * ?s \<le> (2 * y + 1) * ?s\<close>
    by (simp_all add: tdbl_def hdbl_def q unat_word_ariths(1))
  then show ?thesis by (simp add: len) linarith
qed

section \<open>Witnesses\<close>

definition ex_asq :: "nat submission_queue" where
  "ex_asq = small_sq\<lparr>q_head := 0, sq_callbacks := [None, None], sq_tail := 0, sq_in_flight := 0\<rparr>"

definition ex_pci :: pci_dev where
  "ex_pci = \<lparr>msi_cap = \<lparr>cap_id = 0, cap_addr = 0, cap_ctrl = 0\<rparr>,
     msix_cap = \<lparr>cap_id = 0x11, cap_addr = 0x70, cap_ctrl = 0x1f\<rparr>,
     msix_table = None, vectors = [7 \<mapsto> 0], last_vector = 1\<rparr>"

definition ex_ctl :: "nat ctl" where
  "ex_ctl = \<lparr>use_sgls = True, use_msis = True, use_msixs = True, ctl_cap = 0, ctl_sgls = False,
     ctl_sn = [], ctl_mdts = 0, ctl_pci = ex_pci, ctl_iomem = \<lparr>io_vaddr = 0x1000, io_len = 8192\<rparr>,
     ctl_irq_trigger = 0, ctl_acq = run_cq, ctl_asq = ex_asq\<rparr>"

definition ex_irq_env :: irq_env where
  "ex_irq_env = \<lparr>ie_cfg = (\<lambda>_ _. Inr 0), ie_wr = (\<lambda>_. Inr ()), ie_attach = (\<lambda>_ _. Inr 0x5000),
     ie_scan_zero = first_clear, ie_icu_info = Inr (0, 0, 0), ie_register = Inr (),
     ie_legacy = Inr (11, 0), ie_bind = (\<lambda>_. Inr True),
     ie_msi_info = (\<lambda>_. Inr \<lparr>msi_addr = 0xfee00000, msi_data = 0x41\<rparr>),
     ie_unmask_cap = Inr (), ie_unmask_icu = (\<lambda>_. Inr ())\<rparr>"

lemma ex_asq_ok: "sq_inv (ctl_asq ex_ctl)" "sq_can_produce (ctl_asq ex_ctl)"
  by (simp_all add: ex_ctl_def ex_asq_def small_sq_def sq_inv_def occupied_def sq_can_produce_def
      is_full_def wrap_around_def)

lemma ex_cq: "completion_queue_new run_memory run_answers 2 (ucast (1 :: u16)) (ucast (cap_dstrd (ctl_cap ex_ctl))) = Inr run_cq"
  using run_cq_eq by (simp add: ex_ctl_def cap_dstrd_def bf_get_def)

lemma ex_sq: "submission_queue_new run_memory run_answers run_answers 2 (ucast (1 :: u16))
    (ucast (cap_dstrd (ctl_cap ex_ctl))) 0 = Inr run_sq"
  using run_sq_eq by (simp add: ex_ctl_def cap_dstrd_def bf_get_def)

lemma ex_msix: "vec_inv (ctl_pci ex_ctl)" "use_msixs ex_ctl" "msixs_supported (ctl_pci ex_ctl) \<noteq> 0"
  by (simp_all add: ex_ctl_def ex_pci_def vec_inv_def Icu_F_msi_def msixs_supported_def Cap_Msi_x_def
      cap_msixs_supported_pos)

lemma ex_enabled: "msis_enabled small_icu ex_ctl"
  using ex_msix(2,3) by (simp add: msis_enabled_def icu_msis_supported_def small_icu_def Icu_F_msi_def)

theorem create_queue_commands_witness:
  "(\<exists>cid e q'.
    create_iocq run_memory run_answers 1 2 3 9 ex_ctl =
      Inr (run_cq, sq_submit q', ex_ctl\<lparr>ctl_asq := q', ctl_pci := snd (get_local_vector 3 (ctl_pci ex_ctl))\<rparr>) \<and>
    issued 9 cid e (ctl_asq ex_ctl) q' \<and> sqe_opc e = 5 \<and> sqe_qid e = 1) \<and>
   (\<exists>cid e q'.
    create_iosq run_memory run_answers run_answers 1 2 0 9 ex_ctl =
      Inr (run_sq, sq_submit q', ex_ctl\<lparr>ctl_asq := q'\<rparr>) \<and>
    issued 9 cid e (ctl_asq ex_ctl) q' \<and> sqe_opc e = 1 \<and> sqe_qid e = 1 \<and> sqe_cqid e = 1)"
proof -
  have "1 < (2 :: u16)" by simp
  from create_queue_commands [OF ex_asq_ok this ex_cq ex_sq, where iv = 3 and cb = 9] show ?thesis by blast
qed

lemma ex_handler: "\<exists>r. register_interrupt_handler ex_irq_env small_icu ex_ctl = Inr r"
  using ex_enabled flagged [of 1] ex_msix
  by (simp add: register_interrupt_handler_def ex_irq_env_def small_icu_alloc ctl_enable_msi_def
      enable_msix_def msix_table_address_def cfg_read_32_def iomem_new_def ex_ctl_def Let_def
      case_prod_unfold)

theorem register_interrupt_handler_order_witness:
  "\<exists>evs i' c' n info ops v. register_interrupt_handler ex_irq_env small_icu ex_ctl = Inr (evs, i', c') \<and>
    icu_alloc_msi first_clear small_icu = Inr (n, i') \<and>
    ie_msi_info ex_irq_env (n OR Icu_F_msi) = Inr info \<and>
    evs = [Ev_register, Ev_bind (n OR Icu_F_msi), Ev_msi_info (n OR Icu_F_msi), Ev_unmask_cap] @ ops @
      [Ev_read_mask] @ mask_writes ex_ctl \<and>
    vectors (ctl_pci c') ((n OR Icu_F_msi) AND NOT Icu_F_msi) = Some v \<and> ops = table_message v info \<and>
    (\<forall>ev \<in> set ops. programs_msi ev) \<and> ctl_irq_trigger c' = 1"
proof -
  obtain evs i' c' where r: "register_interrupt_handler ex_irq_env small_icu ex_ctl = Inr (evs, i', c')"
    using ex_handler by auto
  have "\<forall>irq t. ie_legacy ex_irq_env = Inr (irq, t) \<longrightarrow> irq AND Icu_F_msi = 0"
    by (simp add: ex_irq_env_def Icu_F_msi_def)
  note p = register_interrupt_handler_order [OF r this]
  have "msis_enabled small_icu ex_ctl \<and> (\<exists>a. icu_alloc_msi (ie_scan_zero ex_irq_env) small_icu = Inr a)"
    using ex_enabled by (simp add: ex_irq_env_def small_icu_alloc)
  from p [unfolded if_P [OF this]] r ex_msix(2,3) show ?thesis
    by (auto simp: ex_irq_env_def)
qed

lemma ex_allocated: "\<exists>evs i' c'. allocate_msi ex_irq_env small_icu ex_ctl = Inr (1, evs, i', c') \<and> evs \<noteq> []"
  using ex_enabled flagged [of 1] ex_msix
  by (simp add: allocate_msi_def ex_irq_env_def small_icu_alloc ctl_enable_msi_def
      enable_msix_def msix_table_address_def cfg_read_32_def iomem_new_def ex_ctl_def Let_def
      case_prod_unfold)

theorem namespace_vector_programmed_witness:
  "\<exists>evs i' c'. allocate_msi ex_irq_env small_icu ex_ctl = Inr (1, evs, i', c') \<and>
    (\<exists>v info cid e q' d. ie_msi_info ex_irq_env (1 OR Icu_F_msi) = Inr info \<and>
    evs = [Ev_register, Ev_bind (1 OR Icu_F_msi), Ev_msi_info (1 OR Icu_F_msi), Ev_unmask_cap,
      Ev_table (Table_write (v * 16 + 0) (ucast (msi_addr info AND 0xffffffff))),
      Ev_table (Table_write (v * 16 + 4) (ucast (drop_bit 32 (msi_addr info)))),
      Ev_table (Table_write (v * 16 + 8) (msi_data info)), Ev_table (Table_clear (v * 16 + 12) 1)] \<and>
    create_iocq run_memory run_answers 1 2 1 9 c' = Inr (run_cq, sq_submit q', c'\<lparr>ctl_asq := q', ctl_pci := d\<rparr>) \<and>
    issued 9 cid e (ctl_asq ex_ctl) q' \<and> sqe_iv e = ucast v)"
proof -
  obtain evs i' c' where a: "allocate_msi ex_irq_env small_icu ex_ctl = Inr (1, evs, i', c')" "evs \<noteq> []"
    using ex_allocated by blast
  have "bitmap_scan (ie_scan_zero ex_irq_env)"
    using first_clear.bitmap_scan_axioms by (simp add: ex_irq_env_def)
  note p = namespace_vector_programmed [OF this small_icu_inv ex_msix a ex_asq_ok ex_cq, of 9]
  show ?thesis by (rule exI [of _ evs], rule exI [of _ i'], rule exI [of _ c'], rule conjI [OF a(1) p])
qed

definition full_icu :: icu where
  "full_icu = small_icu\<lparr>icu_msis := (icu_msis small_icu)\<lparr>mb_max_available := 0\<rparr>\<rparr>"

lemma full_icu_alloc: "icu_alloc_msi (ie_scan_zero ex_irq_env) full_icu = Inl L4_ENOMEM"
  by (simp add: icu_alloc_msi_def msi_bitmap_alloc_def full_icu_def Let_def)

theorem fallback_vector_unprogrammed_witness:
  "\<exists>cid e q' d. allocate_msi ex_irq_env full_icu ex_ctl = Inr (0, [], full_icu, ex_ctl) \<and>
    create_iocq run_memory run_answers 1 2 0 9 ex_ctl =
      Inr (run_cq, sq_submit q', ex_ctl\<lparr>ctl_asq := q', ctl_pci := d\<rparr>) \<and>
    issued 9 cid e (ctl_asq ex_ctl) q' \<and> sqe_iv e = ucast (last_vector (ctl_pci ex_ctl)) \<and>
    last_vector (ctl_pci ex_ctl) \<notin> ran (vectors (ctl_pci ex_ctl))"
  by (rule fallback_vector_unprogrammed [OF full_icu_alloc ex_msix(1) _ ex_asq_ok ex_cq])
    (simp add: ex_ctl_def ex_pci_def)

theorem doorbells_mapped_witness:
  "unat (tdbl (run_sq\<lparr>q_y := 512\<rparr>)) = 4096 + 2 * 512 * (4 * 2 ^ 0) \<and>
    \<not> unat (tdbl (run_sq\<lparr>q_y := 512\<rparr>)) + 4 \<le> 8192"
proof -
  have "iomem_new (\<lambda>_ _. Inr 0) 0xf0000000 (ucast (ctl_reg_off Reg_Sq0tdbl) + 1) =
      Inr \<lparr>io_vaddr = 0, io_len = 8192\<rparr>"
    by (simp add: iomem_new_Inr_iff l4_round_page_def page_simps mask_eq_exp_minus_1)
  from doorbells_mapped [OF this, of "run_cq\<lparr>q_y := 512\<rparr>" 512 0 "run_sq\<lparr>q_y := 512\<rparr>"]
    submission_queue_new_fields(3) [OF run_sq_eq] completion_queue_new_fields(3) [OF run_cq_eq]
  show ?thesis by simp
qed

definition ex_env :: ctl_env where
  "ex_env = \<lparr>env_cfg = (\<lambda>reg _. Inr (if reg = 8 then 0x01080200 else 0)), env_wr = (\<lambda>_. Inr ()), env_attach = (\<lambda>_ _. Inr 0x5000),
     env_dev = (\<lambda>h reg. if reg = 4 then 0x20
       else if reg = 0x1c \<and> Mmio_write 0x14 0x00460001 \<in> set h then 1 else 0),
     env_mem = run_memory, env_acq_buf = run_answers, env_asq_buf = run_answers,
     env_asq_prps = run_answers, env_use_sgls = True, env_use_msis = True, env_use_msixs = True,
     env_uninit_ctrl = 0, env_uninit_ctrlx = 0, env_uninit_trigger = 0, env_uninit_mdts = 0\<rparr>"

lemma ex_cap: "cap_css 0x2000000000 = 1" "cap_dstrd 0x2000000000 = 0" "cap_mpsmin 0x2000000000 = 0"
    "cap_mpsmax 0x2000000000 = 0"
  by (simp_all add: cap_css_def cap_dstrd_def cap_mpsmin_def cap_mpsmax_def bf_get_def)

lemma ex_rdy: "csts_rdy 0 = 0" "csts_rdy 1 = 1"
  by (simp_all add: csts_rdy_def bf_get_def)

lemma ex_wait: "\<exists>h'. wait_rdy (env_dev ex_env) True (mmio_write 0x14 0x00460001 h) = Some h'"
  by (subst wait_rdy_unfold) (simp add: poll_ready_def ex_env_def mmio_write_def ex_rdy)

lemma ex_reset: "Mmio_write 0x14 0x00460001 \<notin> set h \<Longrightarrow> \<exists>h'. ctl_reset (env_dev ex_env) h = Some h'"
  by (simp add: ctl_reset_def mmio_read_def ex_env_def ex_rdy)

lemma ex_start:
  assumes "Mmio_write 0x14 0x00460001 \<notin> set h"
  shows "\<exists>r. ctl_start ex_env 0x2000000000 h = Inr (r :: completion_queue \<times> 'cb submission_queue \<times> cfg_write list \<times> mmio_op list)"
proof -
  obtain h1 where h1: "ctl_reset (env_dev ex_env) h = Some h1" using ex_reset [OF assms] by blast
  have "\<exists>q. submission_queue_new run_memory run_answers run_answers 2 0 0 0 = Inr (q :: 'cb submission_queue)"
    "\<exists>q. completion_queue_new run_memory run_answers 2 0 0 = Inr q"
    by (simp_all add: run_eval)
  then obtain asq :: "'cb submission_queue" and acq where q:
    "submission_queue_new run_memory run_answers run_answers 2 0 0 0 = Inr asq"
    "completion_queue_new run_memory run_answers 2 0 0 = Inr acq" by blast
  obtain h2 where h2: "wait_rdy (env_dev ex_env) True (mmio_write 0x14 0x00460001
      (write_queue_addresses (phys_base acq) (phys_base asq) (mmio_write 0x24 0x00010001 h1))) = Some h2"
    using ex_wait by blast
  have e: "env_mem ex_env = run_memory" "env_acq_buf ex_env = run_answers" "env_asq_buf ex_env = run_answers"
    "env_asq_prps ex_env = run_answers" "env_cfg ex_env = (\<lambda>reg _. Inr (if reg = 8 then 0x01080200 else 0))" "env_wr ex_env = (\<lambda>_. Inr ())"
    by (simp_all add: ex_env_def)
  show ?thesis
    using h1 h2 q
    by (simp add: ctl_start_def or_hang_def ctl_register_values ex_cap e Aq_id_def cfg_read_16_def
        cfg_write_16_def Let_def)
qed

lemma ex_new: "\<exists>r. ctl_new ex_env i = Inr (r :: 'cb ctl \<times> cfg_write list \<times> mmio_op list)"
proof -
  have msi: "\<exists>r. ctl_setup_msi ex_env i = Inr r"
    by (simp add: ctl_setup_msi_def ex_env_def detect_msi_support_def cfg_read_16_def pci_dev_new_def
        msixs_supported_def msis_supported_def Cap_Msi_def Cap_Msi_x_def)
  let ?h = "[Mmio_read 0 0, Mmio_read 4 0x20, Mmio_read 8 0]"
  obtain r :: "completion_queue \<times> 'cb submission_queue \<times> cfg_write list \<times> mmio_op list" where
    "ctl_start ex_env 0x2000000000 ?h = Inr r"
    using ex_start [of ?h] by auto
  moreover have "env_dev ex_env [] 0 = 0" "env_dev ex_env [Mmio_read 0 0] 4 = 0x20"
    "env_dev ex_env [Mmio_read 0 0, Mmio_read 4 0x20] 8 = 0"
    "env_cfg ex_env = (\<lambda>reg _. Inr (if reg = 8 then 0x01080200 else 0))" "env_attach ex_env = (\<lambda>_ _. Inr 0x5000)"
    by (simp_all add: ex_env_def)
  ultimately show ?thesis
    using msi by (auto simp: ctl_new_def cfg_read_bar_def cfg_read_32_def iomem_new_def mmio_read_def
        Let_def ex_cap case_prod_unfold)
qed

theorem ctl_new_bring_up_witness:
  "\<exists>c ws h pre. ctl_new ex_env small_icu = Inr (c :: nat ctl, ws, h) \<and>
    mmio_writes h = pre @ bring_up_writes (phys_base (ctl_acq c)) (phys_base (ctl_asq c)) \<and>
    sq_inv (ctl_asq c) \<and> sq_can_produce (ctl_asq c) \<and> cq_tracks (ctl_acq c) [] 0"
proof -
  obtain c :: "nat ctl" and ws h where c: "ctl_new ex_env small_icu = Inr (c, ws, h)"
    using ex_new [of small_icu] by auto
  from ctl_new_bring_up [OF c] c show ?thesis by blast
qed

end
