(* ===== verification/Namespace_Irq.thy ===== *)
theory Namespace_Irq
  imports Namespaces
begin

text \<open>
  The interrupt handler of a namespace (\<^verbatim>\<open>Namespace::handle_irq\<close>) against the sequence of entries
  the controller has posted: the handler returns, with every posted entry handled once and in order,
  whatever requests the callbacks issue on the way.
\<close>

section \<open>The client\<close>

text \<open>
  What a callback may do to the namespace: it may issue commands, but leaves the completion queue,
  the identity of the namespace and the outstanding commands alone.
\<close>

definition keeps_namespace :: "('cb \<Rightarrow> u16 \<Rightarrow> 'cb namespace \<Rightarrow> 'cb namespace) \<Rightarrow> bool" where
  "keeps_namespace run \<longleftrightarrow>
     (\<forall>cb st ns q. ns_iosq ns = Some q \<and> sq_inv q \<longrightarrow>
        ns_iocq (run cb st ns) = ns_iocq ns \<and> ns_nsid (run cb st ns) = ns_nsid ns \<and>
        (\<exists>q'. ns_iosq (run cb st ns) = Some q' \<and> sq_inv q' \<and> q_size q' = q_size q \<and>
           pending q \<subseteq>\<^sub>m pending q'))"

lemma keeps_namespaceD:
  assumes "keeps_namespace run" and "ns_iosq ns = Some q" and "sq_inv q"
  obtains q' where "ns_iosq (run cb st ns) = Some q'" and "sq_inv q'" and "q_size q' = q_size q"
    and "pending q \<subseteq>\<^sub>m pending q'" and "ns_iocq (run cb st ns) = ns_iocq ns"
    and "ns_nsid (run cb st ns) = ns_nsid ns"
  using assms unfolding keeps_namespace_def by blast

text \<open>Issuing a command, or finding no room for one, is such a behaviour.\<close>

lemma issued_pending_le: "issued cb cid e q q' \<Longrightarrow> pending q \<subseteq>\<^sub>m pending q'"
  by (auto simp: issued_def map_le_def)

lemma keeps_namespace_issue:
  assumes "\<And>cb st ns q. ns_iosq ns = Some q \<Longrightarrow> sq_inv q \<Longrightarrow>
    run cb st ns = ns \<or> (\<exists>q' cb' cid e. issued cb' cid e q q' \<and> run cb st ns = ns\<lparr>ns_iosq := Some q'\<rparr>)"
  shows "keeps_namespace run"
  unfolding keeps_namespace_def
proof (intro allI impI)
  fix cb st and ns :: "'a namespace" and q
  assume q: "ns_iosq ns = Some q \<and> sq_inv q"
  from assms [of ns q cb st] q consider "run cb st ns = ns"
    | q' cb' cid e where "issued cb' cid e q q'" "run cb st ns = ns\<lparr>ns_iosq := Some q'\<rparr>" by blast
  then show "ns_iocq (run cb st ns) = ns_iocq ns \<and> ns_nsid (run cb st ns) = ns_nsid ns \<and>
      (\<exists>q'. ns_iosq (run cb st ns) = Some q' \<and> sq_inv q' \<and> q_size q' = q_size q \<and>
         pending q \<subseteq>\<^sub>m pending q')"
  proof cases
    case 1
    then show ?thesis using q by (simp add: map_le_refl)
  next
    case 2
    from 2(1) have "sq_inv q' \<and> q_size q' = q_size q" by (simp add: issued_def)
    with 2 issued_pending_le [OF 2(1)] show ?thesis by simp
  qed
qed

section \<open>Draining the completion queue\<close>

text \<open>
  Entries a correct controller may have posted: each names the namespace's queue, an outstanding
  command and a head inside the ring, and no command twice.
\<close>

definition answers :: "'cb namespace \<Rightarrow> 'cb submission_queue \<Rightarrow> cqe list \<Rightarrow> bool" where
  "answers ns q cs \<longleftrightarrow>
     distinct (map cqe_cid cs) \<and>
     (\<forall>c \<in> set cs. cqe_sqid c = ucast (ns_nsid ns) \<and> completes q c)"

definition owed :: "'cb submission_queue \<Rightarrow> cqe \<Rightarrow> 'cb \<times> u16" where
  "owed q c = (the (pending q (cqe_cid c)), cqe_sf c)"

lemma answers_step:
  assumes a: "answers ns q (c # cs)" and inv: "sq_inv q"
    and le: "pending (sq_completed c q) \<subseteq>\<^sub>m pending q2" and sz: "q_size q2 = q_size q"
    and id: "ns_nsid ns2 = ns_nsid ns"
  shows "answers ns2 q2 cs" and "map (owed q2) cs = map (owed q) cs"
proof -
  have c: "completes q c" using a by (simp add: answers_def)
  have keep: "pending q2 (cqe_cid d) = pending q (cqe_cid d) \<and> cqe_cid d \<in> dom (pending q2)"
    if d: "d \<in> set cs" for d
  proof -
    have "cqe_cid d \<in> cqe_cid ` set cs" using d by simp
    with a have "cqe_cid d \<noteq> cqe_cid c" by (simp add: answers_def) metis
    moreover have "completes q d" using a d by (simp add: answers_def)
    ultimately have "cqe_cid d \<in> dom (pending (sq_completed c q))"
      "pending (sq_completed c q) (cqe_cid d) = pending q (cqe_cid d)"
      using sq_completed_inv(2) [OF inv c] by (auto simp: completes_def)
    with le show ?thesis by (metis domIff map_le_def)
  qed
  then show "answers ns2 q2 cs"
    using a sz id by (auto simp: answers_def completes_def)
  show "map (owed q2) cs = map (owed q) cs"
    using keep by (simp add: owed_def)
qed

lemma ns_irq_round_empty:
  assumes "ns_iocq ns = Some cq" and "ns_iosq ns = Some q" and "cq_tracks cq posted (length posted)"
  shows "ns_irq_round run ns = Inr None"
  using assms cq_consume_empty [OF assms(3)] by (simp add: ns_irq_round_def)

lemma ns_irq_round_next:
  assumes run: "keeps_namespace run" and id: "ns_nsid ns < 65536"
    and q: "ns_iocq ns = Some cq" "ns_iosq ns = Some q" "sq_inv q"
    and t: "cq_tracks cq posted m" "m < length posted"
    and a: "answers ns q (drop m posted)"
  obtains ev ns1 cq1 q1 where "ns_irq_round run ns = Inr (Some (ev, ns1))"
    and "fst ev = owed q (posted ! m)" and "snd ev = (hdbl cq, of_nat (Suc m mod unat (q_size cq)))"
    and "ns_iocq ns1 = Some cq1" and "cq_tracks cq1 posted (Suc m)"
    and "q_size cq1 = q_size cq" and "hdbl cq1 = hdbl cq"
    and "ns_iosq ns1 = Some q1" and "sq_inv q1" and "ns_nsid ns1 = ns_nsid ns"
    and "answers ns1 q1 (drop (Suc m) posted)"
    and "map (owed q1) (drop (Suc m) posted) = map (owed q) (drop (Suc m) posted)"
proof -
  let ?c = "posted ! m"
  obtain cq1 where cq1: "cq_consume cq = (Some ?c, cq1)" "cq_tracks cq1 posted (Suc m)"
    "q_size cq1 = q_size cq" "q_y cq1 = q_y cq" "q_dstrd cq1 = q_dstrd cq"
    by (rule cq_consume_next [OF t])
  have drop: "drop m posted = ?c # drop (Suc m) posted" using t(2) by (simp add: Cons_nth_drop_Suc)
  have c: "cqe_sqid ?c = ucast (ns_nsid ns)" "completes q ?c" using a by (simp_all add: drop answers_def)
  then obtain cb where cb: "pending q (cqe_cid ?c) = Some cb" by (auto simp: completes_def)
  note sq1 = sq_complete_ok [OF q(3) cb] sq_completed_inv [OF q(3) c(2)]
  let ?ns = "ns\<lparr>ns_iocq := Some cq1, ns_iosq := Some (sq_completed ?c q)\<rparr>"
  obtain q2 where q2: "ns_iosq (run cb (cqe_sf ?c) ?ns) = Some q2" "sq_inv q2"
    "q_size q2 = q_size (sq_completed ?c q)" "pending (sq_completed ?c q) \<subseteq>\<^sub>m pending q2"
    "ns_iocq (run cb (cqe_sf ?c) ?ns) = ns_iocq ?ns" "ns_nsid (run cb (cqe_sf ?c) ?ns) = ns_nsid ?ns"
    by (rule keeps_namespaceD [OF run, of ?ns "sq_completed ?c q" cb "cqe_sf ?c"]) (use sq1(2) in simp_all)
  let ?ns2 = "run cb (cqe_sf ?c) ?ns"
  have round: "ns_irq_round run ns = Inr (Some (((cb, cqe_sf ?c), cq_complete cq1), ?ns2))"
    using q(1,2) cq1(1) c(1) id sq1(1) q2(5) by (simp add: ns_irq_round_def ns_qid_def)
  have "unat (q_head cq1) = Suc m mod unat (q_size cq)" using cq_tracksD(3) [OF cq1(2)] cq1(3) by simp
  then have "ucast (q_head cq1) = (of_nat (Suc m mod unat (q_size cq)) :: u32)"
    by (metis of_nat_unat)
  then have bell: "cq_complete cq1 = (hdbl cq, of_nat (Suc m mod unat (q_size cq)))"
    by (simp add: cq_complete_def hdbl_def cq1(4,5))
  have sz: "q_size q2 = q_size q" using q2(3) by (simp add: sq_completed_def)
  have id2: "ns_nsid ?ns2 = ns_nsid ns" using q2(6) by simp
  note st = answers_step [OF a [unfolded drop] q(3) q2(4) sz id2]
  show ?thesis
    by (rule that [OF round _ _ _ cq1(2,3) _ q2(1,2) id2 st])
      (use cb bell q2(5) cq1(4,5) in \<open>simp_all add: owed_def hdbl_def\<close>)
qed

lemma ns_irq_loop_drains:
  assumes "keeps_namespace run" and "ns_nsid ns < 65536"
    and "ns_iocq ns = Some cq" and "ns_iosq ns = Some q" and "sq_inv q"
    and "cq_tracks cq posted m" and "answers ns q (drop m posted)"
  shows "\<exists>evs ns' cq' q'. ns_irq_loop run acc ns = Some (Inr (acc @ evs, ns')) \<and>
    map fst evs = map (owed q) (drop m posted) \<and>
    map snd evs = map (\<lambda>k. (hdbl cq, of_nat (Suc k mod unat (q_size cq)))) [m..<length posted] \<and>
    ns_iocq ns' = Some cq' \<and> cq_tracks cq' posted (length posted) \<and>
    ns_iosq ns' = Some q' \<and> sq_inv q'"
  using assms
proof (induction "length posted - m" arbitrary: m ns cq q acc)
  case 0
  then have "m = length posted" using cq_tracksD(5) [OF 0(7)] by simp
  with 0 show ?case
    using ns_irq_round_empty [of ns cq q posted run] by (simp add: ns_irq_loop.simps [of run acc ns])
next
  case (Suc d)
  then have m: "m < length posted" by simp
  obtain ev ns1 cq1 q1 where r: "ns_irq_round run ns = Inr (Some (ev, ns1))"
    "fst ev = owed q (posted ! m)" "snd ev = (hdbl cq, of_nat (Suc m mod unat (q_size cq)))"
    "ns_iocq ns1 = Some cq1" "cq_tracks cq1 posted (Suc m)" "q_size cq1 = q_size cq" "hdbl cq1 = hdbl cq"
    "ns_iosq ns1 = Some q1" "sq_inv q1" "ns_nsid ns1 = ns_nsid ns"
    "answers ns1 q1 (drop (Suc m) posted)"
    "map (owed q1) (drop (Suc m) posted) = map (owed q) (drop (Suc m) posted)"
    by (rule ns_irq_round_next [OF Suc.prems(1-6) m Suc.prems(7)])
  have "d = length posted - Suc m" and "ns_nsid ns1 < 65536" using Suc.hyps(2) Suc.prems(2) r(10) by simp_all
  from Suc.hyps(1) [OF this(1) Suc.prems(1) this(2) r(4,8,9,5,11), of "acc @ [ev]"]
  obtain evs ns' cq' q' where IH:
    "ns_irq_loop run (acc @ [ev]) ns1 = Some (Inr ((acc @ [ev]) @ evs, ns'))"
    "map fst evs = map (owed q1) (drop (Suc m) posted)"
    "map snd evs = map (\<lambda>k. (hdbl cq1, of_nat (Suc k mod unat (q_size cq1)))) [Suc m..<length posted]"
    "ns_iocq ns' = Some cq'" "cq_tracks cq' posted (length posted)" "ns_iosq ns' = Some q'" "sq_inv q'"
    by blast
  have "ns_irq_loop run acc ns = Some (Inr (acc @ ev # evs, ns'))"
    using IH(1) r(1) by (simp add: ns_irq_loop.simps [of run acc ns])
  moreover have "drop m posted = posted ! m # drop (Suc m) posted" using m by (simp add: Cons_nth_drop_Suc)
  moreover have "[m..<length posted] = m # [Suc m..<length posted]" using m by (simp add: upt_conv_Cons)
  ultimately show ?case
    using IH(2-) r(2,3,6,7,12)
    by (intro exI [of _ "ev # evs"] exI [of _ ns'] exI [of _ cq'] exI [of _ q']) simp
qed

section \<open>The contract of the handler\<close>

text \<open>
  C8: The interrupt handler of a namespace returns, and by then it has called the callback of every
  entry that was posted and not yet consumed, once each, in the order the entries were posted, with
  the status of its own entry; after each one it has told the controller the new head; and the
  completion queue is empty and both queues consistent again. This holds for every client that
  leaves other commands alone, also when its callbacks issue new requests.
\<close>

theorem ns_handle_irq_drains:
  assumes "keeps_namespace run" and "ns_nsid ns < 65536"
    and "ns_iocq ns = Some cq" and "ns_iosq ns = Some q" and "sq_inv q"
    and "cq_tracks cq posted m" and "answers ns q (drop m posted)"
  shows "\<exists>evs ns' cq' q'. ns_handle_irq run ns = Inr (evs, ns') \<and>
    map fst evs = map (\<lambda>c. (the (pending q (cqe_cid c)), cqe_sf c)) (drop m posted) \<and>
    map snd evs = map (\<lambda>k. (hdbl cq, of_nat (Suc k mod unat (q_size cq)))) [m..<length posted] \<and>
    ns_iocq ns' = Some cq' \<and> cq_consume cq' = (None, cq') \<and> cq_tracks cq' posted (length posted) \<and>
    ns_iosq ns' = Some q' \<and> sq_inv q'"
proof -
  from ns_irq_loop_drains [OF assms, of "[]"] obtain evs ns' cq' q' where
    "ns_irq_loop run [] ns = Some (Inr (evs, ns'))"
    "map fst evs = map (owed q) (drop m posted)"
    "map snd evs = map (\<lambda>k. (hdbl cq, of_nat (Suc k mod unat (q_size cq)))) [m..<length posted]"
    "ns_iocq ns' = Some cq'" "cq_tracks cq' posted (length posted)" "ns_iosq ns' = Some q'" "sq_inv q'"
    by auto
  then show ?thesis
    using cq_consume_empty [of cq' posted "length posted"]
    by (simp add: ns_handle_irq_def owed_def [abs_def])
qed

definition irq_cqe :: "u32 \<Rightarrow> cqe" where
  "irq_cqe dw3 = \<lparr>cqe_dw0 = 0, cqe_dw1 = 0, cqe_dw2 = 0x10000, cqe_dw3 = dw3\<rparr>"

definition irq_posted :: "cqe list" where
  "irq_posted = [irq_cqe 0x10000, irq_cqe 0x30001]"

definition irq_cq :: completion_queue where
  "irq_cq = ring_cq\<lparr>cq_entries := irq_posted\<rparr>"

definition irq_sq :: "nat submission_queue" where
  "irq_sq = small_sq\<lparr>sq_callbacks := [None, Some 7]\<rparr>"

definition irq_ns :: "nat namespace" where
  "irq_ns = \<lparr>ns_msi = 0, ns_iocq = Some irq_cq, ns_iosq = Some irq_sq,
     ns_nsid = 1, ns_nsze = 0x1000, ns_lba_sz = 512, ns_ro = False, ns_dlfeat = 0\<rparr>"

lemma irq_setup:
  "ns_nsid irq_ns < 65536" "ns_iocq irq_ns = Some irq_cq" "ns_iosq irq_ns = Some irq_sq" "sq_inv irq_sq"
  "answers irq_ns irq_sq (drop 1 irq_posted)"
  by (simp_all add: irq_ns_def irq_sq_def small_sq_def sq_inv_def occupied_def answers_def irq_posted_def
      irq_cqe_def completes_def domIff pending_def cqe_fields bf_get_def)

lemma irq_tracks: "cq_tracks irq_cq irq_posted 1"
proof -
  have window: "k < 2 \<Longrightarrow> 1 \<le> k \<Longrightarrow> k = 1" "k < 3 \<Longrightarrow> 2 \<le> k \<Longrightarrow> k = 2" for k :: nat
    by simp_all
  then show ?thesis
    by (auto simp: cq_tracks_def irq_cq_def ring_cq_def irq_posted_def irq_cqe_def lap_phase_def
        cqe_p_def bf_get_def dest!: window)
qed

lemma keeps_namespace_idle: "keeps_namespace (\<lambda>_ _ ns. ns)"
  by (rule keeps_namespace_issue) simp

theorem ns_handle_irq_drains_witness:
  "\<exists>evs ns' cq' q'. ns_handle_irq (\<lambda>_ _ ns. ns) irq_ns = Inr (evs, ns') \<and>
    map fst evs = map (\<lambda>c. (the (pending irq_sq (cqe_cid c)), cqe_sf c)) (drop 1 irq_posted) \<and>
    map snd evs = map (\<lambda>k. (hdbl irq_cq, of_nat (Suc k mod unat (q_size irq_cq)))) [1..<length irq_posted] \<and>
    ns_iocq ns' = Some cq' \<and> cq_consume cq' = (None, cq') \<and> cq_tracks cq' irq_posted (length irq_posted) \<and>
    ns_iosq ns' = Some q' \<and> sq_inv q'"
  by (rule ns_handle_irq_drains [OF keeps_namespace_idle irq_setup(1-4) irq_tracks irq_setup(5)])

end
