(* ===== verification/Admin_Rounds.thy ===== *)
theory Admin_Rounds
  imports Identification Controller_Laws Namespace_Irq
begin

text \<open>
  The admin queues of theory Identification against a controller that answers the admin commands: at
  most one command is ever outstanding, and one round of the interrupt handler takes its answer and
  runs its callback; and surroundings in which the services of L4Re succeed.
\<close>

section \<open>A controller that answers admin commands\<close>

text \<open>
  The status (15 bits) and data it answers with: to Identify Controller, to Identify Namespace by
  NSID, and the status of the creation of queues by queue identifier.
\<close>

record ctl_answers =
  ca_ctl :: "u16 \<times> bytes"
  ca_ns :: "u32 \<Rightarrow> u16 \<times> bytes"
  ca_iocq :: "u16 \<Rightarrow> u16"
  ca_iosq :: "u16 \<Rightarrow> u16"

text \<open>The answer to the command in a submission queue entry; other commands are refused.\<close>

definition answer_to :: "ctl_answers \<Rightarrow> sqe \<Rightarrow> u16 \<times> bytes" where
  "answer_to a e =
     (if sqe_opc e = acs_code Identify then
        (if sqe_cns e = cns_code Identify_controller then ca_ctl a
         else if sqe_cns e = cns_code Identify_namespace then ca_ns a (sqe_nsid e)
         else (1, \<lambda>_. 0))
      else if sqe_opc e = acs_code Create_iocq then (ca_iocq a (sqe_qid e), \<lambda>_. 0)
      else if sqe_opc e = acs_code Create_iosq then (ca_iosq a (sqe_qid e), \<lambda>_. 0)
      else (1, \<lambda>_. 0))"

text \<open>
  The controller's answer in the state it finds: it posts a completion entry for the command that
  follows the head, if the tail doorbell has moved, and delivers the data to the address of the
  command. Everything else in the surroundings is \<open>env\<close>.
\<close>

definition answering :: "ctl_answers \<Rightarrow> step_env \<Rightarrow> 'io driver \<Rightarrow> step_env" where
  "answering a env st =
     (let sq = ctl_asq (dr_ctl st); cq = ctl_acq (dr_ctl st); e = sq_entries sq ! unat (q_head sq) in
      if sq_tail sq = q_head sq then env\<lparr>se_post := (\<lambda>es. es)\<rparr>
      else env
        \<lparr>se_post := (\<lambda>es. es[unat (q_head cq) :=
            cqe_make (sq_tail sq) Aq_id (sqe_cid e) (cq_p cq) (take_bit 15 (fst (answer_to a e)))]),
         se_data := (\<lambda>b. if inout_buffer_pget b 0 = sqe_prp1 e then snd (answer_to a e) else se_data env b)\<rparr>)"

text \<open>One interrupt's worth of work after such an answer, and any number of them.\<close>

definition admin_round ::
  "ctl_answers \<Rightarrow> step_env \<Rightarrow> 'io driver \<Rightarrow> (drv_event list \<times> 'io driver) option drv_result" where
  "admin_round a env st = acq_round (answering a env st) (see_ring (answering a env st) st)"

primrec rounds :: "ctl_answers \<Rightarrow> (nat \<Rightarrow> step_env) \<Rightarrow> nat \<Rightarrow> 'io driver \<Rightarrow> 'io step_result" where
  "rounds a envs 0 st = Inr ([], st)"
| "rounds a envs (Suc k) st =
     bind_res (admin_round a (envs 0) st) (\<lambda>r.
       case r of None \<Rightarrow> Inr ([], st)
       | Some (evs, st1) \<Rightarrow> and_then (Inr (evs, st1)) (rounds a (\<lambda>i. envs (Suc i)) k))"

section \<open>The admin queues between two rounds\<close>

definition acq_quiet :: "'io driver \<Rightarrow> bool" where
  "acq_quiet st \<longleftrightarrow> (\<exists>posted. cq_tracks (ctl_acq (dr_ctl st)) posted (length posted))"

definition admin_idle :: "'io driver \<Rightarrow> bool" where
  "admin_idle st \<longleftrightarrow>
     (let q = ctl_asq (dr_ctl st) in
      sq_inv q \<and> q_size q = 2 \<and> pending q = Map.empty \<and> sq_tail q = q_head q \<and> acq_quiet st)"

text \<open>One command is outstanding, with this entry and callback.\<close>

definition admin_busy :: "sqe \<Rightarrow> admin_cb \<Rightarrow> 'io driver \<Rightarrow> bool" where
  "admin_busy e cb st \<longleftrightarrow>
     (let q = ctl_asq (dr_ctl st) in
      sq_inv q \<and> q_size q = 2 \<and> pending q = [sqe_cid e \<mapsto> cb] \<and>
      sq_entries q ! unat (q_head q) = e \<and> sq_tail q = wrap_around 2 (q_head q + 1) \<and> acq_quiet st)"

lemma pending_empty_occupied:
  assumes "pending q = Map.empty" and "sq_inv q"
  shows "occupied (sq_callbacks q) = 0"
proof (rule ccontr)
  assume "occupied (sq_callbacks q) \<noteq> 0"
  then obtain x where "x \<in> set (sq_callbacks q)" "x \<noteq> None"
    by (auto simp: occupied_def filter_empty_conv)
  then obtain i where i: "i < length (sq_callbacks q)" "sq_callbacks q ! i \<noteq> None"
    by (auto simp: in_set_conv_nth)
  have "unat (q_size q) < 65536" using unsigned_less [of "q_size q"] by simp
  with i(1) sq_invD(3) [OF assms(2)] have "i < 65536" by simp
  then have "unat (of_nat i :: u16) = i" by (simp add: unat_of_nat)
  with i have "pending q (of_nat i) \<noteq> None" by (simp add: pending_def)
  with assms(1) show False by simp
qed

lemma wrap_two_neq:
  assumes "unat (h :: u16) < 2"
  shows "wrap_around 2 (h + 1) \<noteq> h"
proof -
  have "h = 0 \<or> h = 1" using assms by (simp add: unat_eq_iff [symmetric] less_2_cases_iff)
  then show ?thesis by (auto simp: wrap_around_def)
qed

lemma admin_idle_can: "admin_idle st \<Longrightarrow> sq_inv (ctl_asq (dr_ctl st)) \<and> sq_can_produce (ctl_asq (dr_ctl st))"
proof -
  assume i: "admin_idle st"
  let ?q = "ctl_asq (dr_ctl st)"
  from i have q: "sq_inv ?q" "q_size ?q = 2" "pending ?q = Map.empty" "sq_tail ?q = q_head ?q"
    by (simp_all add: admin_idle_def Let_def)
  have "unat (sq_in_flight ?q) = 0"
    using pending_empty_occupied [OF q(3,1)] sq_invD(7) [OF q(1)] by simp
  moreover have "unat (q_head ?q) < 2" using sq_invD(5) [OF q(1)] q(2) by simp
  ultimately show ?thesis
    using q wrap_two_neq [of "q_head ?q"]
    by (simp add: sq_can_produce_def is_full_def word_less_nat_alt)
qed

lemma issued_busy:
  assumes "admin_idle st" and "issued cb cid e (ctl_asq (dr_ctl st)) (ctl_asq (dr_ctl st'))"
    and "ctl_acq (dr_ctl st') = ctl_acq (dr_ctl st)"
  shows "admin_busy e cb st'"
proof -
  let ?q = "ctl_asq (dr_ctl st)"
  from assms(1) have q: "sq_inv ?q" "q_size ?q = 2" "pending ?q = Map.empty" "sq_tail ?q = q_head ?q"
    "acq_quiet st"
    by (simp_all add: admin_idle_def Let_def)
  have "acq_quiet st'" using q(5) assms(3) by (simp add: acq_quiet_def)
  then show ?thesis
    using assms(2) issued_entry [OF assms(2) q(1)] q(2-4)
    by (simp add: admin_busy_def issued_def)
qed

text \<open>The next round takes the answer to the outstanding command and runs its callback.\<close>

lemma round_busy:
  assumes b: "admin_busy e cb st"
  obtains acq asq env where
    "env = answering a env0 st"
    and "se_irq env = se_irq env0" and "se_mem env = se_mem env0" and "se_buf env = se_buf env0"
    and "se_buf2 env = se_buf2 env0" and "se_unmap env = se_unmap env0"
    and "\<forall>ib. inout_buffer_pget ib 0 = sqe_prp1 e \<longrightarrow> se_data env ib = snd (answer_to a e)"
    and "admin_idle (st\<lparr>dr_ctl := (dr_ctl st)\<lparr>ctl_acq := acq, ctl_asq := asq\<rparr>\<rparr>)"
    and "admin_round a env0 st =
      bind_res (and_then
          (run_admin_cb env (take_bit 15 (fst (answer_to a e))) cb
            (st\<lparr>dr_ctl := (dr_ctl st)\<lparr>ctl_acq := acq, ctl_asq := asq\<rparr>\<rparr>))
          (release_cb env (take_bit 15 (fst (answer_to a e))) cb)) (\<lambda>(evs, st1).
        Inr (Some (evs @ [Ev_doorbell (cq_complete (ctl_acq (dr_ctl st1)))], st1)))"
proof -
  let ?q = "ctl_asq (dr_ctl st)" and ?cq = "ctl_acq (dr_ctl st)"
  let ?sf = "take_bit 15 (fst (answer_to a e))"
  from b obtain posted where q: "sq_inv ?q" "q_size ?q = 2" "pending ?q = [sqe_cid e \<mapsto> cb]"
    "sq_entries ?q ! unat (q_head ?q) = e" "sq_tail ?q = wrap_around 2 (q_head ?q + 1)"
    and t: "cq_tracks ?cq posted (length posted)"
    by (auto simp: admin_busy_def acq_quiet_def Let_def)
  note D = cq_tracksD [OF t]
  define c where "c = cqe_make (sq_tail ?q) Aq_id (sqe_cid e) (cq_p ?cq) ?sf"
  define env where "env = answering a env0 st"
  have hd: "unat (q_head ?q) < 2" using sq_invD(5) [OF q(1)] q(2) by simp
  have neq: "sq_tail ?q \<noteq> q_head ?q" using wrap_two_neq [OF hd] q(5) by simp
  have w: "cq_tracks (cq_write (unat (q_head ?cq)) c ?cq) (posted @ [c]) (length posted)"
    using cq_write_tracks [OF t, of c] D(1,3,4) by (simp add: c_def)
  have fits: "bf_fits 17 31 ?sf" by (simp add: bf_fits_def)
  obtain acq where acq: "cq_consume (cq_write (unat (q_head ?cq)) c ?cq) = (Some c, acq)"
    "cq_tracks acq (posted @ [c]) (Suc (length posted))"
    by (rule cq_consume_next [OF w]) simp_all
  have tl: "unat (sq_tail ?q) < unat (q_size ?q)" by (rule sq_invD(4) [OF q(1)])
  have comp: "completes ?q c" using q(3) tl by (simp add: completes_def c_def)
  have p: "pending ?q (cqe_cid c) = Some cb" using q(3) by (simp add: c_def)
  note sc = sq_complete_ok [OF q(1) p] sq_completed_inv [OF q(1) comp]
  let ?st1 = "st\<lparr>dr_ctl := (dr_ctl st)\<lparr>ctl_acq := acq, ctl_asq := sq_completed c ?q\<rparr>\<rparr>"
  have idle: "admin_idle ?st1"
    using sc(2,3) q(2,3) acq(2)
    by (auto simp: admin_idle_def acq_quiet_def sq_completed_def c_def Let_def fun_upd_def
        intro!: exI [of _ "posted @ [c]"])
  have see: "see_ring env st = st\<lparr>dr_ctl := (dr_ctl st)\<lparr>ctl_acq := cq_write (unat (q_head ?cq)) c ?cq\<rparr>\<rparr>"
    using neq q(4) by (simp add: see_ring_def env_def answering_def c_def cq_write_def Let_def)
  have sf: "cqe_sf c = ?sf" using fits by (simp add: c_def)
  have sqid: "cqe_sqid c = Aq_id" by (simp add: c_def)
  have "admin_round a env0 st =
      bind_res (and_then (run_admin_cb env ?sf cb ?st1) (release_cb env ?sf cb)) (\<lambda>(evs, st1).
        Inr (Some (evs @ [Ev_doorbell (cq_complete (ctl_acq (dr_ctl st1)))], st1)))"
    unfolding admin_round_def env_def [symmetric] see acq_round_def
    using acq(1) sc(1) by (simp add: sf sqid)
  then show ?thesis
    by (rule that [of env, rotated 8])
      (use idle neq q(4) in \<open>simp_all add: env_def answering_def Let_def\<close>)
qed

lemma round_idle:
  assumes "admin_idle st"
  shows "admin_round a env0 st = Inr None"
proof -
  from assms obtain posted where t: "cq_tracks (ctl_acq (dr_ctl st)) posted (length posted)"
    "sq_tail (ctl_asq (dr_ctl st)) = q_head (ctl_asq (dr_ctl st))"
    by (auto simp: admin_idle_def acq_quiet_def Let_def)
  then have "see_ring (answering a env0 st) st = st"
    by (simp add: see_ring_def answering_def Let_def)
  then show ?thesis
    using cq_consume_empty [OF t(1)] by (simp add: admin_round_def acq_round_def)
qed

lemma rounds_idle: "admin_idle st \<Longrightarrow> rounds a envs k st = Inr ([], st)"
  by (cases k) (simp_all add: round_idle)

section \<open>Surroundings in which the services succeed\<close>

text \<open>The largest buffer of the identification is the PRP memory of a queue, 256 KiB.\<close>

definition grants :: "buffer_answers \<Rightarrow> bool" where
  "grants ans \<longleftrightarrow> ans_cap ans = Inr () \<and> ans_alloc ans = Inr () \<and> (\<exists>v. ans_attach ans = Inr v) \<and>
     (\<exists>out p. ans_map ans = Inr (out, p) \<and> 0x40000 \<le> out)"

definition services_ok :: "step_env \<Rightarrow> bool" where
  "services_ok env \<longleftrightarrow>
     readable (ie_cfg (se_irq env)) \<and> (\<forall>w. ie_wr (se_irq env) w = Inr ()) \<and>
     (\<forall>p s. \<exists>v. ie_attach (se_irq env) p s = Inr v) \<and> bitmap_scan (ie_scan_zero (se_irq env)) \<and>
     ie_register (se_irq env) = Inr () \<and> (\<forall>i. \<exists>b. ie_bind (se_irq env) i = Inr b) \<and>
     (\<forall>i. \<exists>m. ie_msi_info (se_irq env) i = Inr m) \<and> ie_unmask_cap (se_irq env) = Inr () \<and>
     grants (se_buf env) \<and> grants (se_buf2 env) \<and> (\<forall>r. se_unmap env r = Inr ())"

lemma grants_new:
  assumes "grants ans" and "sz \<le> 0x40000"
  shows "\<exists>b. inout_buffer_new ans sz dir = Inr b"
proof -
  from assms obtain v out p where a: "ans_cap ans = Inr ()" "ans_alloc ans = Inr ()" "ans_attach ans = Inr v"
    "ans_map ans = Inr (out, p)" "sz \<le> out"
    by (auto simp: grants_def intro: order_trans)
  then have "inout_buffer_new ans sz dir =
      Inr \<lparr>ib_size = sz, ib_region = v, ib_paddr = p, ib_dir = dir\<rparr>"
    by (simp add: inout_buffer_new_def not_less)
  then show ?thesis by blast
qed

lemma grants_queue:
  assumes "grants ans"
  shows "\<exists>q. queue_new ans Ioq_size y d dir = Inr q"
proof -
  have "l4_round_page (ucast Ioq_size * (if dir = From_device then sizeof_Cqe else sizeof_Sqe)) \<le> 0x40000"
    by (simp add: l4_round_page_def Ioq_size_def sizeof_Cqe_def sizeof_Sqe_def page_simps mask_eq_exp_minus_1)
  from grants_new [OF assms this, of dir] show ?thesis by (auto simp: queue_new_def Let_def)
qed

lemma grants_iocq:
  assumes "grants ans"
  shows "\<exists>cq. completion_queue_new mem ans Ioq_size y d = Inr cq"
  using grants_queue [OF assms, of y d From_device] by (auto simp: completion_queue_new_def)

lemma grants_iosq:
  assumes "grants ans" and "grants ans2" and "sgls \<in> {0, of_nat Ioq_sgls}"
  shows "\<exists>sq. submission_queue_new mem ans ans2 Ioq_size y d sgls = Inr (sq :: 'cb submission_queue)"
proof -
  obtain q where q: "queue_new ans Ioq_size y d To_device = Inr q"
    using grants_queue [OF assms(1)] by blast
  have "l4_round_page (ucast Ioq_size * of_nat Ioq_sgls * of_nat sizeof_Sgl_desc) \<le> 0x40000"
    "ucast Ioq_size * of_nat Prp_list_pages * L4_PAGESIZE \<le> 0x40000"
    by (simp_all add: l4_round_page_def Ioq_size_def Ioq_sgls_def sizeof_Sgl_desc_def Prp_list_pages_def
        page_simps mask_eq_exp_minus_1)
  then obtain b b' where
    "inout_buffer_new ans2 (l4_round_page (ucast Ioq_size * of_nat Ioq_sgls * of_nat sizeof_Sgl_desc)) To_device = Inr b"
    "inout_buffer_new ans2 (ucast Ioq_size * of_nat Prp_list_pages * L4_PAGESIZE) To_device = Inr b'"
    using grants_new [OF assms(2)] by metis
  with q assms(3) show ?thesis
    by (auto simp: submission_queue_new_def Prp_list_pages_def)
qed

lemma readable_32: "readable cfg \<Longrightarrow> \<exists>v. cfg_read_32 cfg reg = Inr v"
  unfolding readable_def cfg_read_32_def by (metis chksys.simps(2))

lemma msix_table_address_ok:
  assumes "readable cfg"
  shows "\<exists>pa. msix_table_address cfg d = Inr pa"
proof -
  obtain f where f: "\<And>reg. cfg_read_32 cfg reg = Inr (f reg)"
    using readable_32 [OF assms] by metis
  show ?thesis by (simp add: msix_table_address_def f)
qed

lemma ctl_enable_msi_ok:
  assumes "services_ok env"
  shows "\<exists>evs d. ctl_enable_msi (se_irq env) irq info c = Inr (evs, c\<lparr>ctl_pci := d\<rparr>)"
proof -
  have self: "\<exists>d. c = c\<lparr>ctl_pci := d\<rparr>" by (rule exI [of _ "ctl_pci c"]) simp
  obtain pa v where pa: "msix_table_address (ie_cfg (se_irq env)) (ctl_pci c) = Inr pa"
    and v: "\<And>p s. ie_attach (se_irq env) p s = Inr (v p s)"
    using msix_table_address_ok assms unfolding services_ok_def by metis
  have "\<exists>ops d. enable_msix (ie_cfg (se_irq env)) (ie_attach (se_irq env)) irq info (ctl_pci c) = Inr (ops, d)"
    by (simp add: enable_msix_def pa iomem_new_def v case_prod_unfold Let_def)
  moreover have "\<exists>ws. enable_msi (ie_wr (se_irq env)) info (ctl_pci c) = Inr ws"
    using assms by (simp add: enable_msi_def cfg_write_32_def cfg_write_16_def services_ok_def Let_def)
  ultimately show ?thesis
    using self by (auto simp: ctl_enable_msi_def)
qed

lemma allocate_msi_ok:
  assumes s: "services_ok env" and i: "icu_inv i"
  obtains iv evs i' d where "allocate_msi (se_irq env) i c = Inr (iv, evs, i', c\<lparr>ctl_pci := d\<rparr>)"
    and "icu_inv i'" and "unat iv < Num_msis"
proof (cases "msis_enabled i c \<and> (\<exists>r. icu_alloc_msi (ie_scan_zero (se_irq env)) i = Inr r)")
  case True
  then obtain n i1 where a: "msis_enabled i c" "icu_alloc_msi (ie_scan_zero (se_irq env)) i = Inr (n, i1)"
    by auto
  from s have scan: "bitmap_scan (ie_scan_zero (se_irq env))" by (simp add: services_ok_def)
  note f = bitmap_scan.icu_alloc_InrD [OF scan i a(2)]
  from s obtain b m where "ie_register (se_irq env) = Inr ()" "ie_bind (se_irq env) (n OR Icu_F_msi) = Inr b"
    "ie_msi_info (se_irq env) (n OR Icu_F_msi) = Inr m" "ie_unmask_cap (se_irq env) = Inr ()"
    unfolding services_ok_def by metis
  moreover obtain evs d where "ctl_enable_msi (se_irq env) (n OR Icu_F_msi) m c = Inr (evs, c\<lparr>ctl_pci := d\<rparr>)"
    using ctl_enable_msi_ok [OF s] by blast
  ultimately show ?thesis
    using a f by (intro that [of n _ i1 d]) (simp_all add: allocate_msi_def Let_def)
next
  case False
  then have "allocate_msi (se_irq env) i c = Inr (0, [], i, c)"
    by (auto simp: allocate_msi_def split: sum.splits)
  then show ?thesis
    using i by (intro that [of 0 "[]" i "ctl_pci c"]) (simp_all add: Num_msis_def)
qed

end
