(* ===== verification/Identification_Laws.thy ===== *)
theory Identification_Laws
  imports Admin_Rounds
begin

text \<open>
  The identification of theory Identification against a controller that answers the admin commands:
  every namespace is examined once and in order, the usable ones become visible with working queues,
  and the completion callback comes last.
\<close>

section \<open>Issuing an Identify command\<close>

lemma and_then_Inr [simp]:
  "and_then (Inr (evs, st)) f = bind_res (f st) (\<lambda>(evs', st'). Inr (evs @ evs', st'))"
  by (simp add: and_then_def)

lemma and_then_Inr_Inr: "r = Inr (evs, st) \<Longrightarrow> f st = Inr (evs', st') \<Longrightarrow> and_then r f = Inr (evs @ evs', st')"
  by simp

lemma identify_ns_entry:
  assumes "e0 = sqe_set_cid cid (sqe_init e')" and "e = identify_ns_fill n paddr e0"
  shows "sqe_opc e = 6" and "sqe_cns e = 0" and "sqe_nsid e = n" and "sqe_prp1 e = paddr"
    and "sqe_prp2 e = 0" and "sqe_psdt e = 0" and "sqe_cntid e = 0" and "sqe_cid e = cid"
  by (simp_all add: assms identify_ns_fill_def Let_def sqe_fields bf_get_set)

lemma identify_ctl_entry:
  assumes "e0 = sqe_set_cid cid (sqe_init e')" and "e = identify_ctl_fill paddr e0"
  shows "sqe_opc e = 6" and "sqe_cns e = 1" and "sqe_nsid e = 0" and "sqe_prp1 e = paddr"
    and "sqe_prp2 e = 0" and "sqe_psdt e = 0" and "sqe_cntid e = 0" and "sqe_cid e = cid"
  by (simp_all add: assms identify_ctl_fill_def Let_def sqe_fields sqe_init_def bf_get_set)

text \<open>The Identify Namespace command for \<open>n\<close> of \<open>nn\<close> is outstanding; likewise Identify Controller.\<close>

definition at_ns :: "u32 \<Rightarrow> u32 \<Rightarrow> 'io driver \<Rightarrow> bool" where
  "at_ns nn n st \<longleftrightarrow>
     (\<exists>e inb. admin_busy e (Cb_identify_ns nn n inb) st \<and> sqe_opc e = 6 \<and> sqe_cns e = 0 \<and>
        sqe_nsid e = n \<and> sqe_prp1 e = inout_buffer_pget inb 0)"

definition at_ctl :: "'io driver \<Rightarrow> bool" where
  "at_ctl st \<longleftrightarrow>
     (\<exists>e ic. admin_busy e (Cb_identify ic) st \<and> sqe_opc e = 6 \<and> sqe_cns e = 1 \<and>
        sqe_prp1 e = inout_buffer_pget ic 0)"

text \<open>
  What the queues of a namespace depend on: whether the controller is used with SGLs, and its
  capabilities. The queues that the code creates for it.
\<close>

definition ctl_kind :: "'cb ctl \<Rightarrow> bool \<times> u64" where
  "ctl_kind c = (supports_sgl c, ctl_cap c)"

lemma ctl_kind_update [simp]:
  "ctl_kind (c\<lparr>ctl_asq := q\<rparr>) = ctl_kind c" "ctl_kind (c\<lparr>ctl_acq := acq\<rparr>) = ctl_kind c"
  "ctl_kind (c\<lparr>ctl_pci := d\<rparr>) = ctl_kind c"
  by (simp_all add: ctl_kind_def supports_sgl_def)

definition cq_created :: "bool \<times> u64 \<Rightarrow> u32 \<Rightarrow> completion_queue \<Rightarrow> bool" where
  "cq_created k n cq \<longleftrightarrow>
     (\<exists>mem ans. completion_queue_new mem ans Ioq_size n (ucast (cap_dstrd (snd k))) = Inr cq)"

definition sq_created ::
  "step_env set \<Rightarrow> bool \<times> u64 \<Rightarrow> u32 \<Rightarrow> 'io submission_queue \<Rightarrow> bool" where
  "sq_created E k n sq \<longleftrightarrow>
     (\<exists>mem ans. \<exists>env \<in> E. submission_queue_new mem ans (se_buf2 env) Ioq_size n
         (ucast (cap_dstrd (snd k))) (if fst k then of_nat Ioq_sgls else 0) = Inr sq)"

lemma sq_created_mono: "sq_created E k n sq \<Longrightarrow> E \<subseteq> E' \<Longrightarrow> sq_created E' k n sq"
  unfolding sq_created_def by blast

text \<open>What a step on the admin queues leaves alone.\<close>

definition same_namespaces :: "'io driver \<Rightarrow> 'io driver \<Rightarrow> bool" where
  "same_namespaces st st' \<longleftrightarrow> dr_heap st' = dr_heap st \<and> dr_next st' = dr_next st \<and>
     dr_nss st' = dr_nss st \<and> dr_icu st' = dr_icu st \<and> ctl_kind (dr_ctl st') = ctl_kind (dr_ctl st)"

lemma issue_admin:
  assumes "admin_idle st" and "\<And>e. sqe_cid (fill e) = sqe_cid e"
  obtains q1 cid e0 where
    "sq_produce cb (ctl_asq (dr_ctl st)) = Inr (Some (sq_tail (ctl_asq (dr_ctl st)), q1))"
    and "e0 = sqe_set_cid cid (sqe_init (sq_entries (ctl_asq (dr_ctl st)) ! unat (sq_tail (ctl_asq (dr_ctl st)))))"
    and "admin_busy (fill e0) cb (st\<lparr>dr_ctl := (dr_ctl st)
        \<lparr>ctl_asq := sq_modify (sq_tail (ctl_asq (dr_ctl st))) fill q1\<rparr>\<rparr>)"
proof -
  let ?q = "ctl_asq (dr_ctl st)"
  from admin_idle_can [OF assms(1)] have can: "sq_inv ?q" "sq_can_produce ?q" by simp_all
  obtain cid q1 e0 where p: "sq_produce cb ?q = Inr (Some (sq_tail ?q, q1))"
    "e0 = sqe_set_cid cid (sqe_init (sq_entries ?q ! unat (sq_tail ?q)))" "unat cid < unat (q_size ?q)"
    "issued cb cid e0 ?q q1" "sq_sgls q1 = sq_sgls ?q" "sq_prps q1 = sq_prps ?q"
    "sq_sgl_mem q1 = sq_sgl_mem ?q" "sq_prp_mem q1 = sq_prp_mem ?q"
    by (rule sq_produce_issued [OF can])
  have "sqe_cid (fill e0) = cid" using p(4) assms(2) by (simp add: issued_def)
  from issued_modify [where f = fill, OF p(4) can(1) this]
  have "admin_busy (fill e0) cb (st\<lparr>dr_ctl := (dr_ctl st)\<lparr>ctl_asq := sq_modify (sq_tail ?q) fill q1\<rparr>\<rparr>)"
    by (intro issued_busy [OF assms(1)]) simp_all
  with p(1,2) show ?thesis by (rule that)
qed

lemma fill_keeps_cid:
  "sqe_cid (identify_ns_fill n paddr e) = sqe_cid e" "sqe_cid (identify_ctl_fill paddr e) = sqe_cid e"
  by (simp_all add: identify_ns_fill_def identify_ctl_fill_def Let_def sqe_fields)

lemma grants_identify:
  assumes "services_ok env"
  obtains b where "inout_buffer_new (se_buf env) 4096 From_device = Inr b"
  using grants_new [of "se_buf env" 4096 From_device] assms by (auto simp: services_ok_def)

lemma identify_namespace_ok:
  assumes "admin_idle st" and "services_ok env"
  obtains db st' where "identify_namespace env nn n st = Inr ([Ev_doorbell db], st')"
    and "at_ns nn n st'" and "same_namespaces st st'"
proof -
  obtain inb where b: "inout_buffer_new (se_buf env) 4096 From_device = Inr inb"
    by (rule grants_identify [OF assms(2)])
  let ?fill = "identify_ns_fill n (inout_buffer_pget inb 0)"
  obtain q1 cid e0 where
    q: "sq_produce (Cb_identify_ns nn n inb) (ctl_asq (dr_ctl st)) = Inr (Some (sq_tail (ctl_asq (dr_ctl st)), q1))"
      "e0 = sqe_set_cid cid (sqe_init (sq_entries (ctl_asq (dr_ctl st)) ! unat (sq_tail (ctl_asq (dr_ctl st)))))"
      "admin_busy (?fill e0) (Cb_identify_ns nn n inb) (st\<lparr>dr_ctl := (dr_ctl st)
        \<lparr>ctl_asq := sq_modify (sq_tail (ctl_asq (dr_ctl st))) ?fill q1\<rparr>\<rparr>)"
    by (rule issue_admin [where fill = ?fill, OF assms(1) fill_keeps_cid(1)])
  note e = identify_ns_entry [OF q(2), of "?fill e0" n "inout_buffer_pget inb 0", OF refl]
  have "at_ns nn n (st\<lparr>dr_ctl := (dr_ctl st)
        \<lparr>ctl_asq := sq_modify (sq_tail (ctl_asq (dr_ctl st))) ?fill q1\<rparr>\<rparr>)"
    unfolding at_ns_def using q(3) e(1-4) by blast
  moreover have eq: "identify_namespace env nn n st =
      Inr ([Ev_doorbell (sq_submit (sq_modify (sq_tail (ctl_asq (dr_ctl st))) ?fill q1))],
        st\<lparr>dr_ctl := (dr_ctl st)\<lparr>ctl_asq := sq_modify (sq_tail (ctl_asq (dr_ctl st))) ?fill q1\<rparr>\<rparr>)"
    using b q(1) by (simp add: identify_namespace_def Let_def)
  ultimately show ?thesis by (intro that [OF eq]) (simp_all add: same_namespaces_def)
qed

lemma identify_ok:
  assumes "admin_idle st" and "services_ok env"
  obtains db st' where "identify env st = Inr ([Ev_doorbell db], st')"
    and "at_ctl st'" and "same_namespaces st st'"
proof -
  obtain ic where b: "inout_buffer_new (se_buf env) 4096 From_device = Inr ic"
    by (rule grants_identify [OF assms(2)])
  let ?fill = "identify_ctl_fill (inout_buffer_pget ic 0)"
  obtain q1 cid e0 where
    q: "sq_produce (Cb_identify ic) (ctl_asq (dr_ctl st)) = Inr (Some (sq_tail (ctl_asq (dr_ctl st)), q1))"
      "e0 = sqe_set_cid cid (sqe_init (sq_entries (ctl_asq (dr_ctl st)) ! unat (sq_tail (ctl_asq (dr_ctl st)))))"
      "admin_busy (?fill e0) (Cb_identify ic) (st\<lparr>dr_ctl := (dr_ctl st)
        \<lparr>ctl_asq := sq_modify (sq_tail (ctl_asq (dr_ctl st))) ?fill q1\<rparr>\<rparr>)"
    by (rule issue_admin [where fill = ?fill, OF assms(1) fill_keeps_cid(2)])
  note e = identify_ctl_entry [OF q(2), of "?fill e0" "inout_buffer_pget ic 0", OF refl]
  have "at_ctl (st\<lparr>dr_ctl := (dr_ctl st)
        \<lparr>ctl_asq := sq_modify (sq_tail (ctl_asq (dr_ctl st))) ?fill q1\<rparr>\<rparr>)"
    unfolding at_ctl_def using q(3) e(1,2,4) by blast
  moreover have eq: "identify env st =
      Inr ([Ev_doorbell (sq_submit (sq_modify (sq_tail (ctl_asq (dr_ctl st))) ?fill q1))],
        st\<lparr>dr_ctl := (dr_ctl st)\<lparr>ctl_asq := sq_modify (sq_tail (ctl_asq (dr_ctl st))) ?fill q1\<rparr>\<rparr>)"
    using b q(1) by (simp add: identify_def Let_def)
  ultimately show ?thesis by (intro that [OF eq]) (simp_all add: same_namespaces_def)
qed

section \<open>The asynchronous loop\<close>

text \<open>The calls of the client's two callbacks among the events.\<close>

definition client_calls :: "drv_event list \<Rightarrow> drv_event list" where
  "client_calls evs = filter (\<lambda>ev. case ev of Ev_visible _ \<Rightarrow> True | Ev_done \<Rightarrow> True | _ \<Rightarrow> False) evs"

lemma client_calls_simps [simp]:
  "client_calls [] = []"
  "client_calls (evs @ evs') = client_calls evs @ client_calls evs'"
  "client_calls (Ev_doorbell w # evs) = client_calls evs"
  "client_calls (Ev_irq i # evs) = client_calls evs"
  "client_calls (Ev_unmap r # evs) = client_calls evs"
  "client_calls (Ev_visible n # evs) = Ev_visible n # client_calls evs"
  "client_calls (Ev_done # evs) = Ev_done # client_calls evs"
  "client_calls (map Ev_irq is) = []"
  "client_calls (map Ev_unmap rs) = []"
  by (simp_all add: client_calls_def filter_empty_conv)

text \<open>
  Where the loop is after the namespace \<open>n\<close>, and what it has called at its end: the two conditions
  in the code (\<open>n + 1 \<le> nn\<close> in most places, \<open>n = nn\<close> at the creation of the submission queue) agree
  for \<open>1 \<le> n \<le> nn\<close>.
\<close>

definition after_ns :: "u32 \<Rightarrow> u32 \<Rightarrow> 'io driver \<Rightarrow> bool" where
  "after_ns nn n st \<longleftrightarrow> (if n + 1 \<le> nn then at_ns nn (n + 1) st else admin_idle st)"

definition skip_end :: "u32 \<Rightarrow> u32 \<Rightarrow> drv_event list" where
  "skip_end nn n = (if n + 1 \<le> nn then [] else [Ev_done])"

definition loop_end :: "u32 \<Rightarrow> u32 \<Rightarrow> drv_event list" where
  "loop_end nn n = (if n = nn then [Ev_done] else [])"

lemma next_in_range:
  fixes n nn :: u32
  assumes "n \<le> nn" and "unat nn < 65536"
  shows "n + 1 \<le> nn \<longleftrightarrow> n \<noteq> nn" and "unat (n + 1) = Suc (unat n)"
proof -
  have lt: "unat n < 65536" using assms by (simp add: word_le_nat_alt)
  then have "unat n + unat (1 :: u32) < 2 ^ LENGTH(32)" by simp
  then show s: "unat (n + 1) = Suc (unat n)" by (simp only: unat_add_lem) simp
  show "n + 1 \<le> nn \<longleftrightarrow> n \<noteq> nn"
    using assms(1) unfolding word_le_nat_alt s by (auto simp: unat_eq_iff [symmetric])
qed

lemma ends_agree: "n \<le> nn \<Longrightarrow> unat nn < 65536 \<Longrightarrow> skip_end nn n = loop_end nn n"
  using next_in_range(1) [of n nn] by (simp add: skip_end_def loop_end_def)

lemma loop_step:
  assumes "admin_idle st" and "services_ok env"
  obtains evs st' where
    "(if n + 1 \<le> nn then identify_namespace env nn (n + 1) st else Inr ([], st)) = Inr (evs, st')"
    and "after_ns nn n st'" and "same_namespaces st st'" and "client_calls evs = []"
proof (cases "n + 1 \<le> nn")
  case True
  obtain db st' where "identify_namespace env nn (n + 1) st = Inr ([Ev_doorbell db], st')"
    "at_ns nn (n + 1) st'" "same_namespaces st st'"
    by (rule identify_namespace_ok [OF assms])
  with True show ?thesis by (intro that [of "[Ev_doorbell db]" st']) (simp_all add: after_ns_def)
next
  case False
  with assms(1) show ?thesis
    by (intro that [of "[]" st]) (simp_all add: after_ns_def same_namespaces_def)
qed

lemma next_namespace_ok:
  assumes "admin_idle st" and "services_ok env"
  obtains evs st' where "next_namespace env nn n st = Inr (evs, st')"
    and "after_ns nn n st'" and "same_namespaces st st'" and "client_calls evs = skip_end nn n"
proof (cases "n + 1 \<le> nn")
  case True
  obtain evs st' where
    "(if n + 1 \<le> nn then identify_namespace env nn (n + 1) st else Inr ([], st)) = Inr (evs, st')"
    "after_ns nn n st'" "same_namespaces st st'" "client_calls evs = []"
    by (rule loop_step [OF assms])
  with True show ?thesis
    by (intro that [of evs st']) (simp_all add: next_namespace_def skip_end_def)
next
  case False
  with assms(1) show ?thesis
    by (intro that [of "[Ev_done]" st])
      (simp_all add: next_namespace_def after_ns_def skip_end_def same_namespaces_def)
qed

section \<open>One round\<close>

definition status_of :: "ctl_answers \<Rightarrow> sqe \<Rightarrow> u16" where
  "status_of a e = take_bit 15 (fst (answer_to a e))"

lemma services_unmap: "services_ok env \<Longrightarrow> se_unmap env r = Inr ()"
  unfolding services_ok_def by blast

lemma release_ok:
  assumes "services_ok env"
  shows "\<exists>rs. release_cb env sf cb st = Inr (map Ev_unmap rs, st)"
proof -
  have "\<exists>rs. inout_buffer_destroy (se_unmap env) b = Inr rs" for b
    using services_unmap [OF assms] by (simp add: inout_buffer_destroy_def inout_buffer_unmap_def)
  then obtain f where "\<And>b. inout_buffer_destroy (se_unmap env) b = Inr (f b)" by metis
  then show ?thesis
    by (cases cb) (auto simp: release_cb_def exI [of "\<lambda>rs. rs = []" "[]"])
qed

lemma round_step:
  assumes b: "admin_busy e cb st" and s: "services_ok env0"
  obtains st1 env where "services_ok env" and "admin_idle st1" and "same_namespaces st st1"
    and "\<forall>ib. inout_buffer_pget ib 0 = sqe_prp1 e \<longrightarrow> se_data env ib = snd (answer_to a e)"
    and "\<forall>evs st2. run_admin_cb env (status_of a e) cb st1 = Inr (evs, st2) \<longrightarrow>
      (\<exists>evs'. admin_round a env0 st = Inr (Some (evs', st2)) \<and> client_calls evs' = client_calls evs)"
    and "se_buf2 env = se_buf2 env0"
proof -
  obtain acq asq env where r: "env = answering a env0 st"
    "se_irq env = se_irq env0" "se_mem env = se_mem env0" "se_buf env = se_buf env0"
    "se_buf2 env = se_buf2 env0" "se_unmap env = se_unmap env0"
    "\<forall>ib. inout_buffer_pget ib 0 = sqe_prp1 e \<longrightarrow> se_data env ib = snd (answer_to a e)"
    "admin_idle (st\<lparr>dr_ctl := (dr_ctl st)\<lparr>ctl_acq := acq, ctl_asq := asq\<rparr>\<rparr>)"
    "admin_round a env0 st =
      bind_res (and_then
          (run_admin_cb env (take_bit 15 (fst (answer_to a e))) cb
            (st\<lparr>dr_ctl := (dr_ctl st)\<lparr>ctl_acq := acq, ctl_asq := asq\<rparr>\<rparr>))
          (release_cb env (take_bit 15 (fst (answer_to a e))) cb)) (\<lambda>(evs, st1).
        Inr (Some (evs @ [Ev_doorbell (cq_complete (ctl_acq (dr_ctl st1)))], st1)))"
    by (rule round_busy [OF b, where ?env0.0 = env0 and a = a])
  have s': "services_ok env" using s r(2-6) by (simp add: services_ok_def)
  let ?st1 = "st\<lparr>dr_ctl := (dr_ctl st)\<lparr>ctl_acq := acq, ctl_asq := asq\<rparr>\<rparr>"
  have "\<exists>evs'. admin_round a env0 st = Inr (Some (evs', st2)) \<and> client_calls evs' = client_calls evs"
    if run: "run_admin_cb env (status_of a e) cb ?st1 = Inr (evs, st2)" for evs st2
  proof -
    obtain rs where "release_cb env (status_of a e) cb st2 = Inr (map Ev_unmap rs, st2)"
      using release_ok [OF s'] by blast
    with run show ?thesis unfolding r(9) status_of_def [symmetric] by simp
  qed
  then show ?thesis
    by (intro that [OF s' r(8) _ r(7)]) (simp_all add: same_namespaces_def r(5))
qed

section \<open>The stages of one namespace\<close>

text \<open>Whether the controller's answer to Identify Namespace describes a namespace that is used.\<close>

definition ns_found :: "ctl_answers \<Rightarrow> u32 \<Rightarrow> bool" where
  "ns_found a n \<longleftrightarrow> take_bit 15 (fst (ca_ns a n)) = 0 \<and> usable_lba_size (snd (ca_ns a n)) \<noteq> None"

lemma answer_identify_ns:
  assumes "sqe_opc e = 6" and "sqe_cns e = 0"
  shows "answer_to a e = ca_ns a (sqe_nsid e)"
  using assms by (simp add: answer_to_def)

lemma unmap_in_ok: "services_ok env \<Longrightarrow> unmap_in env b st = Inr ([Ev_unmap (unmap_request b)], st)"
  by (simp add: unmap_in_def inout_buffer_unmap_def services_unmap)

lemma same_namespaces_trans:
  "same_namespaces st st1 \<Longrightarrow> same_namespaces st1 st2 \<Longrightarrow> same_namespaces st st2"
  by (simp add: same_namespaces_def)

lemma ns_skipped:
  assumes at: "at_ns nn n st" and s: "services_ok env0"
    and skip: "\<not> ns_found a n"
  obtains evs st' where "admin_round a env0 st = Inr (Some (evs, st'))" and "after_ns nn n st'"
    and "same_namespaces st st'" and "client_calls evs = skip_end nn n"
proof -
  from at obtain e inb where e: "admin_busy e (Cb_identify_ns nn n inb) st" "sqe_opc e = 6"
    "sqe_cns e = 0" "sqe_nsid e = n" "sqe_prp1 e = inout_buffer_pget inb 0"
    by (auto simp: at_ns_def)
  obtain st1 env where r: "services_ok env" "admin_idle st1" "same_namespaces st st1"
    "\<forall>ib. inout_buffer_pget ib 0 = sqe_prp1 e \<longrightarrow> se_data env ib = snd (answer_to a e)"
    "\<forall>evs st2. run_admin_cb env (status_of a e) (Cb_identify_ns nn n inb) st1 = Inr (evs, st2) \<longrightarrow>
      (\<exists>evs'. admin_round a env0 st = Inr (Some (evs', st2)) \<and> client_calls evs' = client_calls evs)"
    "se_buf2 env = se_buf2 env0"
    by (rule round_step [OF e(1) s, where a = a])
  obtain evs st2 where nx: "next_namespace env nn n st1 = Inr (evs, st2)" "after_ns nn n st2"
    "same_namespaces st1 st2" "client_calls evs = skip_end nn n"
    by (rule next_namespace_ok [OF r(2,1)])
  have ans: "answer_to a e = ca_ns a n" using answer_identify_ns e(2-4) by simp
  have "se_data env inb = snd (ca_ns a n)" using r(4) e(5) ans by simp
  then have "\<exists>evs1. run_admin_cb env (status_of a e) (Cb_identify_ns nn n inb) st1 = Inr (evs1, st2) \<and>
      client_calls evs1 = skip_end nn n"
    using nx(1,4) skip
    by (auto simp: unmap_in_ok [OF r(1)] ns_identified_def status_of_def ans ns_found_def)
  then obtain evs' where "admin_round a env0 st = Inr (Some (evs', st2))" "client_calls evs' = skip_end nn n"
    using r(5) by metis
  then show ?thesis using nx(2) same_namespaces_trans [OF r(3) nx(3)] by (intro that [of evs' st2])
qed

lemma ns_accepted:
  fixes st :: "'io driver"
  assumes at: "at_ns nn n st" and s: "services_ok env0" and n: "unat n < 65536"
    and found: "ns_found a n" and i: "icu_inv (dr_icu st)"
  obtains evs st' e iv cq where "admin_round a env0 st = Inr (Some (evs, st'))"
    and "admin_busy e (Cb_iocq (dr_next st) nn) st'" and "sqe_opc e = 5" and "sqe_qid e = ucast n"
    and "client_calls evs = []" and "dr_nss st' = dr_nss st" and "dr_next st' = Suc (dr_next st)"
    and "dr_heap st' = (dr_heap st)(dr_next st \<mapsto>
        (namespace_new n (the (usable_lba_size (snd (ca_ns a n)))) (snd (ca_ns a n)))
          \<lparr>ns_msi := iv, ns_iocq := Some cq\<rparr>)"
    and "unat iv < Num_msis" and "icu_inv (dr_icu st')"
    and "cq_tracks cq [] 0" and "q_size cq = Ioq_size" and "q_y cq = n"
    and "ctl_kind (dr_ctl st') = ctl_kind (dr_ctl st)" and "cq_created (ctl_kind (dr_ctl st)) n cq"
proof -
  from at obtain e inb where e: "admin_busy e (Cb_identify_ns nn n inb) st" "sqe_opc e = 6"
    "sqe_cns e = 0" "sqe_nsid e = n" "sqe_prp1 e = inout_buffer_pget inb 0"
    by (auto simp: at_ns_def)
  obtain st1 env where r: "services_ok env" "admin_idle st1" "same_namespaces st st1"
    "\<forall>ib. inout_buffer_pget ib 0 = sqe_prp1 e \<longrightarrow> se_data env ib = snd (answer_to a e)"
    "\<forall>evs st2. run_admin_cb env (status_of a e) (Cb_identify_ns nn n inb) st1 = Inr (evs, st2) \<longrightarrow>
      (\<exists>evs'. admin_round a env0 st = Inr (Some (evs', st2)) \<and> client_calls evs' = client_calls evs)"
    "se_buf2 env = se_buf2 env0"
    by (rule round_step [OF e(1) s, where a = a])
  have n16: "n < 65536" "unat n < 65536" using n by (simp_all add: word_less_nat_alt)
  have ans: "answer_to a e = ca_ns a n" using answer_identify_ns e(2-4) by simp
  have data: "se_data env inb = snd (ca_ns a n)" using r(4) e(5) ans by simp
  from found obtain lba where lba: "usable_lba_size (snd (ca_ns a n)) = Some lba"
    "take_bit 15 (fst (ca_ns a n)) = 0" by (auto simp: ns_found_def)
  let ?p = "dr_next st" and ?ns = "namespace_new n lba (snd (ca_ns a n)) :: 'io namespace"
  have i1: "icu_inv (dr_icu st1)" using i r(3) by (simp add: same_namespaces_def)
  obtain iv ievs i' d where m: "allocate_msi (se_irq env) (dr_icu st1) (dr_ctl st1) =
      Inr (iv, ievs, i', (dr_ctl st1)\<lparr>ctl_pci := d\<rparr>)" "icu_inv i'" "unat iv < Num_msis"
    by (rule allocate_msi_ok [OF r(1) i1])
  let ?c = "(dr_ctl st1)\<lparr>ctl_pci := d\<rparr>"
  obtain cq where cq: "completion_queue_new (se_mem env) (se_buf env) Ioq_size (ucast (ucast n :: u16))
      (ucast (cap_dstrd (ctl_cap ?c))) = Inr cq"
    using grants_iocq r(1) unfolding services_ok_def by metis
  have can: "sq_inv (ctl_asq ?c)" "sq_can_produce (ctl_asq ?c)" using admin_idle_can [OF r(2)] by simp_all
  obtain v d' where v: "get_local_vector iv (ctl_pci ?c) = (v, d')" by (rule prod.exhaust)
  obtain cid e0 q' where c: "create_iocq (se_mem env) (se_buf env) (ucast n) Ioq_size iv (Cb_iocq ?p nn) ?c =
      Inr (cq, sq_submit q', ?c\<lparr>ctl_asq := q', ctl_pci := d'\<rparr>)"
    "e0 = sqe_set_cid cid (sqe_init (sq_entries (ctl_asq ?c) ! unat (sq_tail (ctl_asq ?c))))"
    "issued (Cb_iocq ?p nn) cid (iocq_fill (ucast n) (phys_base cq) Ioq_size v e0) (ctl_asq ?c) q'"
    by (rule create_iocq_ok [OF can cq v])
  note en = iocq_entry [OF c(2) refl]
  let ?st2 = "st1\<lparr>dr_next := Suc ?p, dr_icu := i', dr_ctl := ?c\<lparr>ctl_asq := q', ctl_pci := d'\<rparr>,
      dr_heap := (dr_heap st1)(?p \<mapsto> ?ns\<lparr>ns_msi := iv, ns_iocq := Some cq\<rparr>)\<rparr>"
  have fresh: "dr_next st1 = ?p" "dr_heap st1 = dr_heap st" "dr_nss st1 = dr_nss st"
    using r(3) by (simp_all add: same_namespaces_def)
  have qid: "ns_qid ?ns = Inr (ucast n)" using n16 by (simp add: ns_qid_def namespace_new_def)
  have "run_admin_cb env (status_of a e) (Cb_identify_ns nn n inb) st1 =
      Inr (map Ev_irq ievs @ [Ev_doorbell (sq_submit q')] @ [Ev_unmap (unmap_request inb)], ?st2)"
    using lba m(1) c(1) qid
    by (simp add: unmap_in_ok [OF r(1)] ns_identified_def status_of_def ans data async_loop_init_def and_then_def fresh Let_def)
  with r(5) obtain evs' where
    round: "admin_round a env0 st = Inr (Some (evs', ?st2))" "client_calls evs' = []" by auto
  have busy: "admin_busy (iocq_fill (ucast n) (phys_base cq) Ioq_size v e0) (Cb_iocq ?p nn) ?st2"
    by (rule issued_busy [OF r(2)]) (use c(3) in simp_all)
  note f = completion_queue_new_fields [OF cq]
  have "cq_tracks cq [] 0" using completion_queue_new_tracks [OF cq] by (simp add: Ioq_size_def)
  moreover have n32: "(ucast (ucast n :: u16) :: u32) = n"
    using n16(2) by (simp add: unat_eq_iff [symmetric] unat_ucast_mod)
  moreover have kind: "ctl_kind (dr_ctl st1) = ctl_kind (dr_ctl st)" using r(3) by (simp add: same_namespaces_def)
  then have "cq_created (ctl_kind (dr_ctl st)) n cq"
    unfolding cq_created_def using cq n32 by (auto simp: ctl_kind_def)
  ultimately show ?thesis
    by (intro that [OF round(1) busy en(1,6) round(2)]) (use fresh m lba f kind in simp_all)
qed


text \<open>Then the completion queue has been asked for, and after that the submission queue.\<close>

lemma answer_iocq: "sqe_opc e = 5 \<Longrightarrow> status_of a e = take_bit 15 (ca_iocq a (sqe_qid e))"
  by (simp add: status_of_def answer_to_def)

lemma answer_iosq: "sqe_opc e = 1 \<Longrightarrow> status_of a e = take_bit 15 (ca_iosq a (sqe_qid e))"
  by (simp add: status_of_def answer_to_def)

lemma destroy_buffers_ok: "services_ok env \<Longrightarrow> \<exists>rs. destroy_buffers (se_unmap env) bs = Inr rs"
  by (induction bs) (auto simp: inout_buffer_destroy_def inout_buffer_unmap_def services_unmap)

lemma icu_free_ok:
  assumes "icu_inv i" and "unat iv < Num_msis"
  shows "\<exists>evs i'. ctl_free_msi iv i = Inr (evs, i') \<and> icu_inv i'"
  using assms by (auto simp: ctl_free_msi_def icu_free_msi_def msi_bitmap_free_def icu_inv_def)

lemma namespace_destroy_ok:
  assumes s: "services_ok env" and i: "icu_inv (dr_icu st)" and p: "dr_heap st p = Some ns"
    and m: "unat (ns_msi ns) < Num_msis"
  obtains evs i' where
    "namespace_destroy env p st = Inr (evs, st\<lparr>dr_icu := i', dr_heap := (dr_heap st)(p := None)\<rparr>)"
    and "icu_inv i'" and "client_calls evs = []"
proof -
  obtain rs where rs: "destroy_buffers (se_unmap env) (namespace_buffers ns) = Inr rs"
    using destroy_buffers_ok [OF s] by blast
  obtain es i' where "ctl_free_msi (ns_msi ns) (dr_icu st) = Inr (es, i')" "icu_inv i'"
    using icu_free_ok [OF i m] by blast
  then show ?thesis
    using rs p by (intro that [of "map Ev_irq es @ map Ev_unmap rs" i']) (simp_all add: namespace_destroy_def)
qed

lemma after_ns_cong:
  assumes "dr_ctl st' = dr_ctl st"
  shows "after_ns nn n st' = after_ns nn n st"
  using assms by (simp add: after_ns_def at_ns_def admin_idle_def admin_busy_def acq_quiet_def)

lemma iocq_failed:
  assumes b: "admin_busy e (Cb_iocq p nn) st" and e: "sqe_opc e = 5" "sqe_qid e = ucast n"
    and s: "services_ok env0"
    and p: "dr_heap st p = Some ns" "ns_nsid ns = n" "unat (ns_msi ns) < Num_msis"
    and i: "icu_inv (dr_icu st)" and fails: "take_bit 15 (ca_iocq a (ucast n)) \<noteq> 0"
  obtains evs st' where "admin_round a env0 st = Inr (Some (evs, st'))" and "after_ns nn n st'"
    and "client_calls evs = skip_end nn n" and "dr_heap st' = (dr_heap st)(p := None)"
    and "dr_next st' = dr_next st" and "dr_nss st' = dr_nss st" and "icu_inv (dr_icu st')"
    and "ctl_kind (dr_ctl st') = ctl_kind (dr_ctl st)"
proof -
  obtain st1 env where r: "services_ok env" "admin_idle st1" "same_namespaces st st1"
    "\<forall>ib. inout_buffer_pget ib 0 = sqe_prp1 e \<longrightarrow> se_data env ib = snd (answer_to a e)"
    "\<forall>evs st2. run_admin_cb env (status_of a e) (Cb_iocq p nn) st1 = Inr (evs, st2) \<longrightarrow>
      (\<exists>evs'. admin_round a env0 st = Inr (Some (evs', st2)) \<and> client_calls evs' = client_calls evs)"
    "se_buf2 env = se_buf2 env0"
    by (rule round_step [OF b s, where a = a])
  obtain evs st2 where nx: "next_namespace env nn n st1 = Inr (evs, st2)" "after_ns nn n st2"
    "same_namespaces st1 st2" "client_calls evs = skip_end nn n"
    by (rule next_namespace_ok [OF r(2,1)])
  have same: "dr_heap st2 = dr_heap st" "dr_next st2 = dr_next st" "dr_nss st2 = dr_nss st" "dr_icu st2 = dr_icu st"
    "ctl_kind (dr_ctl st2) = ctl_kind (dr_ctl st)"
    using r(3) nx(3) by (simp_all add: same_namespaces_def)
  have i2: "icu_inv (dr_icu st2)" and p2: "dr_heap st2 p = Some ns" using i p(1) same by simp_all
  obtain es i' where d: "namespace_destroy env p st2 = Inr (es, st2\<lparr>dr_icu := i', dr_heap := (dr_heap st2)(p := None)\<rparr>)"
    "icu_inv i'" "client_calls es = []"
    by (rule namespace_destroy_ok [OF r(1) i2 p2 p(3)])
  have "run_admin_cb env (status_of a e) (Cb_iocq p nn) st1 =
      Inr (evs @ es, st2\<lparr>dr_icu := i', dr_heap := (dr_heap st2)(p := None)\<rparr>)"
    using p(1,2) r(3) fails nx(1) d(1)
    by (simp add: iocq_created_def answer_iocq [OF e(1)] e(2) same_namespaces_def)
  with r(5) obtain evs' where "admin_round a env0 st =
      Inr (Some (evs', st2\<lparr>dr_icu := i', dr_heap := (dr_heap st2)(p := None)\<rparr>))"
    "client_calls evs' = skip_end nn n" using nx(4) d(3) by auto
  moreover have "after_ns nn n (st2\<lparr>dr_icu := i', dr_heap := (dr_heap st2)(p := None)\<rparr>)"
    using nx(2) by (subst after_ns_cong [of _ st2]) simp_all
  ultimately show ?thesis
    using d(2) same
    by (intro that [of evs' "st2\<lparr>dr_icu := i', dr_heap := (dr_heap st2)(p := None)\<rparr>"]) simp_all
qed

lemma iocq_accepted:
  fixes st :: "'io driver"
  assumes b: "admin_busy e (Cb_iocq p nn) st" and e: "sqe_opc e = 5" "sqe_qid e = ucast n"
    and s: "services_ok env0" and n: "unat n < 65536"
    and p: "dr_heap st p = Some ns" "ns_nsid ns = n"
    and ok: "take_bit 15 (ca_iocq a (ucast n)) = 0"
  obtains evs st' e' sq where "admin_round a env0 st = Inr (Some (evs, st'))"
    and "admin_busy e' (Cb_iosq p nn) st'" and "sqe_opc e' = 1" and "sqe_qid e' = ucast n"
    and "client_calls evs = []" and "dr_heap st' = (dr_heap st)(p \<mapsto> ns\<lparr>ns_iosq := Some sq\<rparr>)"
    and "dr_next st' = dr_next st" and "dr_nss st' = dr_nss st" and "dr_icu st' = dr_icu st"
    and "sq_inv sq" and "pending sq = Map.empty" and "sq_can_produce sq" and "q_size sq = Ioq_size"
    and "q_y sq = n" and "ctl_kind (dr_ctl st') = ctl_kind (dr_ctl st)"
    and "sq_created {env0} (ctl_kind (dr_ctl st)) n sq"
proof -
  obtain st1 env where r: "services_ok env" "admin_idle st1" "same_namespaces st st1"
    "\<forall>ib. inout_buffer_pget ib 0 = sqe_prp1 e \<longrightarrow> se_data env ib = snd (answer_to a e)"
    "\<forall>evs st2. run_admin_cb env (status_of a e) (Cb_iocq p nn) st1 = Inr (evs, st2) \<longrightarrow>
      (\<exists>evs'. admin_round a env0 st = Inr (Some (evs', st2)) \<and> client_calls evs' = client_calls evs)"
    "se_buf2 env = se_buf2 env0"
    by (rule round_step [OF b s, where a = a])
  let ?c = "dr_ctl st1" and ?sgls = "if supports_sgl (dr_ctl st1) then of_nat Ioq_sgls else 0"
  have g: "grants (se_buf env)" "grants (se_buf2 env)" "?sgls \<in> {0, of_nat Ioq_sgls}"
    using r(1) by (simp_all add: services_ok_def)
  obtain sq :: "'io submission_queue" where sq: "submission_queue_new (se_mem env) (se_buf env) (se_buf2 env) Ioq_size
      (ucast (ucast n :: u16)) (ucast (cap_dstrd (ctl_cap ?c))) ?sgls = Inr sq"
    using grants_iosq [OF g] by blast
  have can: "sq_inv (ctl_asq ?c)" "sq_can_produce (ctl_asq ?c)" using admin_idle_can [OF r(2)] by simp_all
  obtain cid e0 q' where c: "create_iosq (se_mem env) (se_buf env) (se_buf2 env) (ucast n) Ioq_size ?sgls (Cb_iosq p nn) ?c =
      Inr (sq, sq_submit q', ?c\<lparr>ctl_asq := q'\<rparr>)"
    "e0 = sqe_set_cid cid (sqe_init (sq_entries (ctl_asq ?c) ! unat (sq_tail (ctl_asq ?c))))"
    "issued (Cb_iosq p nn) cid (iosq_fill (ucast n) (phys_base sq) Ioq_size e0) (ctl_asq ?c) q'"
    by (rule create_iosq_ok [OF can sq])
  note en = iosq_entry [OF c(2) refl]
  let ?st2 = "st1\<lparr>dr_ctl := ?c\<lparr>ctl_asq := q'\<rparr>, dr_heap := (dr_heap st1)(p \<mapsto> ns\<lparr>ns_iosq := Some sq\<rparr>)\<rparr>"
  have n16: "n < 65536" "unat n < 65536" using n by (simp_all add: word_less_nat_alt)
  have same: "dr_heap st1 = dr_heap st" "dr_next st1 = dr_next st" "dr_nss st1 = dr_nss st" "dr_icu st1 = dr_icu st"
    "ctl_kind (dr_ctl st1) = ctl_kind (dr_ctl st)"
    using r(3) by (simp_all add: same_namespaces_def)
  have "run_admin_cb env (status_of a e) (Cb_iocq p nn) st1 = Inr ([Ev_doorbell (sq_submit q')], ?st2)"
    using p ok c(1) n16 same by (simp add: iocq_created_def answer_iocq [OF e(1)] e(2) ns_qid_def)
  with r(5) obtain evs' where
    round: "admin_round a env0 st = Inr (Some (evs', ?st2))" "client_calls evs' = []" by auto
  have busy: "admin_busy (iosq_fill (ucast n) (phys_base sq) Ioq_size e0) (Cb_iosq p nn) ?st2"
    by (rule issued_busy [OF r(2)]) (use c(3) in simp_all)
  note f = submission_queue_new_fields [OF sq]
  have "sq_can_produce sq" by (simp add: sq_can_produce_def is_full_def f wrap_around_def Ioq_size_def)
  moreover have n32: "(ucast (ucast n :: u16) :: u32) = n"
    using n16(2) by (simp add: unat_eq_iff [symmetric] unat_ucast_mod)
  moreover have "sq_created {env0} (ctl_kind (dr_ctl st)) n sq"
    unfolding same(5) [symmetric] sq_created_def using sq n32 r(6)
    by (intro exI [of _ "se_mem env"] exI [of _ "se_buf env"]) (simp add: ctl_kind_def)
  moreover have "sq_inv sq" "pending sq = Map.empty"
    using submission_queue_new_inv [OF sq] by (simp_all add: Ioq_size_def)
  ultimately show ?thesis
    by (intro that [OF round(1) busy en(1,6) round(2)]) (use same f in simp_all)
qed


lemma iosq_finished:
  assumes b: "admin_busy e (Cb_iosq p nn) st" and e: "sqe_opc e = 1" "sqe_qid e = ucast n"
    and s: "services_ok env0"
    and p: "dr_heap st p = Some ns" "ns_nsid ns = n" "unat (ns_msi ns) < Num_msis"
    and i: "icu_inv (dr_icu st)" and ok: "ok \<longleftrightarrow> take_bit 15 (ca_iosq a (ucast n)) = 0"
  obtains evs st' where "admin_round a env0 st = Inr (Some (evs, st'))" and "after_ns nn n st'"
    and "client_calls evs = (if ok then [Ev_visible n] else []) @ loop_end nn n"
    and "dr_heap st' = (if ok then dr_heap st else (dr_heap st)(p := None))"
    and "dr_next st' = dr_next st" and "dr_nss st' = dr_nss st @ (if ok then [p] else [])"
    and "icu_inv (dr_icu st')" and "ctl_kind (dr_ctl st') = ctl_kind (dr_ctl st)"
proof -
  obtain st1 env where r: "services_ok env" "admin_idle st1" "same_namespaces st st1"
    "\<forall>ib. inout_buffer_pget ib 0 = sqe_prp1 e \<longrightarrow> se_data env ib = snd (answer_to a e)"
    "\<forall>evs st2. run_admin_cb env (status_of a e) (Cb_iosq p nn) st1 = Inr (evs, st2) \<longrightarrow>
      (\<exists>evs'. admin_round a env0 st = Inr (Some (evs', st2)) \<and> client_calls evs' = client_calls evs)"
    "se_buf2 env = se_buf2 env0"
    by (rule round_step [OF b s, where a = a])
  obtain evs st2 where nx:
    "(if n + 1 \<le> nn then identify_namespace env nn (n + 1) st1 else Inr ([], st1)) = Inr (evs, st2)"
    "after_ns nn n st2" "same_namespaces st1 st2" "client_calls evs = []"
    by (rule loop_step [OF r(2,1)])
  have same: "dr_heap st2 = dr_heap st" "dr_next st2 = dr_next st" "dr_nss st2 = dr_nss st" "dr_icu st2 = dr_icu st"
    "ctl_kind (dr_ctl st2) = ctl_kind (dr_ctl st)"
    using r(3) nx(3) by (simp_all add: same_namespaces_def)
  have p1: "dr_heap st1 p = Some ns" using p(1) r(3) by (simp add: same_namespaces_def)
  show ?thesis
  proof (cases ok)
    case True
    have "run_admin_cb env (status_of a e) (Cb_iosq p nn) st1 =
        Inr (evs @ Ev_visible n # loop_end nn n, add_ns p st2)"
      using True ok p1 p(2) nx(1)
      by (simp add: iosq_created_def answer_iosq [OF e(1)] e(2) and_then_def loop_end_def Let_def)
    with r(5) obtain evs' where "admin_round a env0 st = Inr (Some (evs', add_ns p st2))"
      "client_calls evs' = client_calls (evs @ Ev_visible n # loop_end nn n)" by blast
    moreover have "client_calls (loop_end nn n) = loop_end nn n" by (simp add: loop_end_def)
    moreover have "after_ns nn n (add_ns p st2)"
      using nx(2) by (subst after_ns_cong [of _ st2]) (simp_all add: add_ns_def)
    ultimately show ?thesis
      using True same i nx(4) by (intro that [of evs' "add_ns p st2"]) (simp_all add: add_ns_def)
  next
    case False
    have i2: "icu_inv (dr_icu st2)" and p2: "dr_heap st2 p = Some ns" using i p(1) same by simp_all
    let ?d = "\<lambda>i'. st2\<lparr>dr_icu := i', dr_heap := (dr_heap st2)(p := None)\<rparr>"
    obtain es i' where d: "namespace_destroy env p st2 = Inr (es, ?d i')" "icu_inv i'" "client_calls es = []"
      by (rule namespace_destroy_ok [OF r(1) i2 p2 p(3)])
    have "run_admin_cb env (status_of a e) (Cb_iosq p nn) st1 = Inr (evs @ loop_end nn n @ es, ?d i')"
      using False ok p1 p(2) nx(1) d(1)
      by (simp add: iosq_created_def answer_iosq [OF e(1)] e(2) and_then_def loop_end_def Let_def)
    with r(5) obtain evs' where "admin_round a env0 st = Inr (Some (evs', ?d i'))"
      "client_calls evs' = client_calls (evs @ loop_end nn n @ es)" by blast
    moreover have "client_calls (loop_end nn n) = loop_end nn n" by (simp add: loop_end_def)
    moreover have "after_ns nn n (?d i')" using nx(2) by (subst after_ns_cong [of _ st2]) simp_all
    ultimately show ?thesis
      using False same d(2,3) nx(4) by (intro that [of evs' "?d i'"]) simp_all
  qed
qed

section \<open>Several rounds\<close>

text \<open>
  \<open>drives a envs r evs st st'\<close>: the first \<open>r\<close> of any number of rounds take \<open>st\<close> to \<open>st'\<close>, with the
  events \<open>evs\<close>.
\<close>

definition drives ::
  "ctl_answers \<Rightarrow> (nat \<Rightarrow> step_env) \<Rightarrow> nat \<Rightarrow> drv_event list \<Rightarrow> 'io driver \<Rightarrow> 'io driver \<Rightarrow> bool" where
  "drives a envs r evs st st' \<longleftrightarrow>
     (\<forall>k. rounds a envs (r + k) st = and_then (Inr (evs, st')) (rounds a (\<lambda>i. envs (i + r)) k))"

lemma drives_round:
  assumes "admin_round a (envs 0) st = Inr (Some (evs, st'))"
  shows "drives a envs 1 evs st st'"
  using assms by (simp add: drives_def)

lemma and_then_assoc:
  "and_then (Inr (evs, st)) (\<lambda>s. and_then (Inr (evs', s)) f) = and_then (Inr (evs @ evs', st)) f"
  by (cases "f st") auto

lemma drives_trans:
  assumes "drives a envs r evs st st1" and "drives a (\<lambda>i. envs (i + r)) s evs' st1 st2"
  shows "drives a envs (r + s) (evs @ evs') st st2"
  unfolding drives_def
proof
  fix k
  have "rounds a envs (r + s + k) st = and_then (Inr (evs, st1)) (rounds a (\<lambda>i. envs (i + r)) (s + k))"
    using assms(1) by (simp only: drives_def add.assoc)
  also have "\<dots> = and_then (Inr (evs @ evs', st2)) (rounds a (\<lambda>i. envs (i + (r + s))) k)"
    using assms(2)
    by (cases "rounds a (\<lambda>i. envs (i + (r + s))) k st2")
      (auto simp: drives_def add.assoc add.commute [of r s])
  finally show "rounds a envs (r + s + k) st =
      and_then (Inr (evs @ evs', st2)) (rounds a (\<lambda>i. envs (i + (r + s))) k)" .
qed

lemma drives_idle:
  assumes "drives a envs r evs st st'" and "admin_idle st'" and "r \<le> k"
  shows "rounds a envs k st = Inr (evs, st')"
proof -
  obtain j where "k = r + j" using assms(3) le_Suc_ex by blast
  with assms(1,2) show ?thesis by (simp add: drives_def rounds_idle)
qed

text \<open>The namespaces that become visible, and what a visible namespace looks like.\<close>

definition ns_visible :: "ctl_answers \<Rightarrow> u32 \<Rightarrow> bool" where
  "ns_visible a n \<longleftrightarrow> ns_found a n \<and> take_bit 15 (ca_iocq a (ucast n)) = 0 \<and>
     take_bit 15 (ca_iosq a (ucast n)) = 0"

definition ns_ready ::
  "ctl_answers \<Rightarrow> step_env set \<Rightarrow> bool \<times> u64 \<Rightarrow> u32 \<Rightarrow> 'io namespace \<Rightarrow> bool" where
  "ns_ready a E k n ns \<longleftrightarrow>
     (\<exists>iv cq sq.
        ns = (namespace_new n (the (usable_lba_size (snd (ca_ns a n)))) (snd (ca_ns a n)))
               \<lparr>ns_msi := iv, ns_iocq := Some cq, ns_iosq := Some sq\<rparr> \<and>
        cq_tracks cq [] 0 \<and> q_size cq = Ioq_size \<and> q_y cq = n \<and>
        sq_inv sq \<and> pending sq = Map.empty \<and> sq_can_produce sq \<and> q_size sq = Ioq_size \<and> q_y sq = n \<and>
        cq_created k n cq \<and> sq_created E k n sq)"

definition heap_ok :: "'io driver \<Rightarrow> bool" where
  "heap_ok st \<longleftrightarrow> icu_inv (dr_icu st) \<and> (\<forall>p. dr_next st \<le> p \<longrightarrow> dr_heap st p = None)"

text \<open>The client calls of one namespace; a failed submission queue ends the loop differently.\<close>

definition ns_calls :: "ctl_answers \<Rightarrow> u32 \<Rightarrow> u32 \<Rightarrow> drv_event list" where
  "ns_calls a nn n =
     (if ns_visible a n then Ev_visible n # loop_end nn n
      else if ns_found a n \<and> take_bit 15 (ca_iocq a (ucast n)) = 0 then loop_end nn n
      else skip_end nn n)"

lemma one_namespace:
  fixes st :: "'io driver"
  assumes at: "at_ns nn n st" and s: "\<And>i. services_ok (envs i)" and n: "unat n < 65536"
    and h: "heap_ok st" and E: "\<And>i. envs i \<in> E"
  obtains r evs st' where "r \<le> 3" and "drives a envs r evs st st'" and "after_ns nn n st'"
    and "heap_ok st'" and "client_calls evs = ns_calls a nn n"
    and "dr_nss st' = dr_nss st @ (if ns_visible a n then [dr_next st] else [])"
    and "if ns_visible a n
      then \<exists>ns. ns_ready a E (ctl_kind (dr_ctl st)) n ns \<and> dr_heap st' = (dr_heap st)(dr_next st \<mapsto> ns)
      else dr_heap st' = dr_heap st"
    and "ctl_kind (dr_ctl st') = ctl_kind (dr_ctl st)"
proof (cases "ns_found a n")
  case False
  obtain evs st' where r: "admin_round a (envs 0) st = Inr (Some (evs, st'))" "after_ns nn n st'"
    "same_namespaces st st'" "client_calls evs = skip_end nn n"
    by (rule ns_skipped [OF at s False])
  then show ?thesis
    using False h drives_round [of a envs st evs st']
    by (intro that [of 1 evs st']) (simp_all add: ns_calls_def ns_visible_def same_namespaces_def heap_ok_def)
next
  case True
  let ?p = "dr_next st"
  have fresh: "dr_heap st ?p = None" and i: "icu_inv (dr_icu st)" using h by (simp_all add: heap_ok_def)
  obtain evs1 st1 e1 iv cq where r1: "admin_round a (envs 0) st = Inr (Some (evs1, st1))"
    "admin_busy e1 (Cb_iocq ?p nn) st1" "sqe_opc e1 = 5" "sqe_qid e1 = ucast n"
    "client_calls evs1 = []" "dr_nss st1 = dr_nss st" "dr_next st1 = Suc ?p"
    "dr_heap st1 = (dr_heap st)(?p \<mapsto>
        (namespace_new n (the (usable_lba_size (snd (ca_ns a n)))) (snd (ca_ns a n)))
          \<lparr>ns_msi := iv, ns_iocq := Some cq\<rparr>)"
    "unat iv < Num_msis" "icu_inv (dr_icu st1)"
    "cq_tracks cq [] 0" "q_size cq = Ioq_size" "q_y cq = n"
    "ctl_kind (dr_ctl st1) = ctl_kind (dr_ctl st)" "cq_created (ctl_kind (dr_ctl st)) n cq"
    by (rule ns_accepted [where a = a, OF at s n True i])
  define ns1 :: "'io namespace" where
    "ns1 = (namespace_new n (the (usable_lba_size (snd (ca_ns a n)))) (snd (ca_ns a n)))
          \<lparr>ns_msi := iv, ns_iocq := Some cq\<rparr>"
  have p1: "dr_heap st1 ?p = Some ns1" "ns_nsid ns1 = n" "unat (ns_msi ns1) < Num_msis"
    using r1(8,9) by (simp_all add: ns1_def namespace_new_def)
  note d1 = drives_round [where envs = envs, OF r1(1)]
  show ?thesis
  proof (cases "take_bit 15 (ca_iocq a (ucast n)) = 0")
    case False
    obtain evs2 st2 where r2: "admin_round a (envs 1) st1 = Inr (Some (evs2, st2))" "after_ns nn n st2"
      "client_calls evs2 = skip_end nn n" "dr_heap st2 = (dr_heap st1)(?p := None)"
      "dr_next st2 = dr_next st1" "dr_nss st2 = dr_nss st1" "icu_inv (dr_icu st2)"
      "ctl_kind (dr_ctl st2) = ctl_kind (dr_ctl st1)"
      by (rule iocq_failed [OF r1(2-4) s p1 r1(10) False])
    have d2: "drives a (\<lambda>i. envs (i + 1)) 1 evs2 st1 st2" by (rule drives_round) (use r2(1) in simp)
    have "dr_heap st2 = dr_heap st" using r2(4) r1(8) fresh by (simp add: fun_upd_idem)
    then show ?thesis
      using drives_trans [OF d1 d2] r1 r2 False True h
      by (intro that [of "Suc (Suc 0)" "evs1 @ evs2" st2]) (simp_all add: ns_calls_def ns_visible_def heap_ok_def)
  next
    case ok: True
    obtain evs2 st2 e2 sq where r2: "admin_round a (envs 1) st1 = Inr (Some (evs2, st2))"
      "admin_busy e2 (Cb_iosq ?p nn) st2" "sqe_opc e2 = 1" "sqe_qid e2 = ucast n"
      "client_calls evs2 = []" "dr_heap st2 = (dr_heap st1)(?p \<mapsto> ns1\<lparr>ns_iosq := Some sq\<rparr>)"
      "dr_next st2 = dr_next st1" "dr_nss st2 = dr_nss st1" "dr_icu st2 = dr_icu st1"
      "sq_inv sq" "pending sq = Map.empty" "sq_can_produce sq" "q_size sq = Ioq_size" "q_y sq = n"
      "ctl_kind (dr_ctl st2) = ctl_kind (dr_ctl st1)" "sq_created {envs 1} (ctl_kind (dr_ctl st1)) n sq"
      by (rule iocq_accepted [OF r1(2-4) s n p1(1,2) ok])
    define good where "good \<longleftrightarrow> take_bit 15 (ca_iosq a (ucast n)) = 0"
    have p2: "dr_heap st2 ?p = Some (ns1\<lparr>ns_iosq := Some sq\<rparr>)" "ns_nsid (ns1\<lparr>ns_iosq := Some sq\<rparr>) = n"
      "unat (ns_msi (ns1\<lparr>ns_iosq := Some sq\<rparr>)) < Num_msis" "icu_inv (dr_icu st2)"
      using r2(6,9) p1(2,3) r1(10) by simp_all
    obtain evs3 st3 where r3: "admin_round a (envs 2) st2 = Inr (Some (evs3, st3))" "after_ns nn n st3"
      "client_calls evs3 = (if good then [Ev_visible n] else []) @ loop_end nn n"
      "dr_heap st3 = (if good then dr_heap st2 else (dr_heap st2)(?p := None))"
      "dr_next st3 = dr_next st2" "dr_nss st3 = dr_nss st2 @ (if good then [?p] else [])"
      "icu_inv (dr_icu st3)" "ctl_kind (dr_ctl st3) = ctl_kind (dr_ctl st2)"
      by (rule iosq_finished [OF r2(2-4) s p2 good_def])
    have vis: "ns_visible a n \<longleftrightarrow> good" using True ok by (simp add: ns_visible_def good_def)
    have d2: "drives a (\<lambda>i. envs (i + 1)) 1 evs2 st1 st2" by (rule drives_round) (use r2(1) in simp)
    have d3: "drives a (\<lambda>i. envs (i + 2)) 1 evs3 st2 st3" by (rule drives_round) (use r3(1) in \<open>simp add: numeral_2_eq_2\<close>)
    have "drives a envs (2 + 1) ((evs1 @ evs2) @ evs3) st st3"
      by (rule drives_trans [OF _ d3]) (use drives_trans [OF d1 d2] in \<open>simp add: numeral_2_eq_2\<close>)
    moreover have "dr_heap st2 = (dr_heap st)(?p \<mapsto> ns1\<lparr>ns_iosq := Some sq\<rparr>)"
      using r2(6) r1(8) by simp
    moreover have "sq_created E (ctl_kind (dr_ctl st)) n sq"
      using sq_created_mono [OF r2(16), of E] E [of 1] r1(14) by simp
    then have "ns_ready a E (ctl_kind (dr_ctl st)) n (ns1\<lparr>ns_iosq := Some sq\<rparr>)"
      unfolding ns_ready_def ns1_def using r1(11-13,15) r2(10-14) by blast
    ultimately show ?thesis
      using r1 r2 r3 h fresh ok True
      by (intro that [of "2 + 1" "(evs1 @ evs2) @ evs3" st3])
        (auto simp: ns_calls_def vis heap_ok_def fun_upd_idem)
  qed
qed

section \<open>The whole loop\<close>

definition visible_from :: "ctl_answers \<Rightarrow> u32 \<Rightarrow> nat \<Rightarrow> u32 list" where
  "visible_from a nn k = filter (ns_visible a) (map of_nat [k..<Suc (unat nn)])"

lemma visible_from_step:
  assumes "n \<le> nn"
  shows "visible_from a nn (unat n) = (if ns_visible a n then [n] else []) @ visible_from a nn (Suc (unat n))"
proof -
  have "[unat n..<Suc (unat nn)] = unat n # [Suc (unat n)..<Suc (unat nn)]"
    using assms by (simp add: upt_conv_Cons word_le_nat_alt)
  then show ?thesis by (simp add: visible_from_def)
qed

lemma ns_calls_in_range:
  assumes "n \<le> nn" and "unat nn < 65536"
  shows "ns_calls a nn n = (if ns_visible a n then [Ev_visible n] else []) @ loop_end nn n"
  using ends_agree [OF assms] by (simp add: ns_calls_def)

definition holds_ready ::
  "ctl_answers \<Rightarrow> step_env set \<Rightarrow> bool \<times> u64 \<Rightarrow> (ns_ptr \<rightharpoonup> 'io namespace) \<Rightarrow> ns_ptr \<Rightarrow> u32 \<Rightarrow> bool" where
  "holds_ready a E k h p n \<longleftrightarrow> (\<exists>ns. h p = Some ns \<and> ns_ready a E k n ns)"

lemma all_namespaces:
  fixes st :: "'io driver"
  assumes "at_ns nn n st" and "\<And>i. services_ok (envs i)" and "n \<le> nn" and "unat nn < 65536"
    and "heap_ok st" and "\<And>i. envs i \<in> E"
  shows "\<exists>r evs st' ps. r \<le> 3 * Suc (unat nn - unat n) \<and> drives a envs r evs st st' \<and> admin_idle st' \<and>
    client_calls evs = map Ev_visible (visible_from a nn (unat n)) @ [Ev_done] \<and>
    heap_ok st' \<and> dr_heap st \<subseteq>\<^sub>m dr_heap st' \<and> dr_nss st' = dr_nss st @ ps \<and>
    list_all2 (holds_ready a E (ctl_kind (dr_ctl st)) (dr_heap st')) ps (visible_from a nn (unat n)) \<and>
    ctl_kind (dr_ctl st') = ctl_kind (dr_ctl st)"
  using assms
proof (induction "unat nn - unat n" arbitrary: n st envs)
  case 0
  then have nn: "n = nn" by (simp add: word_le_nat_alt unat_eq_iff [symmetric])
  have n16: "unat n < 65536" using 0 nn by simp
  obtain r evs st' where r: "r \<le> 3" "drives a envs r evs st st'" "after_ns nn n st'" "heap_ok st'"
    "client_calls evs = ns_calls a nn n"
    "dr_nss st' = dr_nss st @ (if ns_visible a n then [dr_next st] else [])"
    "if ns_visible a n
      then \<exists>ns. ns_ready a E (ctl_kind (dr_ctl st)) n ns \<and> dr_heap st' = (dr_heap st)(dr_next st \<mapsto> ns)
      else dr_heap st' = dr_heap st" "ctl_kind (dr_ctl st') = ctl_kind (dr_ctl st)"
    by (rule one_namespace [where a = a, OF 0(2,3) n16 0(6,7)])
  have vis: "visible_from a nn (unat n) = (if ns_visible a n then [n] else [])"
    using visible_from_step [OF 0(4)] nn by (simp add: visible_from_def)
  have "dr_heap st \<subseteq>\<^sub>m dr_heap st'"
    using r(7) 0(6) by (auto simp: heap_ok_def map_le_def split: if_splits)
  moreover have "list_all2 (holds_ready a E (ctl_kind (dr_ctl st)) (dr_heap st')) (if ns_visible a n then [dr_next st] else [])
      (visible_from a nn (unat n))"
    using r(7) by (auto simp: vis holds_ready_def)
  moreover have "admin_idle st'"
    using r(3) nn next_in_range(1) [OF 0(4,5)] by (simp add: after_ns_def)
  ultimately show ?case
    using r nn vis ns_calls_in_range [OF 0(4,5), of a]
    by (intro exI [of _ r] exI [of _ evs] exI [of _ st']
        exI [of _ "if ns_visible a n then [dr_next st] else []"])
      (auto simp: loop_end_def)
next
  case (Suc d)
  have neq: "n \<noteq> nn" using Suc.hyps(2) by auto
  note nr = next_in_range [OF Suc.prems(3,4)]
  have n16: "unat n < 65536" using Suc.prems(3,4) by (simp add: word_le_nat_alt)
  obtain r evs st1 where r: "r \<le> 3" "drives a envs r evs st st1" "after_ns nn n st1" "heap_ok st1"
    "client_calls evs = ns_calls a nn n"
    "dr_nss st1 = dr_nss st @ (if ns_visible a n then [dr_next st] else [])"
    "if ns_visible a n
      then \<exists>ns. ns_ready a E (ctl_kind (dr_ctl st)) n ns \<and> dr_heap st1 = (dr_heap st)(dr_next st \<mapsto> ns)
      else dr_heap st1 = dr_heap st" "ctl_kind (dr_ctl st1) = ctl_kind (dr_ctl st)"
    by (rule one_namespace [where a = a, OF Suc.prems(1,2) n16 Suc.prems(5,6)])
  have at: "at_ns nn (n + 1) st1" and le: "n + 1 \<le> nn"
    using r(3) neq nr(1) by (simp_all add: after_ns_def)
  have d: "d = unat nn - unat (n + 1)" using Suc.hyps(2) nr(2) by simp
  have s: "services_ok (envs (i + r))" "envs (i + r) \<in> E" for i by (rule Suc.prems(2,6))+
  obtain r2 evs2 st2 ps where IH: "r2 \<le> 3 * Suc (unat nn - unat (n + 1))"
    "drives a (\<lambda>i. envs (i + r)) r2 evs2 st1 st2" "admin_idle st2"
    "client_calls evs2 = map Ev_visible (visible_from a nn (unat (n + 1))) @ [Ev_done]"
    "heap_ok st2" "dr_heap st1 \<subseteq>\<^sub>m dr_heap st2" "dr_nss st2 = dr_nss st1 @ ps"
    "list_all2 (holds_ready a E (ctl_kind (dr_ctl st1)) (dr_heap st2)) ps (visible_from a nn (unat (n + 1)))"
    "ctl_kind (dr_ctl st2) = ctl_kind (dr_ctl st1)"
    using Suc.hyps(1) [where envs = "\<lambda>i. envs (i + r)", OF d at s(1) le Suc.prems(4) r(4) s(2)] by blast
  let ?new = "if ns_visible a n then [dr_next st] else []"
  have step: "visible_from a nn (unat n) = (if ns_visible a n then [n] else []) @ visible_from a nn (unat (n + 1))"
    using visible_from_step [OF Suc.prems(3)] by (simp add: nr(2))
  have "dr_heap st \<subseteq>\<^sub>m dr_heap st1"
    using r(7) Suc.prems(5) by (auto simp: heap_ok_def map_le_def split: if_splits)
  then have "dr_heap st \<subseteq>\<^sub>m dr_heap st2" using IH(6) by (rule map_le_trans)
  moreover have "holds_ready a E (ctl_kind (dr_ctl st)) (dr_heap st2) (dr_next st) n" if v: "ns_visible a n"
  proof -
    obtain ns where ns: "ns_ready a E (ctl_kind (dr_ctl st)) n ns" "dr_heap st1 (dr_next st) = Some ns"
      using r(7) unfolding if_P [OF v] by (metis fun_upd_same)
    have "dr_heap st2 (dr_next st) = Some ns"
      using ns(2) IH(6) unfolding map_le_def by (metis domI)
    with ns(1) show ?thesis by (simp add: holds_ready_def)
  qed
  then have "list_all2 (holds_ready a E (ctl_kind (dr_ctl st)) (dr_heap st2)) (?new @ ps) (visible_from a nn (unat n))"
    using IH(8) r(8) by (simp add: step)
  moreover have "drives a envs (r + r2) (evs @ evs2) st st2" by (rule drives_trans [OF r(2) IH(2)])
  moreover have "r + r2 \<le> 3 * Suc (unat nn - unat n)" using r(1) IH(1) Suc.hyps(2) d by simp
  moreover have "client_calls (evs @ evs2) = map Ev_visible (visible_from a nn (unat n)) @ [Ev_done]"
    using r(5) IH(4) ns_calls_in_range [OF Suc.prems(3,4), of a] neq by (simp add: step loop_end_def)
  ultimately show ?case
    using IH(3,5,7,9) r(6,8)
    by (intro exI [of _ "r + r2"] exI [of _ "evs @ evs2"] exI [of _ st2] exI [of _ "?new @ ps"]) simp
qed

text \<open>The first round: the answer to Identify Controller.\<close>

lemma answer_identify_ctl: "sqe_opc e = 6 \<Longrightarrow> sqe_cns e = 1 \<Longrightarrow> answer_to a e = ca_ctl a"
  by (simp add: answer_to_def)

lemma ctl_round:
  assumes at: "at_ctl st" and s: "services_ok env0" and ok: "take_bit 15 (fst (ca_ctl a)) = 0"
  obtains evs st' where "admin_round a env0 st = Inr (Some (evs, st'))" and "client_calls evs = []"
    and "at_ns (rd32 (snd (ca_ctl a)) (cns_ic_off Nn)) 1 st'"
    and "dr_heap st' = dr_heap st" and "dr_next st' = dr_next st" and "dr_nss st' = dr_nss st"
    and "dr_icu st' = dr_icu st"
    and "ctl_sn (dr_ctl st') = serial_number (snd (ca_ctl a))"
    and "ctl_mdts (dr_ctl st') = snd (ca_ctl a) (cns_ic_off Mdts)"
    and "ctl_sgls (dr_ctl st') \<longleftrightarrow> rd32 (snd (ca_ctl a)) (cns_ic_off Sgls) AND 0x3 \<noteq> 0"
proof -
  from at obtain e ic where e: "admin_busy e (Cb_identify ic) st" "sqe_opc e = 6" "sqe_cns e = 1"
    "sqe_prp1 e = inout_buffer_pget ic 0"
    by (auto simp: at_ctl_def)
  obtain st1 env where r: "services_ok env" "admin_idle st1" "same_namespaces st st1"
    "\<forall>ib. inout_buffer_pget ib 0 = sqe_prp1 e \<longrightarrow> se_data env ib = snd (answer_to a e)"
    "\<forall>evs st2. run_admin_cb env (status_of a e) (Cb_identify ic) st1 = Inr (evs, st2) \<longrightarrow>
      (\<exists>evs'. admin_round a env0 st = Inr (Some (evs', st2)) \<and> client_calls evs' = client_calls evs)"
    "se_buf2 env = se_buf2 env0"
    by (rule round_step [OF e(1) s, where a = a])
  let ?data = "snd (ca_ctl a)"
  let ?st1 = "st1\<lparr>dr_ctl := (dr_ctl st1)\<lparr>ctl_sn := serial_number ?data, ctl_mdts := ?data (cns_ic_off Mdts),
      ctl_sgls := (rd32 ?data (cns_ic_off Sgls) AND 0x3 \<noteq> 0)\<rparr>\<rparr>"
  have idle: "admin_idle ?st1" using r(2) by (simp add: admin_idle_def acq_quiet_def)
  have ans: "answer_to a e = ca_ctl a" using answer_identify_ctl e(2,3) by simp
  have data: "se_data env ic = ?data" using r(4) e(4) ans by simp
  obtain db st2 where nx: "identify_namespace env (rd32 ?data (cns_ic_off Nn)) 1 ?st1 = Inr ([Ev_doorbell db], st2)"
    "at_ns (rd32 ?data (cns_ic_off Nn)) 1 st2" "same_namespaces ?st1 st2"
    by (rule identify_namespace_ok [OF idle r(1)])
  have ctl: "ctl_sn (dr_ctl st2) = ctl_sn (dr_ctl ?st1)" "ctl_mdts (dr_ctl st2) = ctl_mdts (dr_ctl ?st1)"
    "ctl_sgls (dr_ctl st2) = ctl_sgls (dr_ctl ?st1)"
    using nx(1) by (auto simp: identify_namespace_def bind_res_Inr_iff Let_def split: option.splits)
  have "run_admin_cb env (status_of a e) (Cb_identify ic) st1 =
      Inr ([Ev_unmap (unmap_request ic), Ev_doorbell db], st2)"
    using ok nx(1) by (simp add: unmap_in_ok [OF r(1)] ctl_identified_def status_of_def ans data Let_def)
  with r(5) obtain evs' where "admin_round a env0 st = Inr (Some (evs', st2))" "client_calls evs' = []" by auto
  then show ?thesis
    using nx(2,3) r(3) ctl by (intro that [of evs' st2]) (simp_all add: same_namespaces_def)
qed

section \<open>The identification\<close>

definition visible_nsids :: "ctl_answers \<Rightarrow> u32 list" where
  "visible_nsids a =
     filter (ns_visible a) (map of_nat [1..<Suc (unat (rd32 (snd (ca_ctl a)) (cns_ic_off Nn)))])"

text \<open>Issuing the first command and then any number of rounds.\<close>

definition identification ::
  "ctl_answers \<Rightarrow> step_env \<Rightarrow> (nat \<Rightarrow> step_env) \<Rightarrow> nat \<Rightarrow> 'io driver \<Rightarrow> 'io step_result" where
  "identification a env envs k st = and_then (identify env st) (rounds a envs k)"

lemma rounds_enumerate:
  fixes st :: "'io driver"
  assumes "at_ctl st" and "heap_ok st" and "\<And>i. services_ok (envs i)"
    and "take_bit 15 (fst (ca_ctl a)) = 0"
    and "nn = rd32 (snd (ca_ctl a)) (cns_ic_off Nn)" and "1 \<le> nn" and "unat nn < 65536"
  shows "\<exists>evs st' ps.
    (\<forall>k \<ge> 3 * unat nn + 1. rounds a envs k st = Inr (evs, st')) \<and>
    client_calls evs = map Ev_visible (visible_nsids a) @ [Ev_done] \<and> admin_idle st' \<and>
    dr_nss st' = dr_nss st @ ps \<and> list_all2 (holds_ready a (range envs) (ctl_kind (dr_ctl st')) (dr_heap st')) ps (visible_nsids a) \<and>
    dr_heap st \<subseteq>\<^sub>m dr_heap st'"
proof -
  obtain evs1 st1 where r1: "admin_round a (envs 0) st = Inr (Some (evs1, st1))" "client_calls evs1 = []"
    "at_ns (rd32 (snd (ca_ctl a)) (cns_ic_off Nn)) 1 st1"
    "dr_heap st1 = dr_heap st" "dr_next st1 = dr_next st" "dr_nss st1 = dr_nss st" "dr_icu st1 = dr_icu st"
    "ctl_sn (dr_ctl st1) = serial_number (snd (ca_ctl a))"
    "ctl_mdts (dr_ctl st1) = snd (ca_ctl a) (cns_ic_off Mdts)"
    "ctl_sgls (dr_ctl st1) \<longleftrightarrow> rd32 (snd (ca_ctl a)) (cns_ic_off Sgls) AND 0x3 \<noteq> 0"
    by (rule ctl_round [OF assms(1,3,4)])
  have at: "at_ns nn 1 st1" using r1(3) assms(5) by simp
  have h: "heap_ok st1" and same: "dr_heap st1 = dr_heap st" "dr_nss st1 = dr_nss st"
    using assms(2) r1(4-7) by (simp_all add: heap_ok_def)
  have s: "services_ok (envs (i + 1))" for i by (rule assms(3))
  obtain r evs2 st2 ps where r2: "r \<le> 3 * Suc (unat nn - unat (1 :: u32))"
    "drives a (\<lambda>i. envs (i + 1)) r evs2 st1 st2" "admin_idle st2"
    "client_calls evs2 = map Ev_visible (visible_from a nn (unat (1 :: u32))) @ [Ev_done]"
    "heap_ok st2" "dr_heap st1 \<subseteq>\<^sub>m dr_heap st2" "dr_nss st2 = dr_nss st1 @ ps"
    "list_all2 (holds_ready a (range envs) (ctl_kind (dr_ctl st1)) (dr_heap st2)) ps (visible_from a nn (unat (1 :: u32)))"
    "ctl_kind (dr_ctl st2) = ctl_kind (dr_ctl st1)"
    using all_namespaces [where envs = "\<lambda>i. envs (i + 1)", OF at s assms(6,7) h rangeI [of envs]] by blast
  have vis: "visible_from a nn (unat (1 :: u32)) = visible_nsids a"
    by (simp add: visible_from_def visible_nsids_def assms(5))
  have d: "drives a envs (1 + r) (evs1 @ evs2) st st2"
    by (rule drives_trans [OF drives_round [where envs = envs, OF r1(1)] r2(2)])
  have "0 < unat nn" using assms(6) by (simp add: word_le_nat_alt)
  with r2(1) have "1 + r \<le> 3 * unat nn + 1" by simp
  then have "\<forall>k \<ge> 3 * unat nn + 1. rounds a envs k st = Inr (evs1 @ evs2, st2)"
    using drives_idle [OF d r2(3)] by simp
  then show ?thesis
    using r1(2) r2(3,4,6-9) same vis
    by (intro exI [of _ "evs1 @ evs2"] exI [of _ st2] exI [of _ ps]) simp
qed

text \<open>
  C7: The identification of a controller that answers every admin command and reports between 1 and
  65535 namespaces ends after at most three answers for each of them, and one. By then the client
  has been told, in ascending order and once each, of exactly those namespaces that are active, have
  a usable LBA format and got their two queues; last of all, and once, it has been told that the
  identification is done. The namespaces it was told of are the ones the controller keeps, with
  the data of their own Identify command, an empty completion queue and an empty submission queue
  of their own; no other namespace is touched. The admin queue of two entries, of which one is
  usable, was never found full, no callback has run twice, and none is left.
\<close>

theorem identify_enumerates:
  fixes st :: "'io driver"
  assumes "admin_idle st" and "heap_ok st" and "services_ok env" and "\<And>i. services_ok (envs i)"
    and "take_bit 15 (fst (ca_ctl a)) = 0"
    and "nn = rd32 (snd (ca_ctl a)) (cns_ic_off Nn)" and "1 \<le> nn" and "unat nn < 65536"
  shows "\<exists>evs st' ps.
    (\<forall>k \<ge> 3 * unat nn + 1. identification a env envs k st = Inr (evs, st')) \<and>
    client_calls evs = map Ev_visible (visible_nsids a) @ [Ev_done] \<and> admin_idle st' \<and>
    dr_nss st' = dr_nss st @ ps \<and> list_all2 (holds_ready a (range envs) (ctl_kind (dr_ctl st')) (dr_heap st')) ps (visible_nsids a) \<and>
    dr_heap st \<subseteq>\<^sub>m dr_heap st'"
proof -
  obtain db st0 where i: "identify env st = Inr ([Ev_doorbell db], st0)" "at_ctl st0" "same_namespaces st st0"
    by (rule identify_ok [OF assms(1,3)])
  have h: "heap_ok st0" and same: "dr_heap st0 = dr_heap st" "dr_nss st0 = dr_nss st"
    using assms(2) i(3) by (simp_all add: heap_ok_def same_namespaces_def)
  obtain evs st' ps where r: "\<forall>k \<ge> 3 * unat nn + 1. rounds a envs k st0 = Inr (evs, st')"
    "client_calls evs = map Ev_visible (visible_nsids a) @ [Ev_done]" "admin_idle st'"
    "dr_nss st' = dr_nss st0 @ ps" "list_all2 (holds_ready a (range envs) (ctl_kind (dr_ctl st')) (dr_heap st')) ps (visible_nsids a)"
    "dr_heap st0 \<subseteq>\<^sub>m dr_heap st'"
    using rounds_enumerate [where envs = envs, OF i(2) h assms(4-8)] by blast
  then have "\<forall>k \<ge> 3 * unat nn + 1. identification a env envs k st = Inr (Ev_doorbell db # evs, st')"
    using i(1) by (simp add: identification_def)
  then show ?thesis
    using r(2-6) same by (intro exI [of _ "Ev_doorbell db # evs"] exI [of _ st'] exI [of _ ps]) simp
qed

text \<open>
  A controller that fails the Identify Controller command is given up in an orderly way: the
  client is told that the identification is done, no namespace is created, and no command is left.
\<close>

theorem identify_fails:
  fixes st :: "'io driver"
  assumes "admin_idle st" and "services_ok env" and "\<And>i. services_ok (envs i)"
    and "take_bit 15 (fst (ca_ctl a)) \<noteq> 0"
  shows "\<exists>evs st'. (\<forall>k \<ge> 1. identification a env envs k st = Inr (evs, st')) \<and>
    client_calls evs = [Ev_done] \<and> admin_idle st' \<and> same_namespaces st st'"
proof -
  obtain db st0 where i: "identify env st = Inr ([Ev_doorbell db], st0)" "at_ctl st0" "same_namespaces st st0"
    by (rule identify_ok [OF assms(1,2)])
  obtain e ic where e: "admin_busy e (Cb_identify ic) st0" "sqe_opc e = 6" "sqe_cns e = 1"
    using i(2) by (auto simp: at_ctl_def)
  obtain st1 env' where r: "services_ok env'" "admin_idle st1" "same_namespaces st0 st1"
    "\<forall>ib. inout_buffer_pget ib 0 = sqe_prp1 e \<longrightarrow> se_data env' ib = snd (answer_to a e)"
    "\<forall>evs st2. run_admin_cb env' (status_of a e) (Cb_identify ic) st1 = Inr (evs, st2) \<longrightarrow>
      (\<exists>evs'. admin_round a (envs 0) st0 = Inr (Some (evs', st2)) \<and> client_calls evs' = client_calls evs)"
    "se_buf2 env' = se_buf2 (envs 0)"
    by (rule round_step [OF e(1) assms(3) [of 0], where a = a])
  have "run_admin_cb env' (status_of a e) (Cb_identify ic) st1 = Inr ([Ev_done], st1)"
    using assms(4) by (simp add: ctl_identified_def status_of_def answer_identify_ctl [OF e(2,3)])
  with r(5) obtain evs' where r1: "admin_round a (envs 0) st0 = Inr (Some (evs', st1))" "client_calls evs' = [Ev_done]"
    by auto
  have "\<forall>k \<ge> 1. identification a env envs k st = Inr (Ev_doorbell db # evs', st1)"
    using i(1) drives_idle [OF drives_round [where envs = envs, OF r1(1)] r(2)]
    by (simp add: identification_def)
  then show ?thesis
    using r1(2) r(2) same_namespaces_trans [OF i(3) r(3)]
    by (intro exI [of _ "Ev_doorbell db # evs'"] exI [of _ st1]) simp
qed

text \<open>
  C38: The loop examines NSID 1 before it looks at the number of namespaces. A controller that
  reports none, but has a usable namespace 1, makes that namespace visible, and the identification
  then ends without \<^verbatim>\<open>done_cb\<close> ever being called: the test for the last namespace compares for
  equality.
\<close>

theorem identify_zero_namespaces:
  fixes st :: "'io driver"
  assumes "admin_idle st" and "heap_ok st" and "services_ok env" and "\<And>i. services_ok (envs i)"
    and "take_bit 15 (fst (ca_ctl a)) = 0"
    and "rd32 (snd (ca_ctl a)) (cns_ic_off Nn) = 0" and "ns_visible a 1"
  shows "\<exists>evs st'. (\<forall>k \<ge> 4. identification a env envs k st = Inr (evs, st')) \<and>
    client_calls evs = [Ev_visible 1] \<and> admin_idle st'"
proof -
  obtain db st0 where i: "identify env st = Inr ([Ev_doorbell db], st0)" "at_ctl st0" "same_namespaces st st0"
    by (rule identify_ok [OF assms(1,3)])
  obtain evs1 st1 where r1: "admin_round a (envs 0) st0 = Inr (Some (evs1, st1))" "client_calls evs1 = []"
    "at_ns (rd32 (snd (ca_ctl a)) (cns_ic_off Nn)) 1 st1"
    "dr_heap st1 = dr_heap st0" "dr_next st1 = dr_next st0" "dr_nss st1 = dr_nss st0" "dr_icu st1 = dr_icu st0"
    "ctl_sn (dr_ctl st1) = serial_number (snd (ca_ctl a))"
    "ctl_mdts (dr_ctl st1) = snd (ca_ctl a) (cns_ic_off Mdts)"
    "ctl_sgls (dr_ctl st1) \<longleftrightarrow> rd32 (snd (ca_ctl a)) (cns_ic_off Sgls) AND 0x3 \<noteq> 0"
    by (rule ctl_round [OF i(2) assms(4,5)])
  have at: "at_ns 0 1 st1" using r1(3) assms(6) by simp
  have h: "heap_ok st1" using assms(2) i(3) r1(4-7) by (simp add: heap_ok_def same_namespaces_def)
  have s: "services_ok (envs (i + 1))" for i by (rule assms(4))
  obtain r evs2 st2 where r2: "r \<le> 3" "drives a (\<lambda>i. envs (i + 1)) r evs2 st1 st2" "after_ns 0 1 st2"
    "heap_ok st2" "client_calls evs2 = ns_calls a 0 1"
    "dr_nss st2 = dr_nss st1 @ (if ns_visible a 1 then [dr_next st1] else [])"
    "if ns_visible a 1
      then \<exists>ns. ns_ready a (range envs) (ctl_kind (dr_ctl st1)) 1 ns \<and> dr_heap st2 = (dr_heap st1)(dr_next st1 \<mapsto> ns)
      else dr_heap st2 = dr_heap st1" "ctl_kind (dr_ctl st2) = ctl_kind (dr_ctl st1)"
    by (rule one_namespace [where a = a and envs = "\<lambda>i. envs (i + 1)", OF at s _ h rangeI [of envs]]) simp
  have idle: "admin_idle st2" using r2(3) by (simp add: after_ns_def)
  have d: "drives a envs (1 + r) (evs1 @ evs2) st0 st2"
    by (rule drives_trans [OF drives_round [where envs = envs, OF r1(1)] r2(2)])
  have "rounds a envs k st0 = Inr (evs1 @ evs2, st2)" if "4 \<le> k" for k
    using drives_idle [OF d idle] that r2(1) by simp
  then have "\<forall>k \<ge> 4. identification a env envs k st = Inr (Ev_doorbell db # evs1 @ evs2, st2)"
    using i(1) by (simp add: identification_def)
  then show ?thesis
    using r1(2) r2(5) assms(7) idle
    by (intro exI [of _ "Ev_doorbell db # evs1 @ evs2"] exI [of _ st2]) (simp add: ns_calls_def loop_end_def)
qed

section \<open>A concrete controller\<close>

text \<open>Two namespaces, of which the first has 512 byte blocks and the second is not active.\<close>

definition id_data :: "u8 \<Rightarrow> bytes" where
  "id_data n i = (if i = 516 then n else if i = 4 then 83 else if i = 5 then 32 else 0)"

definition id_ns_data :: "u32 \<Rightarrow> bytes" where
  "id_ns_data n i = (if n = 1 \<and> i = 0 then 8 else if i = 130 then 9 else 0)"

definition id_answers :: "u16 \<Rightarrow> u8 \<Rightarrow> ctl_answers" where
  "id_answers st n = \<lparr>ca_ctl = (st, id_data n), ca_ns = (\<lambda>k. (0, id_ns_data k)),
     ca_iocq = (\<lambda>_. 0), ca_iosq = (\<lambda>_. 0)\<rparr>"

definition id_driver :: "nat driver" where
  "id_driver = \<lparr>dr_ctl = \<lparr>use_sgls = True, use_msis = True, use_msixs = True, ctl_cap = 0, ctl_sgls = False,
       ctl_sn = [], ctl_mdts = 0, ctl_pci = ex_pci, ctl_iomem = \<lparr>io_vaddr = 0x1000, io_len = 8192\<rparr>,
       ctl_irq_trigger = 0, ctl_acq = run_cq,
       ctl_asq = \<lparr>q_size = 2, q_entry_size = 64, q_y = 0, q_dstrd = 0, q_head = 0, q_buf = small_buf,
         sq_entries = [small_sqe, small_sqe], sq_callbacks = [None, None], sq_sgls = None,
         sq_prps = Some small_buf, sq_sgl_mem = (\<lambda>_. \<lparr>sgl_addr = 0, sgl_len = 0, sgl_res = 0, sgl_id = 0\<rparr>),
         sq_prp_mem = (\<lambda>_. 0), sq_tail = 0, sq_in_flight = 0, sq_free_hint = 0\<rparr>\<rparr>,
     dr_icu = small_icu, dr_heap = Map.empty, dr_next = 0, dr_nss = []\<rparr>"

definition id_env :: step_env where
  "id_env = \<lparr>se_irq = ex_irq_env, se_mem = run_memory, se_buf = run_answers, se_buf2 = run_answers,
     se_unmap = (\<lambda>_. Inr ()), se_data = (\<lambda>_ _. 0), se_post = (\<lambda>es. es)\<rparr>"

lemma id_idle: "admin_idle id_driver"
proof -
  have "acq_quiet id_driver"
    using completion_queue_new_tracks [OF run_cq_eq]
    by (auto simp: acq_quiet_def id_driver_def intro!: exI [of _ "[]"])
  then show ?thesis
    by (auto simp: admin_idle_def id_driver_def sq_inv_def occupied_def pending_def fun_eq_iff less_Suc_eq nth_Cons')
qed

lemma id_heap: "heap_ok id_driver"
  by (simp add: heap_ok_def id_driver_def small_icu_inv)

lemma id_services: "services_ok id_env"
  by (auto simp: services_ok_def id_env_def ex_irq_env_def readable_def grants_def run_answers_def
      first_clear.bitmap_scan_axioms)

lemma id_nn: "rd32 (snd (ca_ctl (id_answers st 2))) (cns_ic_off Nn) = 2"
  "rd32 (snd (ca_ctl (id_answers st 0))) (cns_ic_off Nn) = 0"
  by (simp_all add: id_answers_def id_data_def rd_defs)

lemma id_status: "fst (ca_ctl (id_answers st n)) = st"
  by (simp add: id_answers_def)

lemma id_visible: "ns_visible (id_answers st n) k \<longleftrightarrow> k = 1"
  by (simp add: ns_visible_def ns_found_def id_answers_def id_ns_data_def usable_lba_size_def rd_defs Let_def)

theorem identify_enumerates_witness:
  "\<exists>evs st' ps.
    (\<forall>k \<ge> 3 * unat (2 :: u32) + 1. identification (id_answers 0 2) id_env (\<lambda>_. id_env) k id_driver = Inr (evs, st')) \<and>
    client_calls evs = [Ev_visible 1, Ev_done] \<and> admin_idle st' \<and>
    dr_nss st' = dr_nss id_driver @ ps \<and>
    list_all2 (holds_ready (id_answers 0 2) (range (\<lambda>_ :: nat. id_env)) (ctl_kind (dr_ctl st')) (dr_heap st')) ps [1] \<and> dr_heap id_driver \<subseteq>\<^sub>m dr_heap st'"
proof -
  have vis: "visible_nsids (id_answers 0 2) = [1]"
    unfolding visible_nsids_def id_nn id_visible by (simp add: upt_rec)
  have "[Ev_visible 1, Ev_done] = map Ev_visible (visible_nsids (id_answers 0 2)) @ [Ev_done]"
    by (simp add: vis)
  then show ?thesis
    unfolding vis [symmetric]
    by (simp only:) (rule identify_enumerates [OF id_idle id_heap id_services id_services _ id_nn(1) [symmetric]],
      simp_all add: id_status word_le_nat_alt)
qed

theorem identify_fails_witness:
  "\<exists>evs st'. (\<forall>k \<ge> 1. identification (id_answers 2 2) id_env (\<lambda>_. id_env) k id_driver = Inr (evs, st')) \<and>
    client_calls evs = [Ev_done] \<and> admin_idle st' \<and> same_namespaces id_driver st'"
  by (rule identify_fails [OF id_idle id_services id_services]) (simp add: id_status)

theorem identify_zero_namespaces_witness:
  "\<exists>evs st'. (\<forall>k \<ge> 4. identification (id_answers 0 0) id_env (\<lambda>_. id_env) k id_driver = Inr (evs, st')) \<and>
    client_calls evs = [Ev_visible 1] \<and> admin_idle st'"
  by (rule identify_zero_namespaces [OF id_idle id_heap id_services id_services])
    (simp_all only: id_nn id_visible id_status, simp)

end
