(* ===== verification/Block_Dev.thy ===== *)
theory Block_Dev
  imports Namespaces Ctl_Base
begin

text \<open>
  \<^verbatim>\<open>server/src/nvme_device.h\<close> and \<^verbatim>\<open>server/src/nvme_device.cc\<close>: the block device on top of a
  namespace. A request is a chain of \<^verbatim>\<open>Inout_block\<close>s, here a list; the client's callback is an
  uninterpreted value \<open>'c\<close> that the driver stores and hands back with an error code and a size.
\<close>

section \<open>Requests and callbacks\<close>

record inout_block =
  blk_dma_addr :: u64
  blk_sector :: u64
  blk_num_sectors :: u32
  blk_flags :: u32

text \<open>The closures that \<^verbatim>\<open>inout_data\<close> and \<^verbatim>\<open>discard\<close> store, and what they call the client with.\<close>

datatype 'c io_callback = Rw_callback 'c u64 | Wz_callback 'c

fun run_io_callback :: "'c io_callback \<Rightarrow> u16 \<Rightarrow> 'c \<times> unit l4_ret \<times> u64" where
  "run_io_callback (Rw_callback c sz) status =
     (c, if status \<noteq> 0 then Inl L4_EIO else Inr (), if status \<noteq> 0 then 0 else sz)"
| "run_io_callback (Wz_callback c) status =
     (c, if status \<noteq> 0 then Inl L4_EIO else Inr (), 0)"

section \<open>Device properties\<close>

definition dev_sector_size :: "'cb namespace \<Rightarrow> u64" where
  "dev_sector_size ns = ns_lba_sz ns"

definition dev_capacity :: "'cb namespace \<Rightarrow> u64" where
  "dev_capacity ns = ns_nsze ns * ns_lba_sz ns"

definition dev_is_read_only :: "'cb namespace \<Rightarrow> bool" where
  "dev_is_read_only ns = ns_ro ns"

definition max_segments :: "'a ctl_base_scheme \<Rightarrow> u32" where
  "max_segments c = (if supports_sgl c then of_nat Ioq_sgls else 1)"

text \<open>Sizes are 64 bit words; a shift by the register's value is a shift by that many bits.\<close>

definition max_size :: "'a ctl_base_scheme \<Rightarrow> 'cb namespace \<Rightarrow> u64" where
  "max_size c ns =
     (let ps = push_bit (Mps_base + unat (cap_mpsmin (ctl_cap c))) 1;
          ms = (if supports_sgl c then
                  let m = 4 * 1024 * 1024 in
                  if ctl_mdts c \<noteq> 0
                  then min m (push_bit (unat (ctl_mdts c)) ps div of_nat Ioq_sgls) else m
                else
                  let m = of_nat (Prp_data_entries - 1) * L4_PAGESIZE in
                  if ctl_mdts c \<noteq> 0 then min m (push_bit (unat (ctl_mdts c)) ps) else m);
          nlb_limit = 65536 * dev_sector_size ns div ucast (max_segments c)
      in if nlb_limit < ms then nlb_limit else ms)"

record discard_info =
  di_max_discard_sectors :: u32
  di_max_discard_seg :: u32
  di_discard_sector_alignment :: u32
  di_max_write_zeroes_sectors :: u32
  di_max_write_zeroes_seg :: u32
  di_write_zeroes_may_unmap :: bool

definition dev_discard_info :: "'cb namespace \<Rightarrow> discard_info" where
  "dev_discard_info ns =
     \<lparr>di_max_discard_sectors = 0, di_max_discard_seg = 0, di_discard_sector_alignment = 0,
      di_max_write_zeroes_sectors = 65536, di_max_write_zeroes_seg = 1,
      di_write_zeroes_may_unmap = dlfeat_deallocwz (ns_dlfeat ns)\<rparr>"

section \<open>The PRP list\<close>

text \<open>
  The loop that fills the PRP list: \<open>i\<close> counts list entries, \<open>p\<close> list pages, \<open>remains\<close> the bytes
  still to map, \<open>at\<close> is the index of the list in the PRP memory.
\<close>

function prp_loop ::
  "u64 \<Rightarrow> nat \<Rightarrow> nat \<Rightarrow> nat \<Rightarrow> u64 \<Rightarrow> u64 \<Rightarrow> (nat \<Rightarrow> prp_list_entry) \<Rightarrow>
   (nat \<Rightarrow> prp_list_entry) \<times> u64" where
  "prp_loop prp2 at i p paddr remains mem =
     (if remains \<noteq> 0 \<and> i < Prp_list_entries then
        if i mod Prp_list_entries_per_page = Prp_list_entries_per_page - 1 \<and> L4_PAGESIZE < remains
        then prp_loop prp2 at (i + 1) (p + 1) paddr remains
               (mem(at + i := prp2 + of_nat (p + 1) * L4_PAGESIZE))
        else prp_loop prp2 at (i + 1) p (paddr + L4_PAGESIZE) (remains - min remains L4_PAGESIZE)
               (mem(at + i := paddr))
      else (mem, remains))"
  by pat_completeness auto
termination
  by (relation "measure (\<lambda>(prp2, at, i, p, paddr, remains, mem). Prp_list_entries - i)") auto

declare prp_loop.simps [simp del]

text \<open>What the list has to cover: the bytes behind the first page, if they exceed one page.\<close>

definition prp_first :: "u64 \<Rightarrow> u64" where
  "prp_first dma = l4_trunc_page (dma + L4_PAGESIZE)"

definition prp_remains :: "u64 \<Rightarrow> u64 \<Rightarrow> u64" where
  "prp_remains dma sz =
     (let paddr = prp_first dma;
          r = (if paddr - dma \<le> sz then sz - (paddr - dma) else 0)
      in if r \<le> L4_PAGESIZE then 0 else r)"

section \<open>inout\_data\<close>

type_synonym 'c dev_result =
  "(unit l4_ret \<times> reg_write list \<times> 'c io_callback namespace) drv_result"

definition sgl_blocks :: "inout_block list \<Rightarrow> inout_block list" where
  "sgl_blocks bs = take Ioq_sgls bs"

definition sum_sectors :: "inout_block list \<Rightarrow> u64" where
  "sum_sectors bs = fold (\<lambda>b n. n + ucast (blk_num_sectors b)) bs 0"

fun write_sgls ::
  "u64 \<Rightarrow> nat \<Rightarrow> inout_block list \<Rightarrow> (nat \<Rightarrow> sgl_desc) \<Rightarrow> nat \<Rightarrow> sgl_desc" where
  "write_sgls ss at [] mem = mem"
| "write_sgls ss at (b # bs) mem =
     write_sgls ss (Suc at) bs
       (mem(at := (mem at)\<lparr>sgl_id := sgl_kind_code Data, sgl_addr := blk_dma_addr b,
          sgl_len := ucast (ucast (blk_num_sectors b) * ss)\<rparr>))"

definition inout_data_sgl ::
  "'a ctl_base_scheme \<Rightarrow> u64 \<Rightarrow> inout_block list \<Rightarrow> 'c \<Rightarrow> bool \<Rightarrow> 'c io_callback namespace \<Rightarrow>
   'c dev_result" where
  "inout_data_sgl c sector bs cb read ns =
     (let used = sgl_blocks bs;
          sectors = sum_sectors used;
          blocks = of_nat (length used) :: u64;
          sz = sectors * dev_sector_size ns in
      bind_res (readwrite_prepare_sgl read sector (Rw_callback cb sz) ns) (\<lambda>r.
        case r of None \<Rightarrow> Inr (Inl L4_EBUSY, [], ns)
        | Some (slot, sgls, ns1) \<Rightarrow>
          (case ns_iosq ns1 of None \<Rightarrow> Inl Null_deref
           | Some q \<Rightarrow>
             let q1 = q\<lparr>sq_sgl_mem := write_sgls (dev_sector_size ns) sgls used (sq_sgl_mem q)\<rparr> in
             bind_res (readwrite_submit slot (ucast (sectors - 1)) blocks (ns1\<lparr>ns_iosq := Some q1\<rparr>))
               (\<lambda>(w, ns2). Inr (Inr (), [w], ns2)))))"

text \<open>
  Without SGLs a request is one block, cut to the maximum size of a transfer. A queue without PRP
  memory gives no pointer to a list; it matters only if there is something to put on the list.
\<close>

definition prp_sectors :: "'a ctl_base_scheme \<Rightarrow> 'cb namespace \<Rightarrow> inout_block \<Rightarrow> u64" where
  "prp_sectors c ns b = min (ucast (blk_num_sectors b)) (max_size c ns div dev_sector_size ns)"

definition inout_data_prp ::
  "'a ctl_base_scheme \<Rightarrow> u64 \<Rightarrow> inout_block list \<Rightarrow> 'c \<Rightarrow> bool \<Rightarrow> 'c io_callback namespace \<Rightarrow>
   'c dev_result" where
  "inout_data_prp c sector bs cb read ns =
     (case bs of
        [b] \<Rightarrow>
          let sectors = prp_sectors c ns b;
              sz = sectors * dev_sector_size ns;
              dma = blk_dma_addr b in
          bind_res (readwrite_prepare_prp read sector dma sz (Rw_callback cb sz) ns) (\<lambda>r.
            case r of None \<Rightarrow> Inr (Inl L4_EBUSY, [], ns)
            | Some (slot, prps, ns1) \<Rightarrow>
              (case ns_iosq ns1 of None \<Rightarrow> Inl Null_deref
               | Some q \<Rightarrow>
                 if prps = None \<and> prp_remains dma sz \<noteq> 0 then Inl Null_deref
                 else
                   let at = (case prps of None \<Rightarrow> 0 | Some at \<Rightarrow> at);
                       prp2 = sqe_prp2 (sq_entries q ! unat slot);
                       (mem, remains) =
                         prp_loop prp2 at 0 0 (prp_first dma) (prp_remains dma sz) (sq_prp_mem q)
                   in if remains \<noteq> 0 then Inl Assert_failed
                      else bind_res (readwrite_submit slot (ucast (sectors - 1)) 1
                               (ns1\<lparr>ns_iosq := Some (q\<lparr>sq_prp_mem := mem\<rparr>)\<rparr>))
                             (\<lambda>(w, ns2). Inr (Inr (), [w], ns2))))
      | _ \<Rightarrow> Inl Assert_failed)"

definition inout_data ::
  "'a ctl_base_scheme \<Rightarrow> u64 \<Rightarrow> inout_block list \<Rightarrow> 'c \<Rightarrow> direction \<Rightarrow> 'c io_callback namespace \<Rightarrow>
   'c dev_result" where
  "inout_data c sector bs cb dir ns =
     (let read = (dir = From_device) in
      if supports_sgl c then inout_data_sgl c sector bs cb read ns
      else inout_data_prp c sector bs cb read ns)"

section \<open>flush and discard\<close>

text \<open>\<^verbatim>\<open>flush\<close> schedules an errand that calls the client with success; it returns that call.\<close>

definition dev_flush :: "'c \<Rightarrow> unit l4_ret \<times> ('c \<times> unit l4_ret \<times> u64) list" where
  "dev_flush cb = (Inr (), [(cb, Inr (), 0)])"

text \<open>The flag \<^verbatim>\<open>Block_device::Inout_f_unmap\<close> of the block device library is an argument.\<close>

definition dev_discard ::
  "u32 \<Rightarrow> u64 \<Rightarrow> inout_block list \<Rightarrow> 'c \<Rightarrow> bool \<Rightarrow> 'c io_callback namespace \<Rightarrow> 'c dev_result" where
  "dev_discard Inout_f_unmap offset bs cb is_discard ns =
     (case bs of
        [b] \<Rightarrow>
          if is_discard then Inl Assert_failed
          else if blk_num_sectors b = 0 \<or> 65536 < blk_num_sectors b then Inr (Inl L4_EIO, [], ns)
          else
            bind_res (ns_write_zeroes (offset + blk_sector b) (ucast (blk_num_sectors b - 1))
                (blk_flags b AND Inout_f_unmap \<noteq> 0) (Wz_callback cb) ns) (\<lambda>r.
              case r of None \<Rightarrow> Inr (Inl L4_EBUSY, [], ns)
              | Some (w, ns1) \<Rightarrow> Inr (Inr (), [w], ns1))
      | _ \<Rightarrow> Inl Assert_failed)"

end
