(* ===== verification/Disk.thy ===== *)
theory Disk
  imports Block_Dev
begin

text \<open>
  The remaining parts of \<^verbatim>\<open>server/src/nvme_device.h\<close>: the device name (\<open>hid\<close>) a client asks for, and
  the mapping of client memory for DMA, of disks and of partitions. The DMA space and the
  \<^verbatim>\<open>Device_dma_map_all_impl\<close> of libblock-device are arguments.
\<close>

section \<open>The device name\<close>

text \<open>\<^verbatim>\<open>std::to_string\<close> of an unsigned number, and the part of a string that \<^verbatim>\<open>c_str()\<close> shows to C.\<close>

definition digit :: "nat \<Rightarrow> char" where "digit d = char_of (48 + d)"

fun to_string :: "nat \<Rightarrow> string" where
  "to_string n = (if n < 10 then [digit n] else to_string (n div 10) @ [digit (n mod 10)])"

declare to_string.simps [simp del]

definition Nul :: char where "Nul = CHR 0x00"

definition c_str :: "string \<Rightarrow> string" where "c_str s = takeWhile (\<lambda>c. c \<noteq> Nul) s"

record 'cb nvme_device =
  nd_ns :: "'cb namespace"
  nd_hid :: string
  nd_map_all :: bool

definition nvme_device_new :: "'a ctl_base_scheme \<Rightarrow> 'cb namespace \<Rightarrow> 'cb nvme_device" where
  "nvme_device_new c ns =
     \<lparr>nd_ns = ns, nd_hid = ctl_sn c @ '':n'' @ to_string (unat (ns_nsid ns)), nd_map_all = False\<rparr>"

definition match_hid :: "string \<Rightarrow> 'cb nvme_device \<Rightarrow> bool" where
  "match_hid hid d \<longleftrightarrow> hid = c_str (nd_hid d)"

section \<open>Mapping client memory\<close>

text \<open>
  A request to the DMA space: the dataspace, offset, size and direction; its answer is the size that
  was mapped and the DMA address.
\<close>

record map_request =
  mr_ds :: nat
  mr_offset :: u64
  mr_size :: u64
  mr_dir :: direction

datatype dma_op = Op_map map_request | Op_map_all nat u64 u64 direction | Op_unmap unmap_request

record dma_services =
  ds_map :: "map_request \<Rightarrow> (u64 \<times> u64) l4_ret"
  ds_map_all :: "nat \<Rightarrow> u64 \<Rightarrow> u64 \<Rightarrow> direction \<Rightarrow> u64 l4_ret"
  ds_unmap :: "unmap_request \<Rightarrow> unit l4_ret"

definition dma_map_all ::
  "dma_services \<Rightarrow> nat \<Rightarrow> u64 \<Rightarrow> u64 \<Rightarrow> direction \<Rightarrow> dma_op list \<times> u64 l4_ret" where
  "dma_map_all sv region offset num_sectors dir =
     ([Op_map_all region offset num_sectors dir], ds_map_all sv region offset num_sectors dir)"

definition dma_map_single ::
  "dma_services \<Rightarrow> nat \<Rightarrow> u64 \<Rightarrow> u64 \<Rightarrow> direction \<Rightarrow> 'cb nvme_device \<Rightarrow> dma_op list \<times> u64 l4_ret"
where
  "dma_map_single sv region offset num_sectors dir d =
     (let r = \<lparr>mr_ds = region, mr_offset = offset,
               mr_size = num_sectors * dev_sector_size (nd_ns d), mr_dir = dir\<rparr>
      in ([Op_map r], case ds_map sv r of Inl c \<Rightarrow> Inl c | Inr (_, addr) \<Rightarrow> Inr addr))"

definition dma_unmap_all :: "u64 \<Rightarrow> u64 \<Rightarrow> direction \<Rightarrow> dma_op list \<times> unit l4_ret" where
  "dma_unmap_all addr num_sectors dir = ([], Inr ())"

definition dma_unmap_single ::
  "dma_services \<Rightarrow> u64 \<Rightarrow> u64 \<Rightarrow> direction \<Rightarrow> 'cb nvme_device \<Rightarrow> dma_op list \<times> unit l4_ret" where
  "dma_unmap_single sv addr num_sectors dir d =
     (let r = (addr, num_sectors * dev_sector_size (nd_ns d), dir) in ([Op_unmap r], ds_unmap sv r))"

definition dma_map ::
  "dma_services \<Rightarrow> nat \<Rightarrow> u64 \<Rightarrow> u64 \<Rightarrow> direction \<Rightarrow> 'cb nvme_device \<Rightarrow> dma_op list \<times> u64 l4_ret"
where
  "dma_map sv region offset num_sectors dir d =
     (if nd_map_all d then dma_map_all sv region offset num_sectors dir
      else dma_map_single sv region offset num_sectors dir d)"

definition dma_unmap ::
  "dma_services \<Rightarrow> u64 \<Rightarrow> u64 \<Rightarrow> direction \<Rightarrow> 'cb nvme_device \<Rightarrow> dma_op list \<times> unit l4_ret" where
  "dma_unmap sv addr num_sectors dir d =
     (if nd_map_all d then dma_unmap_all addr num_sectors dir
      else dma_unmap_single sv addr num_sectors dir d)"

text \<open>A partition has a switch of its own and maps through the disk it is on.\<close>

record 'cb part_device =
  pd_parent :: "'cb nvme_device"
  pd_map_all :: bool

definition part_dma_map ::
  "dma_services \<Rightarrow> nat \<Rightarrow> u64 \<Rightarrow> u64 \<Rightarrow> direction \<Rightarrow> 'cb part_device \<Rightarrow> dma_op list \<times> u64 l4_ret"
where
  "part_dma_map sv region offset num_sectors dir p =
     (if pd_map_all p then dma_map_all sv region offset num_sectors dir
      else dma_map_single sv region offset num_sectors dir (pd_parent p))"

definition part_dma_unmap ::
  "dma_services \<Rightarrow> u64 \<Rightarrow> u64 \<Rightarrow> direction \<Rightarrow> 'cb part_device \<Rightarrow> dma_op list \<times> unit l4_ret" where
  "part_dma_unmap sv addr num_sectors dir p =
     (if pd_map_all p then dma_unmap_all addr num_sectors dir
      else dma_unmap_single sv addr num_sectors dir (pd_parent p))"

datatype 'cb base_device = Whole_disk "'cb nvme_device" | Partition "'cb part_device"

fun set_dma_map_all :: "bool \<Rightarrow> 'cb base_device \<Rightarrow> 'cb base_device" where
  "set_dma_map_all enable (Whole_disk d) = Whole_disk (d\<lparr>nd_map_all := enable\<rparr>)"
| "set_dma_map_all enable (Partition p) = Partition (p\<lparr>pd_map_all := enable\<rparr>)"

fun base_dma_map ::
  "dma_services \<Rightarrow> nat \<Rightarrow> u64 \<Rightarrow> u64 \<Rightarrow> direction \<Rightarrow> 'cb base_device \<Rightarrow> dma_op list \<times> u64 l4_ret"
where
  "base_dma_map sv region offset n dir (Whole_disk d) = dma_map sv region offset n dir d"
| "base_dma_map sv region offset n dir (Partition p) = part_dma_map sv region offset n dir p"

fun base_dma_unmap ::
  "dma_services \<Rightarrow> u64 \<Rightarrow> u64 \<Rightarrow> direction \<Rightarrow> 'cb base_device \<Rightarrow> dma_op list \<times> unit l4_ret" where
  "base_dma_unmap sv addr n dir (Whole_disk d) = dma_unmap sv addr n dir d"
| "base_dma_unmap sv addr n dir (Partition p) = part_dma_unmap sv addr n dir p"

text \<open>The scan of a disk has nothing of its own to wait for: the callback runs at once.\<close>

definition start_device_scan :: "('s \<Rightarrow> 's) \<Rightarrow> 's \<Rightarrow> 's" where
  "start_device_scan callback s = callback s"

section \<open>Names are unambiguous\<close>

lemma of_char_digit: "d < 10 \<Longrightarrow> of_char (digit d) = 48 + d"
  by (simp add: digit_def)

text \<open>What a decimal numeral denotes, read from the left.\<close>

definition numeral_value :: "string \<Rightarrow> nat" where
  "numeral_value s = foldl (\<lambda>v c. 10 * v + (of_char c - 48)) 0 s"

lemma numeral_value_snoc: "numeral_value (s @ [c]) = 10 * numeral_value s + (of_char c - 48)"
  by (simp add: numeral_value_def)

lemma to_string_value: "numeral_value (to_string n) = n"
proof (induction n rule: to_string.induct)
  case (1 n)
  show ?case
  proof (cases "n < 10")
    case True
    then show ?thesis using numeral_value_snoc [of "[]" "digit n"]
      by (simp add: to_string.simps [of n] of_char_digit numeral_value_def)
  next
    case False
    then show ?thesis
      using 1 by (simp add: to_string.simps [of n] numeral_value_snoc of_char_digit)
  qed
qed

lemma to_string_digits: "c \<in> set (to_string n) \<Longrightarrow> \<exists>d < 10. c = digit d"
proof (induction n rule: to_string.induct)
  case (1 n)
  have "n mod 10 < 10" by simp
  then have "\<exists>d < 10. digit (n mod 10) = digit d" by blast
  with 1 show ?case by (cases "n < 10") (auto simp: to_string.simps [of n])
qed

lemma digit_not_special: "d < 10 \<Longrightarrow> digit d \<noteq> CHR '':'' \<and> digit d \<noteq> Nul"
proof -
  assume d: "d < 10"
  then have "(of_char (digit d) :: nat) \<noteq> of_char (CHR '':'')" by (simp add: of_char_digit)
  moreover from d have "(of_char (digit d) :: nat) \<noteq> of_char Nul" by (simp add: of_char_digit Nul_def)
  ultimately show ?thesis by metis
qed

lemma to_string_plain: "CHR '':'' \<notin> set (to_string n)" "Nul \<notin> set (to_string n)"
  using to_string_digits digit_not_special by metis+

lemma hid_parts:
  assumes "s @ '':n'' @ to_string a = t @ '':n'' @ to_string b"
  shows "s = t \<and> a = b"
proof -
  let ?tail = "\<lambda>h. takeWhile (\<lambda>c. c \<noteq> CHR '':'') (rev h)"
  have tail: "?tail (x @ '':n'' @ to_string k) = rev (CHR ''n'' # to_string k)" for x k
  proof -
    have "rev (x @ '':n'' @ to_string k) = rev (to_string k) @ CHR ''n'' # CHR '':'' # rev x" by simp
    moreover have "\<forall>c \<in> set (rev (to_string k)). c \<noteq> CHR '':''" using to_string_plain(1) by auto
    ultimately show ?thesis using takeWhile_append2 [of "rev (to_string k)" "\<lambda>c. c \<noteq> CHR '':''" "CHR ''n'' # CHR '':'' # rev x"]
      by simp
  qed
  have "rev (CHR ''n'' # to_string a) = rev (CHR ''n'' # to_string b)"
    using arg_cong [OF assms, of ?tail] unfolding tail .
  then have n: "to_string a = to_string b" by simp
  then have "a = b" using to_string_value by metis
  with assms n show ?thesis by simp
qed

lemma c_str_id: "Nul \<notin> set s \<Longrightarrow> c_str s = s"
  by (auto simp: c_str_def takeWhile_eq_all_conv)

lemma match_hid_plain:
  assumes "Nul \<notin> set (ctl_sn c)"
  shows "match_hid hid (nvme_device_new c ns) \<longleftrightarrow>
    hid = ctl_sn c @ '':n'' @ to_string (unat (ns_nsid ns))"
proof -
  have "Nul \<noteq> CHR '':''" "Nul \<noteq> CHR ''n''" by (simp_all add: Nul_def)
  then have "Nul \<notin> set (ctl_sn c @ '':n'' @ to_string (unat (ns_nsid ns)))"
    using assms to_string_plain(2) by auto
  then have "c_str (ctl_sn c @ '':n'' @ to_string (unat (ns_nsid ns))) =
      ctl_sn c @ '':n'' @ to_string (unat (ns_nsid ns))" by (rule c_str_id)
  then show ?thesis by (simp add: match_hid_def nvme_device_new_def)
qed

text \<open>
  C32: A device name selects at most one namespace: where serial numbers contain no NUL character,
  two devices that answer to the same name belong to controllers with the same serial number and
  have the same namespace identifier, and each device answers to its name, the serial number, \<open>:n\<close>
  and the decimal identifier, and no other.
\<close>

theorem match_hid_unique:
  assumes "Nul \<notin> set (ctl_sn c)" and "Nul \<notin> set (ctl_sn c')"
  shows "(match_hid hid (nvme_device_new c ns) \<longleftrightarrow>
      hid = ctl_sn c @ '':n'' @ to_string (unat (ns_nsid ns))) \<and>
    (match_hid hid (nvme_device_new c ns) \<and> match_hid hid (nvme_device_new c' ns') \<longrightarrow>
      ctl_sn c = ctl_sn c' \<and> ns_nsid ns = ns_nsid ns')"
  unfolding match_hid_plain [OF assms(1)] match_hid_plain [OF assms(2)]
  using hid_parts [of "ctl_sn c" "unat (ns_nsid ns)" "ctl_sn c'" "unat (ns_nsid ns')"] unat_eq_iff by auto

text \<open>
  A serial number that contains a NUL character cuts the name off there: every namespace of
  such a controller answers to the same name, the serial number up to the NUL, and none to the
  documented one.
\<close>

theorem match_hid_nul:
  assumes "Nul \<in> set (ctl_sn c)"
  shows "(match_hid hid (nvme_device_new c ns) \<longleftrightarrow> hid = c_str (ctl_sn c)) \<and>
    \<not> match_hid (ctl_sn c @ '':n'' @ to_string (unat (ns_nsid ns))) (nvme_device_new c ns)"
proof -
  have cut: "c_str (ctl_sn c @ t) = c_str (ctl_sn c)" for t
    using assms by (simp add: c_str_def takeWhile_append1)
  have "Nul \<notin> set (c_str (ctl_sn c))" by (auto simp: c_str_def dest: set_takeWhileD)
  with assms have "ctl_sn c @ t \<noteq> c_str (ctl_sn c)" for t by (metis UnI1 set_append)
  then show ?thesis by (simp add: match_hid_def nvme_device_new_def cut)
qed

definition named_ctl :: "string \<Rightarrow> ctl_base" where
  "named_ctl sn = \<lparr>use_sgls = True, use_msis = True, use_msixs = True, ctl_cap = 0, ctl_sgls = True,
     ctl_sn = sn, ctl_mdts = 0\<rparr>"

definition named_ns :: "u32 \<Rightarrow> nat namespace" where
  "named_ns n = \<lparr>ns_msi = 0, ns_iocq = None, ns_iosq = None, ns_nsid = n, ns_nsze = 0x1000,
     ns_lba_sz = 512, ns_ro = False, ns_dlfeat = 0\<rparr>"

theorem match_hid_unique_witness:
  "match_hid ''1234:n1'' (nvme_device_new (named_ctl ''1234'') (named_ns 1)) \<and>
    \<not> match_hid ''1234:n1'' (nvme_device_new (named_ctl ''12'') (named_ns 3))"
proof -
  have "to_string 1 = ''1''" by code_simp
  then show ?thesis
    using match_hid_unique [of "named_ctl ''1234''" "named_ctl ''12''" "''1234:n1''" "named_ns 1" "named_ns 3"]
    by (auto simp: named_ctl_def named_ns_def Nul_def)
qed

theorem match_hid_nul_witness:
  "(match_hid ''12'' (nvme_device_new (named_ctl (''12'' @ [Nul])) (named_ns 7)) \<longleftrightarrow>
      ''12'' = c_str (ctl_sn (named_ctl (''12'' @ [Nul])))) \<and>
    \<not> match_hid (ctl_sn (named_ctl (''12'' @ [Nul])) @ '':n'' @ to_string (unat (ns_nsid (named_ns 7))))
      (nvme_device_new (named_ctl (''12'' @ [Nul])) (named_ns 7))"
  by (rule match_hid_nul) (simp add: named_ctl_def)

section \<open>Mapping and unmapping\<close>

definition base_map_all :: "'cb base_device \<Rightarrow> bool" where
  "base_map_all b = (case b of Whole_disk d \<Rightarrow> nd_map_all d | Partition p \<Rightarrow> pd_map_all p)"

definition base_sector_size :: "'cb base_device \<Rightarrow> u64" where
  "base_sector_size b =
     dev_sector_size (nd_ns (case b of Whole_disk d \<Rightarrow> d | Partition p \<Rightarrow> pd_parent p))"

lemma base_map_cases:
  "base_dma_map sv region offset n dir b =
    (if base_map_all b then dma_map_all sv region offset n dir
     else dma_map_single sv region offset n dir
       (case b of Whole_disk d \<Rightarrow> d | Partition p \<Rightarrow> pd_parent p))"
  "base_dma_unmap sv addr n dir b =
    (if base_map_all b then dma_unmap_all addr n dir
     else dma_unmap_single sv addr n dir (case b of Whole_disk d \<Rightarrow> d | Partition p \<Rightarrow> pd_parent p))"
  by (cases b; simp add: base_map_all_def dma_map_def part_dma_map_def dma_unmap_def part_dma_unmap_def)+

text \<open>
  C33: Unmapping undoes mapping, for disks and partitions: after the switch for per-request mapping a
  request is mapped with one call of its own and unmapped with one call for exactly the address, the
  size and the direction it was mapped with; after the switch for mapping everything it goes through
  the permanent mapping and unmapping sends nothing and succeeds.
\<close>

theorem dma_unmap_matches:
  "case base_dma_map sv region offset n dir (set_dma_map_all everything b) of (ops, r) \<Rightarrow>
    case base_dma_unmap sv addr n dir (set_dma_map_all everything b) of (ops', r') \<Rightarrow>
      if everything then ops = [Op_map_all region offset n dir] \<and> ops' = [] \<and> r' = Inr ()
      else \<exists>req. ops = [Op_map req] \<and> mr_ds req = region \<and> mr_offset req = offset \<and>
        mr_size req = n * base_sector_size b \<and> ops' = [Op_unmap (addr, mr_size req, mr_dir req)]"
  by (cases b)
    (simp_all add: base_map_cases base_map_all_def base_sector_size_def dma_map_all_def dma_map_single_def
      dma_unmap_all_def dma_unmap_single_def Let_def)

text \<open>
  The mapping of a single request reports success with the address even when the DMA space has
  mapped less than the request asked for: the mapped size is not looked at (in contrast to the
  driver's own buffers, whose constructor refuses a partial mapping).
\<close>

theorem dma_map_single_partial:
  assumes "ds_map sv \<lparr>mr_ds = region, mr_offset = offset,
      mr_size = n * dev_sector_size (nd_ns d), mr_dir = dir\<rparr> = Inr (mapped, addr)"
    and "mapped < n * dev_sector_size (nd_ns d)"
  shows "snd (dma_map_single sv region offset n dir d) = Inr addr \<and>
    inout_buffer_new \<lparr>ans_cap = Inr (), ans_alloc = Inr (), ans_attach = Inr 0, ans_map = Inr (mapped, addr)\<rparr>
      (n * dev_sector_size (nd_ns d)) dir = Inl (Sys_error L4_ENOMEM)"
  using assms by (simp add: dma_map_single_def inout_buffer_new_def Let_def)

theorem dma_map_single_partial_witness:
  "snd (dma_map_single \<lparr>ds_map = (\<lambda>_. Inr (4096, 0x8000)), ds_map_all = (\<lambda>_ _ _ _. Inl L4_ENOMEM),
      ds_unmap = (\<lambda>_. Inr ())\<rparr> 1 0 16 To_device (nvme_device_new (named_ctl ''1'') (named_ns 1))) = Inr 0x8000 \<and>
    inout_buffer_new \<lparr>ans_cap = Inr (), ans_alloc = Inr (), ans_attach = Inr 0, ans_map = Inr (4096, 0x8000)\<rparr>
      (16 * dev_sector_size (nd_ns (nvme_device_new (named_ctl ''1'') (named_ns 1)))) To_device =
      Inl (Sys_error L4_ENOMEM)"
  by (rule dma_map_single_partial)
    (simp_all add: nvme_device_new_def named_ns_def dev_sector_size_def)

end
