(* ===== verification/Service.thy ===== *)
theory Service
  imports Disk
begin

text \<open>
  The client interface of \<^verbatim>\<open>server/src/main.cc\<close>: the factory call \<^verbatim>\<open>op_create\<close> with the parsing of its
  arguments. The functions of libblock-device (\<^verbatim>\<open>parse_device_name\<close>, \<^verbatim>\<open>create_dynamic_client\<close>) are
  arguments; the functions of the C library are modelled as far as they are used.
\<close>

section \<open>C strings\<close>

text \<open>
  \<^verbatim>\<open>strncmp(a, b, n) == 0\<close>. Behind its last character a string continues with NUL; a comparison of
  two of them stops there.
\<close>

definition char_at :: "string \<Rightarrow> char" where
  "char_at s = (case s of [] \<Rightarrow> Nul | c # _ \<Rightarrow> c)"

fun strncmp_eq :: "string \<Rightarrow> string \<Rightarrow> nat \<Rightarrow> bool" where
  "strncmp_eq a b 0 = True"
| "strncmp_eq a b (Suc n) =
     (char_at a = char_at b \<and> (char_at a = Nul \<or> strncmp_eq (tl a) (tl b) n))"

definition is_space :: "char \<Rightarrow> bool" where
  "is_space c \<longleftrightarrow> c = CHR '' '' \<or> of_char c \<in> {9 .. 13 :: nat}"

definition is_digit :: "char \<Rightarrow> bool" where
  "is_digit c \<longleftrightarrow> of_char c \<in> {48 .. 57 :: nat}"

text \<open>
  \<^verbatim>\<open>strtol(s, &endp, 10)\<close>: the value, limited to the range of a 64 bit \<^verbatim>\<open>long\<close>, and the string at
  \<^verbatim>\<open>endp\<close>.
\<close>

definition strtol :: "string \<Rightarrow> int \<times> string" where
  "strtol s =
     (let t = dropWhile is_space s;
          neg = (t \<noteq> [] \<and> hd t = CHR ''-'');
          u = (if t \<noteq> [] \<and> hd t \<in> {CHR ''-'', CHR ''+''} then tl t else t);
          ds = takeWhile is_digit u;
          v = (if neg then - int (numeral_value ds) else int (numeral_value ds))
      in if ds = [] then (0, s)
         else (max (- (2 ^ 63)) (min (2 ^ 63 - 1) v), dropWhile is_digit u))"

section \<open>Parsing the arguments\<close>

text \<open>
  One argument of the call: the bytes of a string argument (as many as its length says, which may
  or may not include a terminating NUL), or an argument of another type.
\<close>

datatype varg = Varg_string string | Varg_other

definition parse_string_param :: "string \<Rightarrow> string \<Rightarrow> string option" where
  "parse_string_param s prefix =
     (let headlen = length prefix in
      if length s < headlen then None
      else if \<not> strncmp_eq s prefix headlen then None
      else Some (take (length (c_str s) - headlen) (drop headlen s)))"

definition parse_int_param :: "string \<Rightarrow> string \<Rightarrow> int option drv_result" where
  "parse_int_param s prefix =
     (let headlen = length prefix in
      if length s < headlen then Inr None
      else if \<not> strncmp_eq s prefix headlen then Inr None
      else
        let (num, rest) = strtol (c_str (drop headlen s)) in
        if num < - (2 ^ 31) \<or> num > 2 ^ 31 - 1 \<or> rest \<noteq> [] then Inl (Sys_error L4_EINVAL)
        else Inr (Some num))"

record create_params =
  cr_device :: string
  cr_num_ds :: int
  cr_readonly :: bool
  cr_map_all :: bool

definition create_defaults :: create_params where
  "create_defaults = \<lparr>cr_device = [], cr_num_ds = 2, cr_readonly = False, cr_map_all = True\<rparr>"

definition parse_create_arg ::
  "(string \<Rightarrow> string l4_ret) \<Rightarrow> varg \<Rightarrow> create_params \<Rightarrow> create_params l4_ret drv_result" where
  "parse_create_arg parse_device_name p c =
     (case p of Varg_other \<Rightarrow> Inr (Inl L4_EINVAL)
      | Varg_string s \<Rightarrow>
        (case parse_string_param s ''device='' of
           Some name \<Rightarrow>
             (case parse_device_name name of
                Inl e \<Rightarrow> Inr (Inl e)
              | Inr dev \<Rightarrow> Inr (Inr (c\<lparr>cr_device := dev\<rparr>)))
         | None \<Rightarrow>
             bind_res (parse_int_param s ''ds-max='') (\<lambda>r.
               case r of
                 Some n \<Rightarrow>
                   if n \<le> 0 \<or> n > 256 then Inr (Inl L4_EINVAL) else Inr (Inr (c\<lparr>cr_num_ds := n\<rparr>))
               | None \<Rightarrow>
                   if strncmp_eq s ''read-only'' (length s) then Inr (Inr (c\<lparr>cr_readonly := True\<rparr>))
                   else if strncmp_eq s ''dma-map-per-req'' (length s)
                   then Inr (Inr (c\<lparr>cr_map_all := False\<rparr>))
                   else Inr (Inr c))))"

fun parse_create_args ::
  "(string \<Rightarrow> string l4_ret) \<Rightarrow> varg list \<Rightarrow> create_params \<Rightarrow> create_params l4_ret drv_result" where
  "parse_create_args pdn [] c = Inr (Inr c)"
| "parse_create_args pdn (p # ps) c =
     bind_res (parse_create_arg pdn p c) (\<lambda>r.
       case r of Inl e \<Rightarrow> Inr (Inl e) | Inr c' \<Rightarrow> parse_create_args pdn ps c')"

section \<open>Creating a client\<close>

text \<open>
  What is asked of the device manager: the parameters (the mapping mode is set on the device by a
  callback), whether the dataspaces of the client are to be validated, and against which.
\<close>

record client_request =
  rq_params :: create_params
  rq_validate :: bool
  rq_trusted :: "nat list"

record service =
  sv_scan_in_progress :: bool
  sv_trusted :: "nat list"

definition client_request_of :: "nat list \<Rightarrow> create_params \<Rightarrow> client_request" where
  "client_request_of trusted c =
     \<lparr>rq_params = c, rq_validate = (trusted \<noteq> []), rq_trusted = trusted\<rparr>"

text \<open>The result is the request that was made, if any, and what the caller is answered.\<close>

definition op_create ::
  "(string \<Rightarrow> string l4_ret) \<Rightarrow> (client_request \<Rightarrow> nat l4_ret) \<Rightarrow> service \<Rightarrow> varg list \<Rightarrow>
   (client_request option \<times> nat l4_ret) drv_result" where
  "op_create pdn create_dynamic_client sv args =
     bind_res (parse_create_args pdn args create_defaults) (\<lambda>r.
       case r of
         Inl e \<Rightarrow> Inr (None, Inl e)
       | Inr c \<Rightarrow>
           if cr_device c = [] then Inr (None, Inl L4_EINVAL)
           else
             let req = client_request_of (sv_trusted sv) c in
             Inr (Some req,
               case create_dynamic_client req of
                 Inr cap \<Rightarrow> Inr cap
               | Inl e \<Rightarrow> Inl (if e = L4_ENODEV \<and> sv_scan_in_progress sv then L4_EAGAIN else e)))"

text \<open>The callback that sets the mapping mode of the device the client is attached to.\<close>

definition select_mapping :: "client_request \<Rightarrow> 'cb base_device \<Rightarrow> 'cb base_device" where
  "select_mapping req b = set_dma_map_all (cr_map_all (rq_params req)) b"

definition scan_finished :: "service \<Rightarrow> service" where
  "scan_finished sv = sv\<lparr>sv_scan_in_progress := False\<rparr>"

section \<open>Matching of arguments\<close>

lemma strncmp_eq_prefix:
  "Nul \<notin> set b \<Longrightarrow> length b \<le> length a \<Longrightarrow> strncmp_eq a b (length b) \<longleftrightarrow> (\<exists>r. a = b @ r)"
proof (induction b arbitrary: a)
  case (Cons x b)
  then obtain y a' where a: "a = y # a'" by (cases a) auto
  with Cons show ?case by (auto simp: char_at_def)
qed simp

lemma strncmp_eq_self_length:
  "Nul \<notin> set b \<Longrightarrow> strncmp_eq a b (length a) \<longleftrightarrow> (\<exists>r. b = a @ r) \<or> (\<exists>r. a = b @ Nul # r)"
proof (induction b arbitrary: a)
  case Nil
  show ?case
    by (cases a) (auto simp: char_at_def)
next
  case (Cons x b)
  then show ?case
    by (cases a) (auto simp: char_at_def)
qed

lemma c_str_append: "Nul \<notin> set s \<Longrightarrow> c_str (s @ t) = s @ c_str t"
  by (induction s) (auto simp: c_str_def)

text \<open>The argument with its prefix is recognised, whether or not it is terminated.\<close>

definition terminated :: "string \<Rightarrow> string \<Rightarrow> bool" where
  "terminated s t \<longleftrightarrow> t = s \<or> (\<exists>r. t = s @ Nul # r)"

lemma terminated_c_str: "terminated s t \<Longrightarrow> Nul \<notin> set s \<Longrightarrow> c_str t = s"
  by (auto simp: terminated_def c_str_id c_str_append) (simp add: c_str_def)

lemma terminated_prefix: "terminated (p @ v) t \<Longrightarrow> \<exists>r. t = p @ r \<and> terminated v r"
  by (auto simp: terminated_def)

lemma parse_string_param_value:
  assumes "terminated (prefix @ v) t" and "Nul \<notin> set prefix" and "Nul \<notin> set v"
  shows "parse_string_param t prefix = Some v"
proof -
  obtain r where r: "t = prefix @ r" "terminated v r" using terminated_prefix [OF assms(1)] by blast
  have "c_str t = prefix @ v" using terminated_c_str [OF assms(1)] assms(2,3) by simp
  moreover have "take (length v) r = v" using r(2) by (auto simp: terminated_def)
  ultimately show ?thesis
    using r(1) strncmp_eq_prefix [OF assms(2), of t] by (simp add: parse_string_param_def Let_def)
qed

lemma parse_string_param_other:
  assumes "Nul \<notin> set prefix" and "\<And>r. t \<noteq> prefix @ r"
  shows "parse_string_param t prefix = None"
  using assms strncmp_eq_prefix [OF assms(1), of t] by (auto simp: parse_string_param_def Let_def)

lemma parse_int_param_other:
  assumes "Nul \<notin> set prefix" and "\<And>r. t \<noteq> prefix @ r"
  shows "parse_int_param t prefix = Inr None"
  using assms strncmp_eq_prefix [OF assms(1), of t] by (auto simp: parse_int_param_def Let_def)

lemma digit_char: "d < 10 \<Longrightarrow> is_digit (digit d) \<and> \<not> is_space (digit d) \<and> digit d \<notin> {CHR ''-'', CHR ''+''}"
proof -
  assume d: "d < 10"
  then have "of_char (digit d) = 48 + d" by (rule of_char_digit)
  then show ?thesis using d by (auto simp: is_digit_def is_space_def)
qed

lemma to_string_nonempty: "to_string n \<noteq> []"
  by (simp add: to_string.simps [of n])

lemma strtol_to_string:
  assumes "n < 2 ^ 63"
  shows "strtol (to_string n) = (int n, [])"
proof -
  let ?s = "to_string n"
  have dig: "\<forall>c \<in> set ?s. is_digit c" using to_string_digits digit_char by blast
  have hd: "hd ?s \<in> set ?s" using to_string_nonempty by (rule hd_in_set)
  then obtain d where "d < 10" "hd ?s = digit d" using to_string_digits by blast
  then have h: "\<not> is_space (hd ?s)" "hd ?s \<notin> {CHR ''-'', CHR ''+''}" using digit_char by simp_all
  then have "dropWhile is_space ?s = ?s" using to_string_nonempty [of n] by (cases ?s) simp_all
  moreover have tw: "takeWhile is_digit ?s = ?s" and dw: "dropWhile is_digit ?s = []" using dig by simp_all
  moreover have "int n \<le> 2 ^ 63 - 1"
    using assms zless_nat_eq_int_zless [of n "2 ^ 63"] by (simp add: nat_power_eq)
  then have "max (- (2 ^ 63)) (min (2 ^ 63 - 1) (int n)) = int n" by simp
  ultimately show ?thesis
    using h(2) to_string_nonempty [of n] unfolding strtol_def Let_def by (simp add: tw dw to_string_value)
qed


lemma parse_int_param_value:
  assumes t: "terminated (prefix @ to_string n) t" and p: "Nul \<notin> set prefix" and n: "n < 2 ^ 31"
  shows "parse_int_param t prefix = Inr (Some (int n))"
proof -
  obtain r where r: "t = prefix @ r" "terminated (to_string n) r" using terminated_prefix [OF t] by blast
  have "c_str r = to_string n" using terminated_c_str [OF r(2)] to_string_plain(2) by blast
  moreover have "strtol (to_string n) = (int n, [])" using n by (intro strtol_to_string) simp
  moreover have "int n \<le> 2 ^ 31 - 1" using n by simp
  ultimately show ?thesis
    using r(1) strncmp_eq_prefix [OF p, of t] by (simp add: parse_int_param_def Let_def)
qed

section \<open>The documented call\<close>

text \<open>
  The documented arguments: the device, the number of dataspaces and the flag, in this order, each
  with or without a terminating NUL.
\<close>

definition call_args :: "string \<Rightarrow> nat option \<Rightarrow> bool \<Rightarrow> string list" where
  "call_args dev num_ds readonly =
     (''device='' @ dev) # (case num_ds of None \<Rightarrow> [] | Some n \<Rightarrow> [''ds-max='' @ to_string n]) @
     (if readonly then [''read-only''] else [])"

lemma arg_device:
  assumes "terminated (''device='' @ name) t" and "Nul \<notin> set name" and "pdn name = Inr dev"
  shows "parse_create_arg pdn (Varg_string t) c = Inr (Inr (c\<lparr>cr_device := dev\<rparr>))"
  using parse_string_param_value [OF assms(1) _ assms(2)] assms(3)
  by (simp add: parse_create_arg_def Nul_def)

lemma not_device: "t = CHR ''d'' # CHR ''s'' # r \<or> t = CHR ''r'' # r \<Longrightarrow> parse_string_param t ''device='' = None"
  by (rule parse_string_param_other) (auto simp: Nul_def)

lemma arg_ds_max:
  assumes "terminated (''ds-max='' @ to_string n) t" and "1 \<le> n" and "n \<le> 256"
  shows "parse_create_arg pdn (Varg_string t) c = Inr (Inr (c\<lparr>cr_num_ds := int n\<rparr>))"
proof -
  obtain r where "t = ''ds-max='' @ r" using terminated_prefix [OF assms(1)] by blast
  then have "parse_string_param t ''device='' = None"
    by (intro not_device [of _ "CHR ''-'' # CHR ''m'' # CHR ''a'' # CHR ''x'' # CHR ''='' # r"]) simp
  moreover have "parse_int_param t ''ds-max='' = Inr (Some (int n))"
    using assms by (intro parse_int_param_value) (simp_all add: Nul_def)
  ultimately show ?thesis using assms(2,3) by (simp add: parse_create_arg_def)
qed

lemma arg_read_only:
  assumes "terminated ''read-only'' t"
  shows "parse_create_arg pdn (Varg_string t) c = Inr (Inr (c\<lparr>cr_readonly := True\<rparr>))"
proof -
  obtain r where t: "t = CHR ''r'' # r" using assms by (auto simp: terminated_def)
  have "parse_string_param t ''device='' = None" using t by (intro not_device) blast
  moreover have "parse_int_param t ''ds-max='' = Inr None"
    using t by (intro parse_int_param_other) (simp_all add: Nul_def)
  moreover have "strncmp_eq t ''read-only'' (length t)"
    using assms by (subst strncmp_eq_self_length) (auto simp: terminated_def Nul_def)
  ultimately show ?thesis by (simp add: parse_create_arg_def)
qed

lemma parse_call_args:
  assumes "list_all2 terminated (call_args name num_ds readonly) ts" and "Nul \<notin> set name"
    and "pdn name = Inr dev" and "\<forall>n. num_ds = Some n \<longrightarrow> 1 \<le> n \<and> n \<le> 256"
  shows "parse_create_args pdn (map Varg_string ts) c =
    Inr (Inr (c\<lparr>cr_device := dev,
      cr_num_ds := (case num_ds of None \<Rightarrow> cr_num_ds c | Some n \<Rightarrow> int n),
      cr_readonly := (readonly \<or> cr_readonly c)\<rparr>))"
  using assms arg_device [where pdn = pdn] arg_ds_max [where pdn = pdn] arg_read_only [where pdn = pdn]
  by (cases num_ds; cases readonly) (auto simp: call_args_def list_all2_Cons1)

text \<open>
  C26: A documented call, with any device name that \<^verbatim>\<open>parse_device_name\<close> accepts, a number of
  dataspaces from 1 to 256 or none, and the read-only flag or not, makes exactly one request, with
  exactly these parameters (2 dataspaces and write access by default, everything mapped), validated
  against the trusted dataspaces if there are any; the caller gets the capability, or the error of
  the device manager, where a missing device is reported as a reason to try again while the scan is
  in progress. This holds whether or not the argument strings are terminated.
\<close>

theorem op_create_documented:
  assumes "list_all2 terminated (call_args name num_ds readonly) ts" and "Nul \<notin> set name"
    and "pdn name = Inr dev" and "dev \<noteq> []" and "\<forall>n. num_ds = Some n \<longrightarrow> 1 \<le> n \<and> n \<le> 256"
    and "req = \<lparr>rq_params = \<lparr>cr_device = dev, cr_num_ds = (case num_ds of None \<Rightarrow> 2 | Some n \<Rightarrow> int n),
        cr_readonly = readonly, cr_map_all = True\<rparr>,
      rq_validate = (sv_trusted sv \<noteq> []), rq_trusted = sv_trusted sv\<rparr>"
  shows "op_create pdn create sv (map Varg_string ts) =
    Inr (Some req, case create req of
        Inr cap \<Rightarrow> Inr cap
      | Inl e \<Rightarrow> Inl (if e = L4_ENODEV \<and> sv_scan_in_progress sv then L4_EAGAIN else e))"
  using assms(4,6) parse_call_args [where pdn = pdn and c = create_defaults, OF assms(1,2,3,5)]
  by (cases num_ds) (simp_all add: op_create_def create_defaults_def client_request_of_def Let_def)

section \<open>Any other call\<close>

lemma parse_create_arg_range:
  assumes "parse_create_arg pdn p c = Inr (Inr c')" and "1 \<le> cr_num_ds c" and "cr_num_ds c \<le> 256"
  shows "1 \<le> cr_num_ds c' \<and> cr_num_ds c' \<le> 256"
  using assms
  by (auto simp: parse_create_arg_def bind_res_Inr_iff split: varg.splits option.splits sum.splits if_splits)

lemma parse_create_args_range:
  assumes "parse_create_args pdn ps c = Inr (Inr c')" and "1 \<le> cr_num_ds c" and "cr_num_ds c \<le> 256"
  shows "1 \<le> cr_num_ds c' \<and> cr_num_ds c' \<le> 256"
  using assms
proof (induction ps arbitrary: c)
  case (Cons p ps)
  from Cons.prems(1) obtain r where r: "parse_create_arg pdn p c = Inr r"
    "(case r of Inl e \<Rightarrow> Inr (Inl e) | Inr c1 \<Rightarrow> parse_create_args pdn ps c1) = Inr (Inr c')"
    by (auto simp: bind_res_Inr_iff)
  then obtain c1 where c1: "r = Inr c1" "parse_create_args pdn ps c1 = Inr (Inr c')" by (cases r) auto
  have "1 \<le> cr_num_ds c1 \<and> cr_num_ds c1 \<le> 256"
    using parse_create_arg_range r(1) c1(1) Cons.prems(2,3) by blast
  with Cons.IH [OF c1(2)] show ?case by blast
qed simp

text \<open>
  C27: Whatever the arguments are, a request reaches the device manager only with a device name and
  with 1 to 256 dataspaces, and it is validated exactly when there are trusted dataspaces; a call
  that makes no request is answered with an error code.
\<close>

theorem op_create_safe:
  assumes "op_create pdn create sv args = Inr (made, answer)"
  shows "case made of
      Some req \<Rightarrow> cr_device (rq_params req) \<noteq> [] \<and> 1 \<le> cr_num_ds (rq_params req) \<and>
        cr_num_ds (rq_params req) \<le> 256 \<and> rq_trusted req = sv_trusted sv \<and>
        (rq_validate req \<longleftrightarrow> sv_trusted sv \<noteq> [])
    | None \<Rightarrow> \<exists>e. answer = Inl e"
proof -
  from assms obtain r where r: "parse_create_args pdn args create_defaults = Inr r"
    by (auto simp: op_create_def bind_res_Inr_iff)
  show ?thesis
  proof (cases r)
    case (Inl e)
    with assms r show ?thesis by (auto simp: op_create_def)
  next
    case (Inr c)
    have "1 \<le> cr_num_ds c \<and> cr_num_ds c \<le> 256"
      by (rule parse_create_args_range [OF r [unfolded Inr]]) (simp_all add: create_defaults_def)
    with assms r Inr show ?thesis
      by (auto simp: op_create_def client_request_of_def Let_def split: if_splits)
  qed
qed

text \<open>
  The flags are compared over the length of the argument only: an argument counts as the
  read-only flag if and only if it is any prefix of \<^verbatim>\<open>read-only\<close>, the empty string included, or
  starts with it and a NUL; the test for \<^verbatim>\<open>dma-map-per-req\<close> is of the same kind. Everything else is
  ignored without an error.
\<close>

theorem op_create_flag_prefixes:
  assumes "\<And>r. s \<noteq> ''device='' @ r" and "\<And>r. s \<noteq> ''ds-max='' @ r"
  shows "parse_create_arg pdn (Varg_string s) c = Inr (Inr
    (if (\<exists>r. ''read-only'' = s @ r) \<or> (\<exists>r. s = ''read-only'' @ Nul # r) then c\<lparr>cr_readonly := True\<rparr>
     else if (\<exists>r. ''dma-map-per-req'' = s @ r) \<or> (\<exists>r. s = ''dma-map-per-req'' @ Nul # r)
     then c\<lparr>cr_map_all := False\<rparr> else c))"
proof -
  have n: "Nul \<notin> set ''device=''" "Nul \<notin> set ''ds-max=''" "Nul \<notin> set ''read-only''"
    "Nul \<notin> set ''dma-map-per-req''"
    by (simp_all add: Nul_def)
  have d: "parse_string_param s ''device='' = None" by (rule parse_string_param_other [OF n(1) assms(1)])
  have i: "parse_int_param s ''ds-max='' = Inr None" by (rule parse_int_param_other [OF n(2) assms(2)])
  note f = strncmp_eq_self_length [OF n(3), of s] strncmp_eq_self_length [OF n(4), of s]
  show ?thesis
    unfolding f [symmetric] using d i by (simp add: parse_create_arg_def)
qed

theorem op_create_documented_witness:
  "op_create Inr (\<lambda>_. Inl L4_ENODEV) \<lparr>sv_scan_in_progress = True, sv_trusted = [4]\<rparr>
      (map Varg_string [''device=1234:n1'' @ [Nul], ''ds-max=5'', ''read-only'']) =
    Inr (Some \<lparr>rq_params = \<lparr>cr_device = ''1234:n1'', cr_num_ds = 5, cr_readonly = True, cr_map_all = True\<rparr>,
      rq_validate = True, rq_trusted = [4]\<rparr>, Inl L4_EAGAIN)"
proof -
  have "to_string 5 = ''5''" by code_simp
  then have "list_all2 terminated (call_args ''1234:n1'' (Some 5) True)
      [''device=1234:n1'' @ [Nul], ''ds-max=5'', ''read-only'']"
    by (simp add: call_args_def terminated_def)
  from op_create_documented [where pdn = Inr and create = "\<lambda>_. Inl L4_ENODEV"
      and sv = "\<lparr>sv_scan_in_progress = True, sv_trusted = [4]\<rparr>", OF this _ refl _ _ refl]
  show ?thesis by (simp add: Nul_def)
qed

theorem op_create_safe_witness:
  "case Some \<lparr>rq_params = create_defaults\<lparr>cr_device := ''a''\<rparr>, rq_validate = False, rq_trusted = []\<rparr> of
      Some req \<Rightarrow> cr_device (rq_params req) \<noteq> [] \<and> 1 \<le> cr_num_ds (rq_params req) \<and>
        cr_num_ds (rq_params req) \<le> 256 \<and>
        rq_trusted req = sv_trusted \<lparr>sv_scan_in_progress = False, sv_trusted = []\<rparr> \<and>
        (rq_validate req \<longleftrightarrow> sv_trusted \<lparr>sv_scan_in_progress = False, sv_trusted = []\<rparr> \<noteq> [])
    | None \<Rightarrow> \<exists>e. (Inr 9 :: nat l4_ret) = Inl e"
proof (rule op_create_safe [where pdn = Inr and create = "\<lambda>_. Inr 9" and args = "[Varg_string ''device=a'']"])
  have "terminated (''device='' @ ''a'') ''device=a''" by (simp add: terminated_def)
  from arg_device [where pdn = Inr, OF this _ refl]
  show "op_create Inr (\<lambda>_. Inr 9) \<lparr>sv_scan_in_progress = False, sv_trusted = []\<rparr> [Varg_string ''device=a''] =
    Inr (Some \<lparr>rq_params = create_defaults\<lparr>cr_device := ''a''\<rparr>, rq_validate = False, rq_trusted = []\<rparr>, Inr 9)"
    by (simp add: op_create_def client_request_of_def Nul_def)
qed

theorem op_create_flag_prefixes_witness:
  "parse_create_arg Inr (Varg_string []) create_defaults = Inr (Inr
    (if (\<exists>r. ''read-only'' = [] @ r) \<or> (\<exists>r. [] = ''read-only'' @ Nul # r)
     then create_defaults\<lparr>cr_readonly := True\<rparr>
     else if (\<exists>r. ''dma-map-per-req'' = [] @ r) \<or> (\<exists>r. [] = ''dma-map-per-req'' @ Nul # r)
     then create_defaults\<lparr>cr_map_all := False\<rparr> else create_defaults))"
  by (rule op_create_flag_prefixes) simp_all

end
