(* ===== verification/Discovery.thy ===== *)
theory Discovery
  imports Identification_Laws Service
begin

text \<open>
  The discovery of the controllers in \<^verbatim>\<open>server/src/main.cc\<close>: the DMA spaces, the loop over the devices
  of the virtual bus, and the count of what is still being scanned, which decides when the service
  is registered. What the bus and the kernel answer are arguments.
\<close>

section \<open>DMA spaces\<close>

text \<open>
  The answers to one request for a DMA space: the capability for it, the result of creating it, and
  of assigning it to a domain. The static map of \<^verbatim>\<open>create_dma_space\<close> is part of the state.
\<close>

record dma_answers =
  da_cap :: "nat l4_ret"
  da_create :: "unit l4_ret"
  da_assign :: "u64 \<Rightarrow> nat \<Rightarrow> unit l4_ret"

type_synonym dma_spaces = "u64 \<rightharpoonup> nat"

text \<open>The second component of the result lists the domains that were assigned, with their space.\<close>

definition create_dma_space ::
  "dma_answers \<Rightarrow> u64 \<Rightarrow> dma_spaces \<Rightarrow> (nat \<times> (u64 \<times> nat) list \<times> dma_spaces) drv_result" where
  "create_dma_space da i spaces =
     (case spaces i of
        Some dma \<Rightarrow> Inr (dma, [], spaces)
      | None \<Rightarrow>
          bind_res (chksys (da_cap da)) (\<lambda>dma.
          bind_res (chksys (da_create da)) (\<lambda>_.
          bind_res (chksys (da_assign da i dma)) (\<lambda>_.
            Inr (dma, [(i, dma)], spaces(i \<mapsto> dma))))))"

section \<open>State\<close>

text \<open>
  A device of the bus: whether it is a PCI device, its resources (of each, whether it is a DMA
  domain, and its start) or the failure to read one, and the surroundings of the constructor and
  the operations that are called for it.
\<close>

record child =
  ch_is_pci :: bool
  ch_resources :: "(bool \<times> u64) l4_ret list"
  ch_dma :: dma_answers
  ch_ctl :: ctl_env
  ch_irq :: irq_env
  ch_step :: step_env

text \<open>
  The controllers are kept with their DMA space. They share the ICU: the one of the driver record is
  the one of the moment in which the record was last used.
\<close>

record 'io discovery =
  dc_in_scan :: u32
  dc_service :: service
  dc_spaces :: dma_spaces
  dc_icu :: icu
  dc_ctls :: "(nat \<times> 'io driver) list"

section \<open>The end of the scan\<close>

text \<open>
  The result says whether the object \<^verbatim>\<open>svr\<close> was registered. (If it cannot be, a message is printed,
  and nothing else depends on it.)
\<close>

definition device_scan_finished :: "'io discovery \<Rightarrow> bool \<times> 'io discovery" where
  "device_scan_finished st =
     (let st1 = st\<lparr>dc_in_scan := dc_in_scan st - 1\<rparr> in
      if dc_in_scan st1 > 0 then (False, st1)
      else (True, st1\<lparr>dc_service := scan_finished (dc_service st1)\<rparr>))"

text \<open>
  What calls into the count once the loop over the devices is done: the two callbacks of
  \<^verbatim>\<open>identify\<close>, for a controller, and the callback of \<^verbatim>\<open>add_disk\<close>, when the partitions of a namespace
  have been scanned.
\<close>

datatype scan_call = Call_visible nat u32 | Call_done nat | Call_disk nat u32

fun scan_call_step :: "scan_call \<Rightarrow> 'io discovery \<Rightarrow> bool \<times> 'io discovery" where
  "scan_call_step (Call_visible k n) st = (False, st\<lparr>dc_in_scan := dc_in_scan st + 1\<rparr>)"
| "scan_call_step (Call_done k) st = device_scan_finished st"
| "scan_call_step (Call_disk k n) st = device_scan_finished st"

fun scan_calls :: "scan_call list \<Rightarrow> 'io discovery \<Rightarrow> bool list \<times> 'io discovery" where
  "scan_calls [] st = ([], st)"
| "scan_calls (c # cs) st =
     (let (r, st1) = scan_call_step c st; (rs, st2) = scan_calls cs st1 in (r # rs, st2))"

section \<open>The loop over the devices\<close>

text \<open>The first DMA domain among the resources, or \<^verbatim>\<open>-1UL\<close>.\<close>

fun dma_domain :: "(bool \<times> u64) l4_ret list \<Rightarrow> u64 drv_result" where
  "dma_domain [] = Inr (- 1)"
| "dma_domain (r # rs) =
     bind_res (chksys r) (\<lambda>(is_dma, start). if is_dma then Inr start else dma_domain rs)"

text \<open>\<^verbatim>\<open>try ... catch (L4::Runtime_error)\<close>: \<open>None\<close> where the error was caught.\<close>

fun catch_runtime :: "'a drv_result \<Rightarrow> 'a option drv_result" where
  "catch_runtime (Inl (Sys_error _)) = Inr None"
| "catch_runtime (Inl e) = Inl e"
| "catch_runtime (Inr a) = Inr (Some a)"

text \<open>
  The ICU after a failure of \<^verbatim>\<open>register_interrupt_handler\<close>: an MSI that was allocated before is not
  freed.
\<close>

definition icu_after_failure :: "irq_env \<Rightarrow> 'cb ctl \<Rightarrow> icu \<Rightarrow> icu" where
  "icu_after_failure env c i =
     (case bind_res (chksys (ie_icu_info env)) (\<lambda>_. chksys (ie_register env)) of
        Inl _ \<Rightarrow> i
      | Inr _ \<Rightarrow>
          if msis_enabled i c then (case icu_alloc_msi (ie_scan_zero env) i of Inl _ \<Rightarrow> i | Inr (_, i') \<Rightarrow> i')
          else i)"

definition new_controller ::
  "child \<Rightarrow> u64 \<Rightarrow> dma_spaces \<Rightarrow> icu \<Rightarrow>
   (dma_spaces \<times> icu \<times> (nat \<times> admin_cb ctl) option) drv_result" where
  "new_controller ch i spaces ic =
     bind_res (catch_runtime (create_dma_space (ch_dma ch) i spaces)) (\<lambda>r.
       case r of None \<Rightarrow> Inr (spaces, ic, None)
       | Some (dma, _, spaces1) \<Rightarrow>
         bind_res (catch_runtime (ctl_new (ch_ctl ch) ic)) (\<lambda>r.
           case r of None \<Rightarrow> Inr (spaces1, ic, None)
           | Some (c, _, _) \<Rightarrow>
             bind_res (catch_runtime (register_interrupt_handler (ch_irq ch) ic c)) (\<lambda>r.
               case r of None \<Rightarrow> Inr (spaces1, icu_after_failure (ch_irq ch) c ic, None)
               | Some (_, ic1, c1) \<Rightarrow> Inr (spaces1, ic1, Some (dma, c1)))))"

definition driver_of :: "icu \<Rightarrow> admin_cb ctl \<Rightarrow> 'io driver" where
  "driver_of ic c = \<lparr>dr_ctl = c, dr_icu = ic, dr_heap = Map.empty, dr_next = 0, dr_nss = []\<rparr>"

definition scan_child :: "child \<Rightarrow> 'io discovery \<Rightarrow> 'io discovery drv_result" where
  "scan_child ch st =
     bind_res (is_nvme_ctl (ch_is_pci ch) (env_cfg (ch_ctl ch))) (\<lambda>yes.
       if \<not> yes then Inr st
       else
         bind_res (dma_domain (ch_resources ch)) (\<lambda>i.
         bind_res (new_controller ch i (dc_spaces st) (dc_icu st)) (\<lambda>(spaces, ic, r).
           let st1 = st\<lparr>dc_spaces := spaces, dc_icu := ic\<rparr> in
           case r of None \<Rightarrow> Inr st1
           | Some (dma, c) \<Rightarrow>
             bind_res (identify (ch_step ch) (driver_of ic c)) (\<lambda>(_, d).
               Inr (st1\<lparr>dc_in_scan := dc_in_scan st1 + 1, dc_icu := dr_icu d,
                 dc_ctls := dc_ctls st1 @ [(dma, d)]\<rparr>)))))"

fun scan_children :: "child list \<Rightarrow> 'io discovery \<Rightarrow> 'io discovery drv_result" where
  "scan_children [] st = Inr st"
| "scan_children (ch # chs) st = bind_res (scan_child ch st) (scan_children chs)"

definition device_discovery :: "child list \<Rightarrow> 'io discovery \<Rightarrow> (bool \<times> 'io discovery) drv_result" where
  "device_discovery chs st =
     bind_res (scan_children chs (st\<lparr>dc_in_scan := dc_in_scan st + 1\<rparr>)) (\<lambda>st1.
       Inr (device_scan_finished st1))"

text \<open>The state in which the program starts, with the dataspaces of its command line.\<close>

definition discovery_new :: "icu \<Rightarrow> nat list \<Rightarrow> 'io discovery" where
  "discovery_new ic trusted =
     \<lparr>dc_in_scan = 0, dc_service = \<lparr>sv_scan_in_progress = True, sv_trusted = trusted\<rparr>,
      dc_spaces = Map.empty, dc_icu = ic, dc_ctls = []\<rparr>"

end
