(* ===== verification/Discovery_Laws.thy ===== *)
theory Discovery_Laws
  imports Discovery "HOL-Library.Multiset"
begin

text \<open>
  What the discovery of theory Discovery promises: the count of the scans in progress under any
  interleaving of the callbacks, the controllers it keeps and their identification (by way of theory
  Identification_Laws), and the assignment of DMA domains.
\<close>

section \<open>The count\<close>

text \<open>The calls of a run, by kind.\<close>

definition visibles :: "scan_call list \<Rightarrow> (nat \<times> u32) list" where
  "visibles cs = [(k, n). Call_visible k n \<leftarrow> cs]"

definition disks :: "scan_call list \<Rightarrow> (nat \<times> u32) list" where
  "disks cs = [(k, n). Call_disk k n \<leftarrow> cs]"

definition dones :: "scan_call list \<Rightarrow> nat list" where
  "dones cs = [k. Call_done k \<leftarrow> cs]"

text \<open>The calls that the identification of controller \<open>k\<close> makes to its client.\<close>

fun call_about :: "nat \<Rightarrow> scan_call \<Rightarrow> drv_event list" where
  "call_about k (Call_visible j n) = (if j = k then [Ev_visible n] else [])"
| "call_about k (Call_done j) = (if j = k then [Ev_done] else [])"
| "call_about k (Call_disk j n) = []"

definition calls_of :: "nat \<Rightarrow> scan_call list \<Rightarrow> drv_event list" where
  "calls_of k cs = concat (map (call_about k) cs)"

lemma kinds_append [simp]:
  "visibles (xs @ ys) = visibles xs @ visibles ys" "disks (xs @ ys) = disks xs @ disks ys"
  "dones (xs @ ys) = dones xs @ dones ys" "calls_of k (xs @ ys) = calls_of k xs @ calls_of k ys"
  by (simp_all add: visibles_def disks_def dones_def calls_of_def)

lemma kinds_Cons [simp]:
  "visibles (Call_visible k n # cs) = (k, n) # visibles cs" "visibles (Call_done k # cs) = visibles cs"
  "visibles (Call_disk k n # cs) = visibles cs"
  "disks (Call_visible k n # cs) = disks cs" "disks (Call_done k # cs) = disks cs"
  "disks (Call_disk k n # cs) = (k, n) # disks cs"
  "dones (Call_visible k n # cs) = dones cs" "dones (Call_done k # cs) = k # dones cs"
  "dones (Call_disk k n # cs) = dones cs"
  "visibles [] = []" "disks [] = []" "dones [] = []"
  "calls_of j [] = []" "calls_of j (c # cs) = call_about j c @ calls_of j cs"
  by (simp_all add: visibles_def disks_def dones_def calls_of_def)

definition weight :: "scan_call list \<Rightarrow> int" where
  "weight cs = int (length (visibles cs)) - int (length (dones cs)) - int (length (disks cs))"

text \<open>A count that stays positive until the last call reaches zero there, and only there.\<close>

lemma of_int_pos: "0 < m \<Longrightarrow> m < 2 ^ 32 \<Longrightarrow> (0 :: u32) < of_int m"
proof -
  assume m: "0 < m" "m < 2 ^ 32"
  then have "uint (of_int m :: u32) = m" by (simp add: uint_word_of_int take_bit_int_eq_self)
  with m show ?thesis by (simp add: word_less_def)
qed

lemma scan_calls_count:
  fixes st :: "'io discovery"
  assumes "dc_in_scan st = of_int m" and "cs \<noteq> []"
    and "\<forall>i < length cs. 0 < m + weight (take i cs)" and "\<forall>i \<le> length cs. m + weight (take i cs) < 2 ^ 32"
    and "m + weight cs = 0"
  shows "scan_calls cs st = (replicate (length cs - 1) False @ [True],
    st\<lparr>dc_in_scan := 0, dc_service := scan_finished (dc_service st)\<rparr>)"
  using assms
proof (induction cs arbitrary: m st)
  case (Cons c cs)
  let ?w = "weight [c]"
  have wC: "weight (c # xs) = ?w + weight xs" for xs
    by (cases c) (simp_all add: weight_def)
  show ?case
  proof (cases "cs = []")
    case True
    have "0 < m" using Cons.prems(3) by (auto simp: weight_def)
    with Cons.prems(5) True have m: "m = 1" "\<forall>k n. c \<noteq> Call_visible k n"
      by (cases c; simp add: weight_def)+
    then show ?thesis
      using True Cons.prems(1) by (cases c) (simp_all add: device_scan_finished_def Let_def)
  next
    case False
    have pos: "0 < m + ?w" using Cons.prems(3) False by (auto dest!: spec [of _ 1] simp: neq_Nil_conv)
    have lt: "m + ?w < 2 ^ 32" using Cons.prems(4) False by (auto dest!: spec [of _ 1] simp: neq_Nil_conv)
    have word: "(0 :: u32) < of_int (m + ?w)" by (rule of_int_pos [OF pos lt])
    have step: "scan_call_step c st = (False, st\<lparr>dc_in_scan := of_int (m + ?w)\<rparr>)"
      using word Cons.prems(1)
      by (cases c) (simp_all add: device_scan_finished_def Let_def weight_def)
    have "scan_calls cs (st\<lparr>dc_in_scan := of_int (m + ?w)\<rparr>) = (replicate (length cs - 1) False @ [True],
        st\<lparr>dc_in_scan := of_int (m + ?w)\<rparr>\<lparr>dc_in_scan := 0,
          dc_service := scan_finished (dc_service (st\<lparr>dc_in_scan := of_int (m + ?w)\<rparr>))\<rparr>)"
    proof (rule Cons.IH [where m = "m + ?w"])
      show "\<forall>i < length cs. 0 < m + ?w + weight (take i cs)"
      proof (intro allI impI)
        fix i assume "i < length cs"
        then show "0 < m + ?w + weight (take i cs)"
          using Cons.prems(3) [rule_format, of "Suc i"] wC [of "take i cs"] by simp
      qed
      show "\<forall>i \<le> length cs. m + ?w + weight (take i cs) < 2 ^ 32"
      proof (intro allI impI)
        fix i assume "i \<le> length cs"
        then show "m + ?w + weight (take i cs) < 2 ^ 32"
          using Cons.prems(4) [rule_format, of "Suc i"] wC [of "take i cs"] by simp
      qed
      show "m + ?w + weight cs = 0" using Cons.prems(5) wC [of cs] by simp
    qed (simp_all add: False)
    then show ?thesis
      using False by (cases cs) (simp_all add: step)
  qed
qed simp

section \<open>Complete scans\<close>

text \<open>
  What the callbacks of the identifications and of \<^verbatim>\<open>add_disk\<close> do over time, in any interleaving:
  the identification of controller \<open>k\<close> makes the namespaces \<open>vs ! k\<close> visible, in order, and then says
  that it is done; for every namespace that was made visible the partitions have been scanned, later
  and once.
\<close>

definition complete_scan :: "u32 list list \<Rightarrow> scan_call list \<Rightarrow> bool" where
  "complete_scan vs cs \<longleftrightarrow>
     (\<forall>k < length vs. calls_of k cs = map Ev_visible (vs ! k) @ [Ev_done]) \<and>
     (\<forall>(k, n) \<in> set (visibles cs). k < length vs) \<and> (\<forall>k \<in> set (dones cs). k < length vs) \<and>
     mset (disks cs) = mset (visibles cs) \<and>
     (\<forall>i \<le> length cs. mset (disks (take i cs)) \<subseteq># mset (visibles (take i cs)))"

lemma done_iff: "Ev_done \<in> set (calls_of k cs) \<longleftrightarrow> k \<in> set (dones cs)"
proof (induction cs)
  case (Cons c cs)
  then show ?case by (cases c) auto
qed simp

lemma calls_of_empty: "calls_of k cs = [] \<longleftrightarrow> k \<notin> set (dones cs) \<and> k \<notin> fst ` set (visibles cs)"
proof (induction cs)
  case (Cons c cs)
  then show ?case by (cases c) auto
qed simp

lemma count_done: "count (mset (dones cs)) k = length (filter (\<lambda>e. e = Ev_done) (calls_of k cs))"
proof (induction cs)
  case (Cons c cs)
  then show ?case by (cases c) auto
qed simp

lemma complete_dones:
  assumes "complete_scan vs cs"
  shows "length (dones cs) = length vs"
proof -
  have "mset (dones cs) = mset [0..<length vs]"
  proof (rule multiset_eqI)
    fix k
    show "count (mset (dones cs)) k = count (mset [0..<length vs]) k"
    proof (cases "k < length vs")
      case True
      then have "calls_of k cs = map Ev_visible (vs ! k) @ [Ev_done]" using assms by (simp add: complete_scan_def)
      moreover have "count (mset [0..<length vs]) k = 1" using True by (simp add: count_mset_0_iff distinct_count_atmost_1)
      ultimately show ?thesis by (simp add: count_done filter_empty_conv)
    next
      case False
      then have "k \<notin> set (dones cs)" using assms by (auto simp: complete_scan_def)
      then show ?thesis using False by (metis atLeastLessThan_iff count_mset_0_iff set_upt)
    qed
  qed
  then show ?thesis by (metis length_upt minus_nat.diff_0 size_mset)
qed

lemma complete_pending:
  assumes c: "complete_scan vs cs" and i: "i < length cs"
  shows "0 < int (length vs) + weight (take i cs)"
proof -
  let ?p = "take i cs" and ?r = "drop i cs"
  have split: "length (dones cs) = length (dones ?p) + length (dones ?r)"
    "length (disks cs) = length (disks ?p) + length (disks ?r)"
    "length (visibles cs) = length (visibles ?p) + length (visibles ?r)"
    by (metis append_take_drop_id kinds_append length_append)+
  have le: "length (disks ?p) \<le> length (visibles ?p)"
    using c i by (metis complete_scan_def less_imp_le size_mset size_mset_mono)
  show ?thesis
  proof (cases "dones ?r = []")
    case False
    then have "length (dones ?p) < length vs" using split(1) complete_dones [OF c] by (cases "dones ?r") simp_all
    with le show ?thesis by (simp add: weight_def)
  next
    case True
    have "calls_of k ?r = []" if "k < length vs" for k
    proof (rule ccontr)
      assume ne: "calls_of k ?r \<noteq> []"
      have "calls_of k ?p @ calls_of k ?r = map Ev_visible (vs ! k) @ [Ev_done]"
        using c that by (metis append_take_drop_id complete_scan_def kinds_append(4))
      then have "last (calls_of k ?r) = Ev_done" using ne by (metis last_appendR last_snoc)
      then have "Ev_done \<in> set (calls_of k ?r)" using ne by (metis last_in_set)
      then show False using True by (simp add: done_iff)
    qed
    moreover have "\<forall>(k, n) \<in> set (visibles ?r). k < length vs"
    proof -
      have "set (visibles ?r) \<subseteq> set (visibles cs)"
        by (metis append_take_drop_id kinds_append(1) set_append Un_upper2)
      then show ?thesis using c by (auto simp: complete_scan_def)
    qed
    ultimately have v: "visibles ?r = []"
      by (cases "visibles ?r") (fastforce simp: calls_of_empty)+
    have "length xs = length (visibles xs) + length (dones xs) + length (disks xs)" for xs
    proof (induction xs)
      case (Cons c xs)
      then show ?case by (cases c) simp_all
    qed simp
    then have "length (disks ?r) = length ?r" using v True by (metis add_0 list.size(3))
    moreover have "length (disks cs) = length (visibles cs)" using c by (metis complete_scan_def size_mset)
    ultimately have "length (visibles ?p) = length (disks ?p) + length ?r" using split v by simp
    moreover have "length (dones ?p) = length vs" using split(1) True complete_dones [OF c] by simp
    ultimately show ?thesis using i by (simp add: weight_def)
  qed
qed

lemma complete_registers:
  fixes st :: "'io discovery"
  assumes c: "complete_scan vs cs" and vs: "vs \<noteq> []" and n: "dc_in_scan st = of_nat (length vs)"
    and b: "length vs + length (visibles cs) < 2 ^ 32"
  shows "scan_calls cs st = (replicate (length cs - 1) False @ [True],
    st\<lparr>dc_in_scan := 0, dc_service := scan_finished (dc_service st)\<rparr>)"
proof (rule scan_calls_count [where m = "int (length vs)"])
  show "cs \<noteq> []" using complete_dones [OF c] vs by auto
  show "int (length vs) + weight cs = 0"
    using complete_dones [OF c] c mset_eq_length [of "disks cs" "visibles cs"]
    by (simp add: weight_def complete_scan_def)
  show "\<forall>i \<le> length cs. int (length vs) + weight (take i cs) < 2 ^ 32"
  proof (intro allI impI)
    fix i
    have "length (visibles (take i cs)) \<le> length (visibles cs)"
      by (metis append_take_drop_id kinds_append(1) le_add1 length_append)
    then show "int (length vs) + weight (take i cs) < 2 ^ 32" using b by (simp add: weight_def)
  qed
qed (use complete_pending [OF c] n in simp_all)

section \<open>The loop over the devices\<close>

lemma catch_runtime_Some: "catch_runtime r = Inr (Some a) \<longleftrightarrow> r = Inr a"
proof (cases r)
  case (Inl e)
  then show ?thesis by (cases e) simp_all
qed simp

text \<open>
  A controller whose identification has been started: Identify Controller is outstanding, and no
  namespace exists yet.
\<close>

definition started :: "'io driver \<Rightarrow> bool" where
  "started d \<longleftrightarrow> at_ctl d \<and> heap_ok d \<and> dr_nss d = [] \<and> dr_heap d = Map.empty"

definition child_ok :: "child \<Rightarrow> bool" where
  "child_ok ch \<longleftrightarrow> services_ok (ch_step ch) \<and> bitmap_scan (ie_scan_zero (ch_irq ch))"

lemma register_interrupt_handler_Inr:
  assumes "register_interrupt_handler env i c = Inr (evs, i1, c1)"
  shows "ctl_asq c1 = ctl_asq c" and "ctl_acq c1 = ctl_acq c"
    and "i1 = i \<or> (\<exists>n. icu_alloc_msi (ie_scan_zero env) i = Inr (n, i1))"
proof -
  obtain msi i' where p: "(if msis_enabled i c then
        (case icu_alloc_msi (ie_scan_zero env) i of Inl _ \<Rightarrow> (None, i)
         | Inr (n, i') \<Rightarrow> (Some (n OR Icu_F_msi), i')) else (None, i)) = (msi, i')"
    by fastforce
  have i': "i' = i \<or> (\<exists>n. icu_alloc_msi (ie_scan_zero env) i = Inr (n, i'))"
    using p by (auto split: if_splits sum.splits)
  obtain irq trigger info evs1 where
    e: "i1 = i'" "ctl_enable_msi env irq info (c\<lparr>ctl_irq_trigger := trigger\<rparr>) = Inr (evs1, c1) \<or>
      c1 = c\<lparr>ctl_irq_trigger := trigger\<rparr>"
    using assms unfolding register_interrupt_handler_def p Let_def
    by (auto simp: bind_res_Inr_iff split: if_splits)
  from e(2) have "ctl_asq c1 = ctl_asq c \<and> ctl_acq c1 = ctl_acq c"
  proof
    assume a: "ctl_enable_msi env irq info (c\<lparr>ctl_irq_trigger := trigger\<rparr>) = Inr (evs1, c1)"
    show ?thesis using ctl_enable_msi_Inr(4,5) [OF a] by simp
  qed simp
  then show "ctl_asq c1 = ctl_asq c" and "ctl_acq c1 = ctl_acq c" by simp_all
  show "i1 = i \<or> (\<exists>n. icu_alloc_msi (ie_scan_zero env) i = Inr (n, i1))" using i' e(1) by simp
qed

lemma icu_after_failure_cases:
  "icu_after_failure env c i = i \<or> (\<exists>n. icu_alloc_msi (ie_scan_zero env) i = Inr (n, icu_after_failure env c i))"
  by (auto simp: icu_after_failure_def split: sum.splits)

lemma new_driver_idle:
  assumes "ctl_new env ic = Inr (c, ws, h)" and "ctl_asq c1 = ctl_asq c" and "ctl_acq c1 = ctl_acq c"
  shows "admin_idle (driver_of ic1 c1)"
proof -
  obtain cap where q: "completion_queue_new (env_mem env) (env_acq_buf env) 2 0 (ucast (cap_dstrd cap)) = Inr (ctl_acq c)"
    "submission_queue_new (env_mem env) (env_asq_buf env) (env_asq_prps env) 2 0 (ucast (cap_dstrd cap)) 0 =
      Inr (ctl_asq c)"
    using ctl_new_queues [OF assms(1)] by blast
  have "cq_tracks (ctl_acq c) [] 0" using completion_queue_new_tracks [OF q(1)] by simp
  then have "acq_quiet (driver_of ic1 c1)"
    using assms(3) by (auto simp: acq_quiet_def driver_of_def intro!: exI [of _ "[]"])
  then show ?thesis
    using submission_queue_new_inv [OF q(2)] submission_queue_new_fields [OF q(2)] assms(2)
    by (simp add: admin_idle_def driver_of_def)
qed

text \<open>What the loop does to the state, and what holds of the controllers that are kept.\<close>

definition keeps :: "('io driver \<Rightarrow> bool) \<Rightarrow> 'io discovery \<Rightarrow> 'io discovery \<Rightarrow> nat \<Rightarrow> bool" where
  "keeps P st st' m \<longleftrightarrow>
     (\<exists>new. dc_ctls st' = dc_ctls st @ new \<and> dc_in_scan st' = dc_in_scan st + of_nat (length new) \<and>
        length new \<le> m \<and> (\<forall>(dma, d) \<in> set new. P d)) \<and>
     dc_service st' = dc_service st"

lemma keeps_none: "dc_ctls st' = dc_ctls st \<Longrightarrow> dc_in_scan st' = dc_in_scan st \<Longrightarrow> dc_service st' = dc_service st \<Longrightarrow>
    keeps P st st' m"
  by (simp add: keeps_def)

lemma keeps_trans: "keeps P st1 st2 m \<Longrightarrow> keeps P st2 st3 n \<Longrightarrow> keeps P st1 st3 (m + n)"
  unfolding keeps_def by (elim exE conjE) (rule conjI exI [of _ "_ @ _"] | auto)+

lemma identify_started:
  fixes st :: "'io driver"
  assumes "st = driver_of ic c" and "admin_idle st" and "services_ok env" and "icu_inv ic"
    and "identify env st = Inr (evs, d)"
  shows "started d \<and> dr_icu d = ic"
proof -
  obtain db st' where "identify env st = Inr ([Ev_doorbell db], st')"
    and s: "at_ctl st'" "same_namespaces st st'"
    by (rule identify_ok [OF assms(2,3)])
  then have "st' = d" using assms(5) by simp
  with s assms(1,4) show ?thesis
    by (simp add: started_def same_namespaces_def heap_ok_def driver_of_def)
qed

lemma new_controller_cases:
  assumes "new_controller ch i spaces ic = Inr (spaces1, ic1, r)"
  obtains (failed) "r = None" "ic1 = ic"
  | (unbound) c :: "admin_cb ctl" and ws h where "r = None" "ctl_new (ch_ctl ch) ic = Inr (c, ws, h)"
      "ic1 = icu_after_failure (ch_irq ch) c ic"
  | (kept) dma c ws h evs c1 where "r = Some (dma, c1)" "ctl_new (ch_ctl ch) ic = Inr (c, ws, h)"
      "register_interrupt_handler (ch_irq ch) ic c = Inr (evs, ic1, c1)"
proof -
  have "(r = None \<and> ic1 = ic) \<or>
    (r = None \<and> (\<exists>(c :: admin_cb ctl) ws h. ctl_new (ch_ctl ch) ic = Inr (c, ws, h) \<and>
      ic1 = icu_after_failure (ch_irq ch) c ic)) \<or>
    (\<exists>dma c ws h evs c1. r = Some (dma, c1) \<and> ctl_new (ch_ctl ch) ic = Inr (c, ws, h) \<and>
      register_interrupt_handler (ch_irq ch) ic c = Inr (evs, ic1, c1))"
    using assms
    by (auto simp: new_controller_def bind_res_Inr_iff catch_runtime_Some split: option.splits)
  then show ?thesis using failed unbound kept by blast
qed

lemma new_controller_Inr:
  assumes "new_controller ch i spaces ic = Inr (spaces1, ic1, r)"
  shows "(ic1 = ic \<or> (\<exists>n. icu_alloc_msi (ie_scan_zero (ch_irq ch)) ic = Inr (n, ic1))) \<and>
    (\<forall>dma c. r = Some (dma, c) \<longrightarrow> admin_idle (driver_of ic1 c :: 'io driver))"
proof (rule new_controller_cases [OF assms])
  assume "r = None" "ic1 = ic"
  then show ?thesis by simp
next
  fix c :: "admin_cb ctl" assume "r = None" "ic1 = icu_after_failure (ch_irq ch) c ic"
  then show ?thesis using icu_after_failure_cases [of "ch_irq ch" c ic] by auto
next
  fix dma c ws h evs c1
  assume r: "r = Some (dma, c1)" and n: "ctl_new (ch_ctl ch) ic = Inr (c, ws, h)"
    and h: "register_interrupt_handler (ch_irq ch) ic c = Inr (evs, ic1, c1)"
  note q = register_interrupt_handler_Inr [OF h]
  have "admin_idle (driver_of ic1 c1 :: 'io driver)" by (rule new_driver_idle [OF n q(1,2)])
  then show ?thesis using q(3) r by simp
qed

lemma scan_child_keeps:
  fixes st :: "'io discovery"
  assumes "scan_child ch st = Inr st'" and ok: "ok \<Longrightarrow> child_ok ch \<and> icu_inv (dc_icu st)"
  shows "keeps (\<lambda>d. ok \<longrightarrow> started d) st st' 1 \<and> (ok \<longrightarrow> icu_inv (dc_icu st'))"
proof (cases "is_nvme_ctl (ch_is_pci ch) (env_cfg (ch_ctl ch)) = Inr False")
  case True
  then show ?thesis using assms by (simp add: scan_child_def keeps_none)
next
  case False
  with assms(1) obtain i spaces ic r where
    n: "new_controller ch i (dc_spaces st) (dc_icu st) = Inr (spaces, ic, r)"
    and s: "(case r of None \<Rightarrow> Inr (st\<lparr>dc_spaces := spaces, dc_icu := ic\<rparr>)
       | Some (dma, c) \<Rightarrow>
         bind_res (identify (ch_step ch) (driver_of ic c)) (\<lambda>(_, d).
           Inr (st\<lparr>dc_spaces := spaces, dc_in_scan := dc_in_scan st + 1, dc_icu := dr_icu d,
             dc_ctls := dc_ctls st @ [(dma, d)]\<rparr>))) = Inr st'"
    by (auto simp: scan_child_def bind_res_Inr_iff Let_def split: if_splits)
  note nc = new_controller_Inr [OF n, where 'io = 'io]
  have ic: "icu_inv ic" if ok
    using nc assms(2) [OF that] bitmap_scan.icu_alloc_InrD [of "ie_scan_zero (ch_irq ch)" "dc_icu st"]
    by (auto simp: child_ok_def)
  show ?thesis
  proof (cases r)
    case None
    then show ?thesis using s ic by (auto simp: keeps_none)
  next
    case (Some dc)
    then obtain dma c where r: "r = Some (dma, c)" by (cases dc) simp
    with s obtain evs d where d: "identify (ch_step ch) (driver_of ic c) = Inr (evs, d)"
      "st' = st\<lparr>dc_spaces := spaces, dc_in_scan := dc_in_scan st + 1, dc_icu := dr_icu d,
        dc_ctls := dc_ctls st @ [(dma, d)]\<rparr>"
      by (auto simp: bind_res_Inr_iff)
    have "started d \<and> dr_icu d = ic" if ok
      using identify_started [OF refl _ _ ic [OF that] d(1)] nc r assms(2) [OF that]
      by (simp add: child_ok_def)
    then show ?thesis using d(2) ic by (auto simp: keeps_def)
  qed
qed

lemma scan_children_keeps:
  fixes st :: "'io discovery"
  assumes "scan_children chs st = Inr st'" and ok: "ok \<Longrightarrow> list_all child_ok chs \<and> icu_inv (dc_icu st)"
  shows "keeps (\<lambda>d. ok \<longrightarrow> started d) st st' (length chs)"
  using assms
proof (induction chs arbitrary: st)
  case Nil
  then show ?case by (simp add: keeps_none)
next
  case (Cons ch chs)
  then obtain st1 where s: "scan_child ch st = Inr st1" "scan_children chs st1 = Inr st'"
    by (auto simp: bind_res_Inr_iff)
  have 1: "keeps (\<lambda>d. ok \<longrightarrow> started d) st st1 1 \<and> (ok \<longrightarrow> icu_inv (dc_icu st1))"
    by (rule scan_child_keeps [OF s(1)]) (use Cons.prems(2) in simp)
  have "keeps (\<lambda>d. ok \<longrightarrow> started d) st1 st' (length chs)"
    by (rule Cons.IH [OF s(2)]) (use Cons.prems(2) 1 in simp)
  then have "keeps (\<lambda>d. ok \<longrightarrow> started d) st st' (1 + length chs)" by (rule keeps_trans [OF conjunct1 [OF 1]])
  then show ?case by simp
qed

text \<open>The state after the discovery: one count for every controller, or the service registered.\<close>

lemma device_discovery_Inr:
  fixes st :: "'io discovery"
  assumes d: "device_discovery chs (discovery_new ic trusted) = Inr (r, st)" and n: "length chs < 2 ^ 32 - 1"
    and ok: "ok \<Longrightarrow> list_all child_ok chs \<and> icu_inv ic"
  shows "r \<longleftrightarrow> dc_ctls st = []" and "dc_in_scan st = of_nat (length (dc_ctls st))"
    and "sv_scan_in_progress (dc_service st) \<longleftrightarrow> dc_ctls st \<noteq> []"
    and "length (dc_ctls st) \<le> length chs" and "\<forall>(dma, d) \<in> set (dc_ctls st). ok \<longrightarrow> started d"
    and "sv_trusted (dc_service st) = trusted"
proof -
  let ?new = "(discovery_new ic trusted :: 'io discovery)\<lparr>dc_in_scan := 1\<rparr>"
  obtain st1 where s: "scan_children chs ?new = Inr st1" and e: "(r, st) = device_scan_finished st1"
    using d by (auto simp: device_discovery_def bind_res_Inr_iff discovery_new_def)
  have "keeps (\<lambda>d. ok \<longrightarrow> started d) ?new st1 (length chs)"
    by (rule scan_children_keeps [OF s]) (use ok in \<open>simp add: discovery_new_def\<close>)
  then have k: "dc_in_scan st1 = 1 + of_nat (length (dc_ctls st1))" "length (dc_ctls st1) \<le> length chs"
    "\<forall>(dma, d) \<in> set (dc_ctls st1). ok \<longrightarrow> started d"
    "dc_service st1 = \<lparr>sv_scan_in_progress = True, sv_trusted = trusted\<rparr>"
    by (auto simp: keeps_def discovery_new_def)
  have "unat (of_nat (length (dc_ctls st1)) :: u32) = length (dc_ctls st1)"
    using k(2) n by (simp add: unat_of_nat)
  then have "(0 :: u32) < of_nat (length (dc_ctls st1)) \<longleftrightarrow> dc_ctls st1 \<noteq> []"
    by (simp add: word_less_nat_alt)
  then have f: "(r, st) = (if dc_ctls st1 \<noteq> [] then (False, st1\<lparr>dc_in_scan := of_nat (length (dc_ctls st1))\<rparr>)
      else (True, st1\<lparr>dc_in_scan := 0, dc_service := scan_finished (dc_service st1)\<rparr>))"
    using e k(1) by (simp add: device_scan_finished_def Let_def)
  show "r \<longleftrightarrow> dc_ctls st = []" and "dc_in_scan st = of_nat (length (dc_ctls st))"
    and "sv_scan_in_progress (dc_service st) \<longleftrightarrow> dc_ctls st \<noteq> []"
    and "length (dc_ctls st) \<le> length chs" and "\<forall>(dma, d) \<in> set (dc_ctls st). ok \<longrightarrow> started d"
    and "sv_trusted (dc_service st) = trusted"
    using f k by (auto simp: scan_finished_def split: if_splits)
qed

section \<open>Scans that do not end\<close>

lemma scan_calls_pending:
  fixes st :: "'io discovery"
  assumes "dc_in_scan st = of_int m"
    and "\<forall>i \<le> length cs. 0 < m + weight (take i cs) \<and> m + weight (take i cs) < 2 ^ 32"
  shows "scan_calls cs st = (replicate (length cs) False, st\<lparr>dc_in_scan := of_int (m + weight cs)\<rparr>)"
  using assms
proof (induction cs arbitrary: m st)
  case Nil
  then show ?case by (simp add: weight_def)
next
  case (Cons c cs)
  let ?w = "weight [c]"
  have wC: "weight (c # xs) = ?w + weight xs" for xs
    by (cases c) (simp_all add: weight_def)
  have word: "(0 :: u32) < of_int (m + ?w)" using Cons.prems(2) [rule_format, of 1] by (intro of_int_pos) simp_all
  have step: "scan_call_step c st = (False, st\<lparr>dc_in_scan := of_int (m + ?w)\<rparr>)"
    using word Cons.prems(1)
    by (cases c) (simp_all add: device_scan_finished_def Let_def weight_def)
  have "\<forall>i \<le> length cs. 0 < m + ?w + weight (take i cs) \<and> m + ?w + weight (take i cs) < 2 ^ 32"
  proof (intro allI impI)
    fix i assume "i \<le> length cs"
    then show "0 < m + ?w + weight (take i cs) \<and> m + ?w + weight (take i cs) < 2 ^ 32"
      using Cons.prems(2) [rule_format, of "Suc i"] wC [of "take i cs"] by simp
  qed
  from Cons.IH [OF _ this, of "st\<lparr>dc_in_scan := of_int (m + ?w)\<rparr>"]
  show ?case by (simp add: step wC [of cs] add.assoc)
qed

section \<open>DMA spaces\<close>

text \<open>Any sequence of requests: the domains that were assigned, and what each request returned.\<close>

fun dma_requests ::
  "(dma_answers \<times> u64) list \<Rightarrow> dma_spaces \<Rightarrow> (u64 \<times> nat) list \<times> nat option list \<times> dma_spaces" where
  "dma_requests [] s = ([], [], s)"
| "dma_requests ((da, i) # rs) s =
     (case create_dma_space da i s of
        Inl _ \<Rightarrow> (case dma_requests rs s of (as, res, s') \<Rightarrow> (as, None # res, s'))
      | Inr (dma, a, s1) \<Rightarrow> (case dma_requests rs s1 of (as, res, s') \<Rightarrow> (a @ as, Some dma # res, s')))"

lemma create_dma_space_cases:
  assumes "create_dma_space da i s = Inr (dma, a, s1)"
  shows "s i = Some dma \<and> a = [] \<and> s1 = s \<or> s i = None \<and> a = [(i, dma)] \<and> s1 = s(i \<mapsto> dma)"
  using assms by (auto simp: create_dma_space_def bind_res_Inr_iff split: option.splits)

lemma dma_requests_spec:
  assumes "dma_requests rs s = (as, res, s')"
  shows "distinct (map fst as) \<and> (\<forall>(i, dma) \<in> set as. s i = None) \<and> s' = s ++ map_of as \<and>
    length res = length rs \<and> (\<forall>j < length rs. \<forall>dma. res ! j = Some dma \<longrightarrow> s' (snd (rs ! j)) = Some dma)"
  using assms
proof (induction rs arbitrary: s as res)
  case Nil
  then show ?case by simp
next
  case (Cons r rs)
  obtain da i where r: "r = (da, i)" by (cases r)
  show ?case
  proof (cases "create_dma_space da i s")
    case (Inl e)
    with Cons.prems r obtain res1 where q: "dma_requests rs s = (as, res1, s')" "res = None # res1"
      by (auto split: prod.splits)
    from Cons.IH [OF q(1)] q(2) r show ?thesis by (auto simp: nth_Cons split: nat.splits)
  next
    case (Inr x)
    obtain dma a s1 where x: "create_dma_space da i s = Inr (dma, a, s1)" using Inr by (cases x) auto
    with Cons.prems r obtain as1 res1 where q: "dma_requests rs s1 = (as1, res1, s')" "res = Some dma # res1"
      "as = a @ as1"
      by (auto split: prod.splits)
    note ih = Cons.IH [OF q(1)]
    have "s1 i = Some dma" using create_dma_space_cases [OF x] by auto
    moreover from this have "map_of as1 i = None" using ih by (auto simp: map_of_eq_None_iff)
    ultimately have i: "s' i = Some dma" using ih by (simp add: map_add_Some_iff)
    have "distinct (map fst as) \<and> (\<forall>(j, d) \<in> set as. s j = None) \<and> s' = s ++ map_of as"
      using create_dma_space_cases [OF x] ih q(3) \<open>map_of as1 i = None\<close>
      by (fastforce simp: map_add_def fun_eq_iff map_of_eq_None_iff split: option.splits if_splits)
    then show ?thesis using ih i q(2) r by (auto simp: nth_Cons split: nat.splits)
  qed
qed

text \<open>
  C15: A discovery of any devices, with failures of any kind that it survives, followed by the calls of
  the identifications and partition scans it has started, in any interleaving: the service is
  registered exactly once. With no controller found this happens at the end of the discovery;
  otherwise not before the very last of these calls, so every controller has been identified and the
  partitions of every namespace have been scanned, and until then clients that ask for an unknown
  device are told to try again. The count never runs below zero or over.
\<close>

theorem service_registered_once:
  fixes st :: "'io discovery"
  assumes "device_discovery chs (discovery_new ic trusted) = Inr (r, st)" and "length vs = length (dc_ctls st)"
    and "complete_scan vs cs" and "length chs + length (visibles cs) < 2 ^ 32 - 1"
  shows "if dc_ctls st = [] then r \<and> cs = [] \<and> \<not> sv_scan_in_progress (dc_service st)
    else \<not> r \<and> sv_scan_in_progress (dc_service st) \<and>
      scan_calls cs st = (replicate (length cs - 1) False @ [True],
        st\<lparr>dc_in_scan := 0, dc_service := \<lparr>sv_scan_in_progress = False, sv_trusted = trusted\<rparr>\<rparr>)"
proof -
  have n: "length chs < 2 ^ 32 - 1" using assms(4) by simp
  note d = device_discovery_Inr [where ok = False, OF assms(1) n]
  show ?thesis
  proof (cases "dc_ctls st = []")
    case True
    then have "vs = []" using assms(2) by simp
    then have "visibles cs = []" "dones cs = []" "mset (disks cs) = mset (visibles cs)"
      using assms(3) by (cases "visibles cs"; cases "dones cs"; auto simp: complete_scan_def)+
    then have "cs = []"
      by (cases cs rule: list.exhaust; cases "hd cs") auto
    then show ?thesis using True d(1,3) by simp
  next
    case False
    have "scan_calls cs st = (replicate (length cs - 1) False @ [True],
      st\<lparr>dc_in_scan := 0, dc_service := scan_finished (dc_service st)\<rparr>)"
      using assms(2-4) False d(2,4) by (intro complete_registers) auto
    moreover have "scan_finished (dc_service st) = \<lparr>sv_scan_in_progress = False, sv_trusted = trusted\<rparr>"
      using d(6) by (cases "dc_service st") (simp add: scan_finished_def)
    ultimately show ?thesis using False d(1,3) by simp
  qed
qed

text \<open>
  From the bus to the client: a controller that the discovery has kept (its constructor and its
  interrupt set-up have succeeded, its Identify command is issued) is identified as
  \<open>identify_enumerates\<close> says.
\<close>

lemma discovered_controller_served:
  fixes st :: "'io discovery"
  assumes "device_discovery chs (discovery_new ic trusted) = Inr (r, st)" and "length chs < 2 ^ 32 - 1"
    and "list_all child_ok chs" and "icu_inv ic" and "(dma, d) \<in> set (dc_ctls st)"
    and "\<And>i. services_ok (envs i)" and "take_bit 15 (fst (ca_ctl a)) = 0"
    and "nn = rd32 (snd (ca_ctl a)) (cns_ic_off Nn)" and "1 \<le> nn" and "unat nn < 65536"
  shows "\<exists>evs d'. (\<forall>k \<ge> 3 * unat nn + 1. rounds a envs k d = Inr (evs, d')) \<and>
    client_calls evs = map Ev_visible (visible_nsids a) @ [Ev_done] \<and> admin_idle d' \<and>
    list_all2 (holds_ready a (range envs) (ctl_kind (dr_ctl d')) (dr_heap d')) (dr_nss d') (visible_nsids a)"
proof -
  have "started d"
    using device_discovery_Inr(5) [where ok = True, OF assms(1,2)] assms(3,4,5) by blast
  then have "at_ctl d" "heap_ok d" "dr_nss d = []" by (simp_all add: started_def)
  then show ?thesis using rounds_enumerate [where envs = envs, OF _ _ assms(6-10), of d] by auto
qed

text \<open>
  As long as one controller has not announced the end of its identification, the service is not
  registered, whatever else happens; so a controller that never does (one that stops answering, or
  the one with no namespaces of \<open>identify_zero_namespaces\<close>) keeps the driver from accepting clients
  at all.
\<close>

lemma service_waits_for_all:
  fixes st :: "'io discovery"
  assumes "device_discovery chs (discovery_new ic trusted) = Inr (r, st)"
    and "length (dones cs) < length (dc_ctls st)"
    and "\<forall>i \<le> length cs. mset (disks (take i cs)) \<subseteq># mset (visibles (take i cs))"
    and "length chs + length (visibles cs) < 2 ^ 32 - 1"
  shows "\<not> r \<and> True \<notin> set (fst (scan_calls cs st)) \<and> sv_scan_in_progress (dc_service (snd (scan_calls cs st)))"
proof -
  have n: "length chs < 2 ^ 32 - 1" using assms(4) by simp
  note d = device_discovery_Inr [where ok = False, OF assms(1) n]
  let ?m = "int (length (dc_ctls st))"
  have "\<forall>i \<le> length cs. 0 < ?m + weight (take i cs) \<and> ?m + weight (take i cs) < 2 ^ 32"
  proof (intro allI impI)
    fix i assume i: "i \<le> length cs"
    have "length (dones (take i cs)) \<le> length (dones cs)" "length (visibles (take i cs)) \<le> length (visibles cs)"
      by (metis append_take_drop_id kinds_append(1,3) le_add1 length_append)+
    moreover have "length (disks (take i cs)) \<le> length (visibles (take i cs))"
      using assms(3) i by (metis size_mset size_mset_mono)
    ultimately show "0 < ?m + weight (take i cs) \<and> ?m + weight (take i cs) < 2 ^ 32"
      using assms(2,4) d(4) by (simp add: weight_def)
  qed
  then have "scan_calls cs st = (replicate (length cs) False, st\<lparr>dc_in_scan := of_int (?m + weight cs)\<rparr>)"
    using d(2) by (intro scan_calls_pending) simp_all
  moreover have "dc_ctls st \<noteq> []" using assms(2) by auto
  ultimately show ?thesis using d(1,3) by simp
qed

text \<open>
  C34: Over any sequence of requests, with failures of any kind, every DMA domain is assigned at most
  one space, and every request for it that succeeds returns that space: devices behind one domain
  share their mappings, and no domain is bound twice.
\<close>

theorem dma_space_per_domain:
  assumes "dma_requests rs Map.empty = (as, res, s)"
  shows "distinct (map fst as) \<and> length res = length rs \<and>
    (\<forall>j < length rs. \<forall>dma. res ! j = Some dma \<longrightarrow> (snd (rs ! j), dma) \<in> set as)"
  using dma_requests_spec [OF assms] by (auto dest: map_of_SomeD)

section \<open>A concrete discovery\<close>

text \<open>Two children of the bus, of which the second is an NVMe controller.\<close>

definition ex_dma :: dma_answers where
  "ex_dma = \<lparr>da_cap = Inr 5, da_create = Inr (), da_assign = (\<lambda>_ _. Inr ())\<rparr>"

definition ex_child :: "bool \<Rightarrow> child" where
  "ex_child pci = \<lparr>ch_is_pci = pci, ch_resources = [Inr (False, 9), Inr (True, 3)], ch_dma = ex_dma,
     ch_ctl = ex_env, ch_irq = ex_irq_env, ch_step = id_env\<rparr>"

lemma handler_ok:
  assumes "services_ok env" and "ie_icu_info (se_irq env) = Inr info" and "ie_legacy (se_irq env) = Inr l"
    and "\<forall>irq. ie_unmask_icu (se_irq env) irq = Inr ()"
  shows "\<exists>r. register_interrupt_handler (se_irq env) i c = Inr r"
proof -
  obtain msi i' where p: "(if msis_enabled i c then
        (case icu_alloc_msi (ie_scan_zero (se_irq env)) i of Inl _ \<Rightarrow> (None, i)
         | Inr (n, i') \<Rightarrow> (Some (n OR Icu_F_msi), i')) else (None, i)) = (msi, i')"
    by fastforce
  obtain irq t where m: "(case msi of Some irq \<Rightarrow> Inr (irq, 1) | None \<Rightarrow> chksys (ie_legacy (se_irq env))) = Inr (irq, t)"
    using assms(3) by (cases msi; cases l) auto
  obtain b mi where s: "ie_register (se_irq env) = Inr ()" "ie_bind (se_irq env) irq = Inr b"
    "ie_msi_info (se_irq env) irq = Inr mi" "ie_unmask_cap (se_irq env) = Inr ()"
    using assms(1) unfolding services_ok_def by metis
  obtain evs d where "ctl_enable_msi (se_irq env) irq mi (c\<lparr>ctl_irq_trigger := t\<rparr>) =
      Inr (evs, c\<lparr>ctl_irq_trigger := t, ctl_pci := d\<rparr>)"
    using ctl_enable_msi_ok [OF assms(1)] by blast
  then show ?thesis
    unfolding register_interrupt_handler_def p Let_def using m s assms(2,4) by simp
qed

lemma ex_discovery:
  "\<exists>(st :: 'io discovery) d. device_discovery [ex_child False, ex_child True] (discovery_new ic trusted) = Inr (False, st) \<and>
     dc_ctls st = [(5, d)]"
proof -
  obtain c :: "admin_cb ctl" and ws h where c: "ctl_new ex_env ic = Inr (c, ws, h)"
    using ex_new [of ic] by auto
  have irq: "se_irq id_env = ex_irq_env" by (simp add: id_env_def)
  have e: "ie_icu_info ex_irq_env = Inr (0, 0, 0)" "ie_legacy ex_irq_env = Inr (11, 0)"
    "\<forall>irq. ie_unmask_icu ex_irq_env irq = Inr ()"
    by (simp_all add: ex_irq_env_def)
  obtain evs ic1 c1 where r: "register_interrupt_handler ex_irq_env ic c = Inr (evs, ic1, c1)"
    using handler_ok [OF id_services, unfolded irq, OF e, of ic c] by auto
  have idle: "admin_idle (driver_of ic1 c1 :: 'io driver)"
    by (rule new_driver_idle [OF c register_interrupt_handler_Inr(1,2) [OF r]])
  obtain db d where i: "identify id_env (driver_of ic1 c1 :: 'io driver) = Inr ([Ev_doorbell db], d)"
    by (rule identify_ok [OF idle id_services])
  have "is_nvme_ctl True (env_cfg ex_env) = Inr True"
    by (simp add: is_nvme_ctl_def ex_env_def)
  then have "scan_child (ex_child True) (discovery_new ic trusted\<lparr>dc_in_scan := 1\<rparr>) =
      Inr (discovery_new ic trusted\<lparr>dc_in_scan := 2, dc_spaces := [3 \<mapsto> 5], dc_icu := dr_icu d,
        dc_ctls := [(5, d)]\<rparr>)"
    using c r i by (simp add: scan_child_def ex_child_def new_controller_def create_dma_space_def ex_dma_def
        discovery_new_def)
  moreover have "scan_child (ex_child False) st = Inr st" for st :: "'io discovery"
    by (simp add: scan_child_def ex_child_def is_nvme_ctl_def)
  ultimately show ?thesis
    by (simp add: device_discovery_def device_scan_finished_def discovery_new_def)
qed

lemma ex_child_ok: "child_ok (ex_child pci)"
  using id_services by (simp add: child_ok_def ex_child_def services_ok_def id_env_def)

definition ex_calls :: "scan_call list" where
  "ex_calls = [Call_visible 0 1, Call_done 0, Call_disk 0 1]"

lemma ex_prefixes: "\<forall>i \<le> length ex_calls. mset (disks (take i ex_calls)) \<subseteq># mset (visibles (take i ex_calls))"
  by (auto simp: ex_calls_def le_Suc_eq)

theorem service_registered_once_witness:
  "\<exists>st :: nat discovery. device_discovery [ex_child False, ex_child True] (discovery_new small_icu []) = Inr (False, st) \<and>
     fst (scan_calls ex_calls st) = [False, False, True]"
proof -
  obtain st :: "nat discovery" and d where
    d: "device_discovery [ex_child False, ex_child True] (discovery_new small_icu []) = Inr (False, st)"
      "dc_ctls st = [(5, d)]"
    using ex_discovery by blast
  have c: "complete_scan [[1]] ex_calls"
    using ex_prefixes by (simp add: complete_scan_def) (simp add: ex_calls_def)
  have "visibles ex_calls = [(0, 1)]" by (simp add: ex_calls_def)
  then have "scan_calls ex_calls st = (replicate (length ex_calls - 1) False @ [True],
      st\<lparr>dc_in_scan := 0, dc_service := \<lparr>sv_scan_in_progress = False, sv_trusted = []\<rparr>\<rparr>)"
    using service_registered_once [OF d(1) _ c] d(2) by simp
  then show ?thesis using d(1) by (simp add: ex_calls_def)
qed

theorem dma_space_per_domain_witness:
  "\<exists>as res s. dma_requests [(ex_dma, 3), (ex_dma\<lparr>da_cap := Inl L4_ENOMEM\<rparr>, 4), (ex_dma\<lparr>da_cap := Inr 6\<rparr>, 3)]
      Map.empty = (as, res, s) \<and> res = [Some 5, None, Some 5] \<and> distinct (map fst as) \<and> (3, 5) \<in> set as"
proof -
  let ?rs = "[(ex_dma, 3), (ex_dma\<lparr>da_cap := Inl L4_ENOMEM\<rparr>, 4), (ex_dma\<lparr>da_cap := Inr 6\<rparr>, 3)]"
  have r: "dma_requests ?rs Map.empty = ([(3, 5)], [Some 5, None, Some 5], [3 \<mapsto> 5])"
    by (simp add: create_dma_space_def ex_dma_def)
  then show ?thesis using dma_space_per_domain [OF r] by simp
qed

end
