(* ===== verification/Options.thy ===== *)
theory Options
  imports Service
begin

text \<open>
  The command line of the driver (\<^verbatim>\<open>parse_args\<close> and \<^verbatim>\<open>Client_opts\<close> of \<^verbatim>\<open>server/src/main.cc\<close>). What
  \<^verbatim>\<open>getopt_long\<close> returns is the input: one \<open>cmd_option\<close> per call, with its argument, and the operands
  that remain at the end.
\<close>

section \<open>Options and state\<close>

datatype cmd_option =
    Opt_verbose | Opt_quiet | Opt_client string | Opt_device string | Opt_ds_max string
  | Opt_readonly | Opt_nosgl | Opt_nomsi | Opt_nomsix | Opt_dma_map_all | Opt_dma_map_per_req
  | Opt_register_ds string
  | Opt_error \<comment> \<open>\<^verbatim>\<open>':'\<close> or \<^verbatim>\<open>'?'\<close>: an argument is missing, or the option is not known\<close>

text \<open>What the program asks of its surroundings: libblock-device, and the capabilities by name.\<close>

record arg_env =
  ae_device_name :: "string \<Rightarrow> string l4_ret"
  ae_endpoint :: "string \<Rightarrow> nat option"
  ae_dataspace :: "string \<Rightarrow> nat option"

record client_opts =
  co_capname :: "string option"
  co_device :: string
  co_ds_max :: int
  co_readonly :: bool
  co_dma_map_all :: bool

definition client_opts_new :: client_opts where
  "client_opts_new =
     \<lparr>co_capname = None, co_device = [], co_ds_max = 2, co_readonly = False, co_dma_map_all = True\<rparr>"

text \<open>
  A call of \<^verbatim>\<open>add_static_client\<close>. The list of the trusted dataspaces is shared, so it is not part of
  the call; the flag that says whether dataspaces are validated against it is.
\<close>

record static_client =
  sc_cap :: nat
  sc_params :: create_params
  sc_validate :: bool

record settings =
  st_debug_level :: u32
  st_use_sgls :: bool
  st_use_msis :: bool
  st_use_msixs :: bool
  st_trusted :: "nat list"
  st_clients :: "static_client list"

record arg_state = settings +
  ar_opts :: client_opts

definition arg_state_new :: arg_state where
  "arg_state_new =
     \<lparr>st_debug_level = 1, st_use_sgls = True, st_use_msis = True, st_use_msixs = True,
      st_trusted = [], st_clients = [], ar_opts = client_opts_new\<rparr>"

text \<open>\<^verbatim>\<open>atoi\<close>: \<^verbatim>\<open>strtol\<close>, cast to \<^verbatim>\<open>int\<close>.\<close>

definition atoi :: "string \<Rightarrow> int" where
  "atoi s = sint (word_of_int (fst (strtol s)) :: u32)"

section \<open>Operations\<close>

text \<open>\<open>None\<close> is the failure after which the program exits.\<close>

definition add_client :: "arg_env \<Rightarrow> arg_state \<Rightarrow> arg_state option" where
  "add_client env st =
     (let co = ar_opts st in
      case co_capname co of
        None \<Rightarrow> Some st
      | Some capname \<Rightarrow>
          if co_device co = [] then None
          else
            case ae_endpoint env capname of
              None \<Rightarrow> None
            | Some cap \<Rightarrow> Some (st\<lparr>st_clients := st_clients st @
                [\<lparr>sc_cap = cap,
                  sc_params = \<lparr>cr_device = c_str (co_device co), cr_num_ds = co_ds_max co,
                    cr_readonly = co_readonly co, cr_map_all = co_dma_map_all co\<rparr>,
                  sc_validate = (st_trusted st \<noteq> [])\<rparr>]\<rparr>))"

fun parse_option :: "arg_env \<Rightarrow> cmd_option \<Rightarrow> arg_state \<Rightarrow> arg_state option" where
  "parse_option env Opt_verbose st =
     Some (st\<lparr>st_debug_level := push_bit 1 (st_debug_level st) + 1\<rparr>)"
| "parse_option env Opt_quiet st = Some (st\<lparr>st_debug_level := 0\<rparr>)"
| "parse_option env (Opt_client capname) st =
     (case add_client env st of
        None \<Rightarrow> None
      | Some st1 \<Rightarrow> Some (st1\<lparr>ar_opts := client_opts_new\<lparr>co_capname := Some capname\<rparr>\<rparr>))"
| "parse_option env (Opt_device name) st =
     (case ae_device_name env name of
        Inl _ \<Rightarrow> None
      | Inr dev \<Rightarrow> Some (st\<lparr>ar_opts := (ar_opts st)\<lparr>co_device := dev\<rparr>\<rparr>))"
| "parse_option env (Opt_ds_max arg) st =
     (let n = atoi arg in
      if n \<le> 0 \<or> n > 256 then None else Some (st\<lparr>ar_opts := (ar_opts st)\<lparr>co_ds_max := n\<rparr>\<rparr>))"
| "parse_option env Opt_readonly st = Some (st\<lparr>ar_opts := (ar_opts st)\<lparr>co_readonly := True\<rparr>\<rparr>)"
| "parse_option env Opt_dma_map_all st =
     Some (st\<lparr>ar_opts := (ar_opts st)\<lparr>co_dma_map_all := True\<rparr>\<rparr>)"
| "parse_option env Opt_dma_map_per_req st =
     Some (st\<lparr>ar_opts := (ar_opts st)\<lparr>co_dma_map_all := False\<rparr>\<rparr>)"
| "parse_option env Opt_nosgl st = Some (st\<lparr>st_use_sgls := False\<rparr>)"
| "parse_option env Opt_nomsi st = Some (st\<lparr>st_use_msis := False\<rparr>)"
| "parse_option env Opt_nomsix st = Some (st\<lparr>st_use_msixs := False\<rparr>)"
| "parse_option env (Opt_register_ds name) st =
     (case ae_dataspace env name of
        None \<Rightarrow> None
      | Some ds \<Rightarrow> Some (st\<lparr>st_trusted := st_trusted st @ [ds]\<rparr>))"
| "parse_option env Opt_error st = None"

fun parse_options :: "arg_env \<Rightarrow> cmd_option list \<Rightarrow> arg_state \<Rightarrow> arg_state option" where
  "parse_options env [] st = Some st"
| "parse_options env (o1 # os) st =
     (case parse_option env o1 st of None \<Rightarrow> None | Some st1 \<Rightarrow> parse_options env os st1)"

definition parse_args :: "arg_env \<Rightarrow> cmd_option list \<Rightarrow> string list \<Rightarrow> settings option" where
  "parse_args env options operands =
     (case parse_options env options arg_state_new of
        None \<Rightarrow> None
      | Some st \<Rightarrow>
          if operands \<noteq> [] then None
          else map_option settings.truncate (add_client env st))"

section \<open>Scopes\<close>

text \<open>
  A \<^verbatim>\<open>--client\<close> option opens a scope that ends at the next one. What holds for the client of a scope
  is said by the last option of each kind in it.
\<close>

definition last_or :: "'a \<Rightarrow> 'a list \<Rightarrow> 'a" where
  "last_or d xs = (if xs = [] then d else last xs)"

definition scope_device :: "arg_env \<Rightarrow> cmd_option list \<Rightarrow> string list" where
  "scope_device env os = [dev. Opt_device name \<leftarrow> os, Inr dev \<leftarrow> [ae_device_name env name]]"

definition scope_ds_max :: "cmd_option list \<Rightarrow> int list" where
  "scope_ds_max os = [atoi arg. Opt_ds_max arg \<leftarrow> os]"

definition scope_mapping :: "cmd_option list \<Rightarrow> bool list" where
  "scope_mapping os = [o1 = Opt_dma_map_all. o1 \<leftarrow> os, o1 \<in> {Opt_dma_map_all, Opt_dma_map_per_req}]"

definition registered :: "arg_env \<Rightarrow> cmd_option list \<Rightarrow> nat list" where
  "registered env os = [ds. Opt_register_ds name \<leftarrow> os, Some ds \<leftarrow> [ae_dataspace env name]]"

fun is_client :: "cmd_option \<Rightarrow> bool" where
  "is_client (Opt_client _) = True"
| "is_client _ = False"

fun option_ok :: "arg_env \<Rightarrow> cmd_option \<Rightarrow> bool" where
  "option_ok env (Opt_device name) = (case ae_device_name env name of Inl _ \<Rightarrow> False | Inr _ \<Rightarrow> True)"
| "option_ok env (Opt_ds_max arg) = (1 \<le> atoi arg \<and> atoi arg \<le> 256)"
| "option_ok env (Opt_register_ds name) = (ae_dataspace env name \<noteq> None)"
| "option_ok env Opt_error = False"
| "option_ok env _ = True"

definition scope_client :: "arg_env \<Rightarrow> nat list \<Rightarrow> string \<times> cmd_option list \<Rightarrow> static_client" where
  "scope_client env trusted c =
     (case c of (name, os) \<Rightarrow>
       \<lparr>sc_cap = the (ae_endpoint env name),
        sc_params = \<lparr>cr_device = c_str (last_or [] (scope_device env os)), cr_num_ds = last_or 2 (scope_ds_max os),
          cr_readonly = (Opt_readonly \<in> set os), cr_map_all = last_or True (scope_mapping os)\<rparr>,
        sc_validate = (trusted \<noteq> [])\<rparr>)"

text \<open>Every client sees the dataspaces that are registered up to the end of its scope.\<close>

fun scope_clients :: "arg_env \<Rightarrow> nat list \<Rightarrow> (string \<times> cmd_option list) list \<Rightarrow> static_client list" where
  "scope_clients env ds [] = []"
| "scope_clients env ds (c # cs) =
     (let ds1 = ds @ registered env (snd c) in scope_client env ds1 c # scope_clients env ds1 cs)"

definition scope_options :: "string \<times> cmd_option list \<Rightarrow> cmd_option list" where
  "scope_options c = (case c of (name, os) \<Rightarrow> Opt_client name # os)"

definition scope_ok :: "arg_env \<Rightarrow> string \<times> cmd_option list \<Rightarrow> bool" where
  "scope_ok env c =
     (case c of (name, os) \<Rightarrow>
       list_all (option_ok env) os \<and> ae_endpoint env name \<noteq> None \<and> last_or [] (scope_device env os) \<noteq> [])"

text \<open>The debug level has a bit for every \<^verbatim>\<open>-v\<close> behind the last \<^verbatim>\<open>-q\<close>, and one more if there is none.\<close>

definition verbosity :: "cmd_option list \<Rightarrow> nat" where
  "verbosity os =
     length (filter (\<lambda>x. x = Opt_verbose) (takeWhile (\<lambda>x. x \<noteq> Opt_quiet) (rev os))) +
     (if Opt_quiet \<in> set os then 0 else 1)"

definition documented_settings ::
  "arg_env \<Rightarrow> cmd_option list \<Rightarrow> (string \<times> cmd_option list) list \<Rightarrow> settings" where
  "documented_settings env pre clients =
     (let os = pre @ concat (map scope_options clients) in
      \<lparr>st_debug_level = mask (verbosity os), st_use_sgls = (Opt_nosgl \<notin> set os),
       st_use_msis = (Opt_nomsi \<notin> set os), st_use_msixs = (Opt_nomsix \<notin> set os),
       st_trusted = registered env os, st_clients = scope_clients env (registered env pre) clients\<rparr>)"

section \<open>One scope\<close>

lemma last_or_simps [simp]: "last_or d [] = d" "last_or d (x # xs) = last_or x xs"
  by (simp_all add: last_or_def)

fun level_step :: "cmd_option \<Rightarrow> u32 \<Rightarrow> u32" where
  "level_step Opt_verbose l = push_bit 1 l + 1"
| "level_step Opt_quiet l = 0"
| "level_step _ l = l"

definition opts_after :: "arg_env \<Rightarrow> cmd_option list \<Rightarrow> client_opts \<Rightarrow> client_opts" where
  "opts_after env os co =
     co\<lparr>co_device := last_or (co_device co) (scope_device env os),
        co_ds_max := last_or (co_ds_max co) (scope_ds_max os),
        co_readonly := (co_readonly co \<or> Opt_readonly \<in> set os),
        co_dma_map_all := last_or (co_dma_map_all co) (scope_mapping os)\<rparr>"

definition after_scope :: "arg_env \<Rightarrow> cmd_option list \<Rightarrow> arg_state \<Rightarrow> arg_state" where
  "after_scope env os st =
     st\<lparr>st_debug_level := fold level_step os (st_debug_level st),
        st_use_sgls := (st_use_sgls st \<and> Opt_nosgl \<notin> set os),
        st_use_msis := (st_use_msis st \<and> Opt_nomsi \<notin> set os),
        st_use_msixs := (st_use_msixs st \<and> Opt_nomsix \<notin> set os),
        st_trusted := st_trusted st @ registered env os,
        ar_opts := opts_after env os (ar_opts st)\<rparr>"

lemmas scope_defs = scope_device_def scope_ds_max_def scope_mapping_def registered_def

lemma parse_scope:
  "list_all (\<lambda>x. \<not> is_client x) os \<Longrightarrow> parse_options env os st =
     (if list_all (option_ok env) os then Some (after_scope env os st) else None)"
proof (induction os arbitrary: st)
  case Nil
  show ?case by (simp add: after_scope_def opts_after_def scope_defs)
next
  case (Cons x os)
  then show ?case
    by (cases x) (auto simp: after_scope_def opts_after_def scope_defs Let_def split: sum.splits option.splits)
qed

lemma parse_options_append:
  "parse_options env (xs @ ys) st =
     (case parse_options env xs st of None \<Rightarrow> None | Some st1 \<Rightarrow> parse_options env ys st1)"
  by (induction xs arbitrary: st) (auto split: option.splits)

lemma mask_Suc_shift: "push_bit 1 (mask n) + 1 = (mask (Suc n) :: u32)"
  by (simp add: mask_eq_exp_minus_1 push_bit_eq_mult algebra_simps)

lemma fold_level: "fold level_step os 1 = mask (verbosity os)"
proof (induction os rule: rev_induct)
  case Nil
  show ?case by (simp add: verbosity_def)
next
  case (snoc x os)
  then show ?case
    by (cases x) (auto simp: verbosity_def mask_Suc_shift [symmetric] numeral_eq_Suc)
qed

section \<open>All scopes\<close>

lemma add_client_same:
  "add_client env st = Some st1 \<Longrightarrow>
     st_debug_level st1 = st_debug_level st \<and> st_use_sgls st1 = st_use_sgls st \<and>
     st_use_msis st1 = st_use_msis st \<and> st_use_msixs st1 = st_use_msixs st \<and>
     st_trusted st1 = st_trusted st"
  by (auto simp: add_client_def Let_def split: option.splits if_splits)

lemma add_client_scope:
  assumes "co = opts_after env os (client_opts_new\<lparr>co_capname := Some name\<rparr>)" and "list_all (option_ok env) os"
  shows "add_client env (st\<lparr>ar_opts := co\<rparr>) =
    (if scope_ok env (name, os) then
       Some (st\<lparr>ar_opts := co, st_clients := st_clients st @ [scope_client env (st_trusted st) (name, os)]\<rparr>)
     else None)"
  using assms by (auto simp: add_client_def scope_ok_def scope_client_def opts_after_def client_opts_new_def
      Let_def split: option.splits)

lemma parse_scopes:
  assumes "list_all (\<lambda>c. list_all (\<lambda>x. \<not> is_client x) (snd c)) clients"
  shows "map_option settings.truncate
      (case parse_options env (concat (map scope_options clients)) st of None \<Rightarrow> None | Some st1 \<Rightarrow> add_client env st1) =
    (case add_client env st of
       None \<Rightarrow> None
     | Some st1 \<Rightarrow>
         if list_all (scope_ok env) clients then
           Some (let os = concat (map scope_options clients) in
             \<lparr>st_debug_level = fold level_step os (st_debug_level st),
              st_use_sgls = (st_use_sgls st \<and> Opt_nosgl \<notin> set os),
              st_use_msis = (st_use_msis st \<and> Opt_nomsi \<notin> set os),
              st_use_msixs = (st_use_msixs st \<and> Opt_nomsix \<notin> set os),
              st_trusted = st_trusted st @ registered env os,
              st_clients = st_clients st1 @ scope_clients env (st_trusted st) clients\<rparr>)
         else None)"
  using assms
proof (induction clients arbitrary: st)
  case Nil
  then show ?case
    by (auto simp: settings.truncate_def registered_def dest!: add_client_same split: option.splits)
next
  case (Cons c cs)
  obtain name os where c: "c = (name, os)" by (cases c)
  show ?case
  proof (cases "add_client env st")
    case None
    then show ?thesis by (simp add: c scope_options_def)
  next
    case (Some st1)
    note same = add_client_same [OF Some]
    let ?co = "client_opts_new\<lparr>co_capname := Some name\<rparr>"
    let ?st2 = "after_scope env os (st1\<lparr>ar_opts := ?co\<rparr>)"
    have p: "parse_options env (concat (map scope_options (c # cs))) st =
      (if list_all (option_ok env) os then parse_options env (concat (map scope_options cs)) ?st2 else None)"
      using Some Cons.prems by (simp add: c scope_options_def parse_options_append parse_scope)
    show ?thesis
    proof (cases "list_all (option_ok env) os")
      case False
      then show ?thesis using p Some by (simp add: c scope_ok_def)
    next
      case True
      have s2: "?st2 = ?st2\<lparr>ar_opts := opts_after env os ?co\<rparr>" by (simp add: after_scope_def)
      have a: "add_client env ?st2 =
        (if scope_ok env c then Some (?st2\<lparr>st_clients := st_clients st1 @
           [scope_client env (st_trusted st1 @ registered env os) c]\<rparr>) else None)"
        by (subst s2, subst add_client_scope [OF refl True]) (simp add: c after_scope_def)
      have r: "registered env (Opt_client name # os @ xs) = registered env os @ registered env xs" for xs
        by (simp add: registered_def)
      have os: "concat (map scope_options (c # cs)) = Opt_client name # os @ concat (map scope_options cs)"
        by (simp add: c scope_options_def)
      have f: "st_debug_level ?st2 = fold level_step os (st_debug_level st)"
        "st_use_sgls ?st2 = (st_use_sgls st \<and> Opt_nosgl \<notin> set os)"
        "st_use_msis ?st2 = (st_use_msis st \<and> Opt_nomsi \<notin> set os)"
        "st_use_msixs ?st2 = (st_use_msixs st \<and> Opt_nomsix \<notin> set os)"
        "st_trusted ?st2 = st_trusted st @ registered env os"
        using same by (simp_all add: after_scope_def)
      have snd_c: "snd c = os" by (simp add: c)
      have "list_all (\<lambda>c. list_all (\<lambda>x. \<not> is_client x) (snd c)) cs" using Cons.prems by simp
      note ih = Cons.IH [OF this, of ?st2]
      show ?thesis
        unfolding p if_P [OF True]
        unfolding ih
        unfolding a Some os Let_def f
        using same by (simp add: r snd_c Let_def conj_assoc)
    qed
  qed
qed

section \<open>The whole command line\<close>

lemma registered_append [simp]: "registered env (xs @ ys) = registered env xs @ registered env ys"
  by (simp add: registered_def)

lemma registered_Nil [simp]: "registered env [] = []"
  by (simp add: registered_def)

lemma parse_args_documented:
  assumes pre: "list_all (\<lambda>x. \<not> is_client x) pre"
    and scopes: "list_all (\<lambda>c. list_all (\<lambda>x. \<not> is_client x) (snd c)) clients"
  shows "parse_args env (pre @ concat (map scope_options clients)) operands =
    (if operands = [] \<and> list_all (option_ok env) pre \<and> list_all (scope_ok env) clients
     then Some (documented_settings env pre clients) else None)"
proof (cases "list_all (option_ok env) pre")
  case False
  then show ?thesis by (simp add: parse_args_def parse_options_append parse_scope [OF pre])
next
  case True
  let ?st = "after_scope env pre arg_state_new"
  have a: "add_client env ?st = Some ?st"
    by (simp add: add_client_def after_scope_def opts_after_def arg_state_new_def client_opts_new_def)
  have p: "parse_options env (pre @ concat (map scope_options clients)) arg_state_new =
      parse_options env (concat (map scope_options clients)) ?st"
    using True by (simp add: parse_options_append parse_scope [OF pre])
  have new: "st_debug_level arg_state_new = 1" "st_use_sgls arg_state_new" "st_use_msis arg_state_new"
    "st_use_msixs arg_state_new" "st_trusted arg_state_new = []" "st_clients arg_state_new = []"
    by (simp_all add: arg_state_new_def)
  have "map_option settings.truncate
      (case parse_options env (pre @ concat (map scope_options clients)) arg_state_new of None \<Rightarrow> None
       | Some st1 \<Rightarrow> add_client env st1) =
    (if list_all (scope_ok env) clients then Some (documented_settings env pre clients) else None)"
    unfolding p unfolding parse_scopes [OF scopes] a documented_settings_def fold_level [symmetric] Let_def
    by (simp add: after_scope_def new)
  then show ?thesis using True by (auto simp: parse_args_def split: option.splits)
qed

lemma scope_clients_append:
  "scope_clients env ds (xs @ ys) =
     scope_clients env ds xs @ scope_clients env (ds @ registered env (concat (map snd xs))) ys"
  by (induction xs arbitrary: ds) (simp_all add: Let_def)

lemma length_scope_clients [simp]: "length (scope_clients env ds cs) = length cs"
  by (induction cs arbitrary: ds) (simp_all add: Let_def)

lemma registered_empty: "(\<And>name. Opt_register_ds name \<notin> set os) \<Longrightarrow> registered env os = []"
proof (induction os)
  case (Cons x os)
  have "registered env os = []" using Cons by simp
  moreover have "registered env [x] = []" using Cons.prems by (cases x) (auto simp: registered_def)
  ultimately show ?case using registered_append [of env "[x]" os] by simp
qed (simp add: registered_def)

lemma registered_mem:
  assumes "Opt_register_ds name \<in> set os" and "list_all (option_ok env) os"
  obtains ds where "ae_dataspace env name = Some ds" and "ds \<in> set (registered env os)"
proof -
  obtain xs ys where os: "os = xs @ Opt_register_ds name # ys" using split_list [OF assms(1)] by blast
  obtain ds where "ae_dataspace env name = Some ds" using assms(2) by (auto simp: os)
  then show ?thesis by (intro that [of ds]) (simp_all add: os registered_def)
qed

lemma not_validated:
  "ds = [] \<Longrightarrow> registered env (concat (map snd cs)) = [] \<Longrightarrow>
     \<forall>c \<in> set (scope_clients env ds cs). \<not> sc_validate c"
  by (induction cs arbitrary: ds) (auto simp: Let_def scope_client_def split: prod.splits)

text \<open>
  C24: For every command line, written as the options in front of the first \<^verbatim>\<open>--client\<close> and the scopes
  that the \<^verbatim>\<open>--client\<close> options open: it is accepted exactly if no operand is left, every option has a
  valid argument and every client has a capability and a device. Then each scope has become one
  static client, in order, with the last values of its own scope and the defaults for the rest (an
  option outside its scope does not reach it); the hardware features are on unless switched off
  anywhere, and the debug level has one bit per \<^verbatim>\<open>-v\<close> behind the last \<^verbatim>\<open>-q\<close>.
\<close>

theorem parse_args_scopes:
  assumes "list_all (\<lambda>x. \<not> is_client x) pre"
    and "list_all (\<lambda>c. list_all (\<lambda>x. \<not> is_client x) (snd c)) clients"
  shows "parse_args env (pre @ concat (map scope_options clients)) operands =
    (if operands = [] \<and> list_all (option_ok env) pre \<and> list_all (scope_ok env) clients
     then Some (documented_settings env pre clients) else None)"
  using assms by (rule parse_args_documented)

lemma validated:
  "ds \<noteq> [] \<Longrightarrow> \<forall>c \<in> set (scope_clients env ds cs). sc_validate c"
  by (induction cs arbitrary: ds) (auto simp: Let_def scope_client_def split: prod.splits)

text \<open>
  C39: The first \<^verbatim>\<open>--register-ds\<close> of a command line is too late for the clients before it. Take an
  accepted command line with none in front of the first \<^verbatim>\<open>--client\<close> or in the first scopes, and one
  in the scope that follows them. The dataspace it names is on the list of the trusted ones, and yet
  every client whose scope was complete before is created without validation, so that it may use any
  dataspace; exactly the clients from the scope of the option on are validated.
\<close>

theorem register_ds_too_late:
  assumes "list_all (\<lambda>x. \<not> is_client x) pre"
    and "list_all (\<lambda>c. list_all (\<lambda>x. \<not> is_client x) (snd c)) (early @ first # late)"
    and "\<forall>name. Opt_register_ds name \<notin> set (pre @ concat (map snd early))"
    and "Opt_register_ds name \<in> set (snd first)"
    and "parse_args env (pre @ concat (map scope_options (early @ first # late))) [] = Some se"
  shows "(\<exists>ds. ae_dataspace env name = Some ds \<and> ds \<in> set (st_trusted se)) \<and>
    length (st_clients se) = length (early @ first # late) \<and>
    (\<forall>c \<in> set (take (length early) (st_clients se)). \<not> sc_validate c) \<and>
    (\<forall>c \<in> set (drop (length early) (st_clients se)). sc_validate c)"
proof -
  have ok: "list_all (option_ok env) pre" "list_all (scope_ok env) (early @ first # late)"
    and se: "se = documented_settings env pre (early @ first # late)"
    using assms(5) parse_args_documented [OF assms(1,2), of env "[]"] by (auto split: if_splits)
  have "list_all (option_ok env) (snd first)" using ok(2) by (cases first) (simp add: scope_ok_def)
  then obtain ds where ds: "ae_dataspace env name = Some ds" "ds \<in> set (registered env (snd first))"
    by (rule registered_mem [OF assms(4)])
  then have t: "ds \<in> set (st_trusted se)"
    by (cases first) (auto simp: se documented_settings_def scope_options_def registered_def Let_def)
  have r: "registered env pre = []" "registered env (concat (map snd early)) = []"
    using assms(3) by (auto intro!: registered_empty)
  have "registered env (snd first) \<noteq> []" using ds(2) by auto
  from validated [OF this, of env late] this
  have "\<forall>c \<in> set (scope_clients env [] (first # late)). sc_validate c"
    by (simp add: Let_def scope_client_def split: prod.splits)
  then show ?thesis
    using t ds(1) not_validated [OF refl r(2)]
    by (simp add: se documented_settings_def Let_def r scope_clients_append)
qed

definition arg_env_example :: arg_env where
  "arg_env_example =
     \<lparr>ae_device_name = Inr, ae_endpoint = (\<lambda>name. if name = ''c1'' then Some 1 else if name = ''c2'' then Some 2 else None),
      ae_dataspace = (\<lambda>name. if name = ''ds'' then Some 7 else None)\<rparr>"

theorem parse_args_scopes_witness:
  "parse_args arg_env_example
     [Opt_verbose, Opt_client ''c1'', Opt_device ''a'', Opt_readonly, Opt_nosgl,
      Opt_client ''c2'', Opt_device ''b'', Opt_ds_max ''8'', Opt_register_ds ''ds''] [] =
   Some \<lparr>st_debug_level = 3, st_use_sgls = False, st_use_msis = True, st_use_msixs = True, st_trusted = [7],
     st_clients =
      [\<lparr>sc_cap = 1, sc_params = \<lparr>cr_device = ''a'', cr_num_ds = 2, cr_readonly = True, cr_map_all = True\<rparr>,
        sc_validate = False\<rparr>,
       \<lparr>sc_cap = 2, sc_params = \<lparr>cr_device = ''b'', cr_num_ds = 8, cr_readonly = False, cr_map_all = True\<rparr>,
        sc_validate = True\<rparr>]\<rparr>"
proof -
  let ?clients = "[(''c1'', [Opt_device ''a'', Opt_readonly, Opt_nosgl]),
    (''c2'', [Opt_device ''b'', Opt_ds_max ''8'', Opt_register_ds ''ds''])]"
  have n: "atoi ''8'' = 8" by code_simp
  have "parse_args arg_env_example ([Opt_verbose] @ concat (map scope_options ?clients)) [] =
    (if [] = ([] :: string list) \<and> list_all (option_ok arg_env_example) [Opt_verbose] \<and>
        list_all (scope_ok arg_env_example) ?clients
     then Some (documented_settings arg_env_example [Opt_verbose] ?clients) else None)"
    by (rule parse_args_scopes) simp_all
  moreover have "list_all (scope_ok arg_env_example) ?clients"
    by (simp add: n scope_ok_def arg_env_example_def scope_device_def)
  moreover have "documented_settings arg_env_example [Opt_verbose] ?clients =
    \<lparr>st_debug_level = 3, st_use_sgls = False, st_use_msis = True, st_use_msixs = True, st_trusted = [7],
     st_clients =
      [\<lparr>sc_cap = 1, sc_params = \<lparr>cr_device = ''a'', cr_num_ds = 2, cr_readonly = True, cr_map_all = True\<rparr>,
        sc_validate = False\<rparr>,
       \<lparr>sc_cap = 2, sc_params = \<lparr>cr_device = ''b'', cr_num_ds = 8, cr_readonly = False, cr_map_all = True\<rparr>,
        sc_validate = True\<rparr>]\<rparr>"
    by (simp add: documented_settings_def Let_def scope_options_def n scope_defs arg_env_example_def
        scope_client_def verbosity_def c_str_def Nul_def mask_eq_exp_minus_1)
  ultimately show ?thesis by (simp add: scope_options_def)
qed

theorem register_ds_too_late_witness:
  "\<exists>se. parse_args arg_env_example
      [Opt_client ''c1'', Opt_device ''a'', Opt_client ''c2'', Opt_device ''b'', Opt_register_ds ''ds''] [] = Some se \<and>
    7 \<in> set (st_trusted se) \<and> length (st_clients se) = 2 \<and>
    (\<forall>c \<in> set (take 1 (st_clients se)). \<not> sc_validate c) \<and>
    (\<forall>c \<in> set (drop 1 (st_clients se)). sc_validate c)"
proof -
  let ?early = "[(''c1'', [Opt_device ''a''])]"
  let ?first = "(''c2'', [Opt_device ''b'', Opt_register_ds ''ds''])"
  obtain se where se: "parse_args arg_env_example ([] @ concat (map scope_options (?early @ ?first # []))) [] = Some se"
    by (simp add: parse_args_def scope_options_def add_client_def arg_env_example_def arg_state_new_def
        client_opts_new_def Let_def)
  have "(\<exists>ds. ae_dataspace arg_env_example ''ds'' = Some ds \<and> ds \<in> set (st_trusted se)) \<and>
    length (st_clients se) = length (?early @ ?first # []) \<and>
    (\<forall>c \<in> set (take (length ?early) (st_clients se)). \<not> sc_validate c) \<and>
    (\<forall>c \<in> set (drop (length ?early) (st_clients se)). sc_validate c)"
    by (rule register_ds_too_late [OF _ _ _ _ se]) simp_all
  then show ?thesis using se by (simp add: scope_options_def arg_env_example_def)
qed

section \<open>Debug levels\<close>

text \<open>
  The levels of \<^verbatim>\<open>debug.h\<close>. The debug level that the command line sets is a set of such bits; a
  level is selected if its bit is in the set.
\<close>

datatype dbg_level = Dbg_warn | Dbg_info | Dbg_trace | Dbg_steptrace

fun dbg_level_code :: "dbg_level \<Rightarrow> u32" where
  "dbg_level_code Dbg_warn = 1"
| "dbg_level_code Dbg_info = 2"
| "dbg_level_code Dbg_trace = 4"
| "dbg_level_code Dbg_steptrace = 8"

definition level_selected :: "u32 \<Rightarrow> dbg_level \<Rightarrow> bool" where
  "level_selected l d \<longleftrightarrow> l AND dbg_level_code d \<noteq> 0"

text \<open>Warnings are on by default, each further \<^verbatim>\<open>-v\<close> adds one level, \<^verbatim>\<open>-q\<close> turns all off.\<close>

lemma verbosity_selects:
  "level_selected (mask n) Dbg_warn \<longleftrightarrow> 0 < n" "level_selected (mask n) Dbg_info \<longleftrightarrow> 1 < n"
  "level_selected (mask n) Dbg_trace \<longleftrightarrow> 2 < n" "level_selected (mask n) Dbg_steptrace \<longleftrightarrow> 3 < n"
proof -
  have b: "mask n AND push_bit k 1 \<noteq> (0 :: u32) \<longleftrightarrow> k < n" if "k < 32" for k
  proof -
    have "mask n AND push_bit k 1 = (if k < n then push_bit k (1 :: u32) else 0)"
      by (rule bit_eqI) (auto simp: bit_simps)
    moreover have "push_bit k (1 :: u32) \<noteq> 0" using that by (simp flip: exp_eq_0_imp_not_bit)
    ultimately show ?thesis by simp
  qed
  show "level_selected (mask n) Dbg_warn \<longleftrightarrow> 0 < n" "level_selected (mask n) Dbg_info \<longleftrightarrow> 1 < n"
    "level_selected (mask n) Dbg_trace \<longleftrightarrow> 2 < n" "level_selected (mask n) Dbg_steptrace \<longleftrightarrow> 3 < n"
    using b [of 0] b [of 1] b [of 2] b [of 3] by (simp_all add: level_selected_def numeral_eq_Suc)
qed

end
