(* ===== verification/Startup.thy ===== *)
theory Startup
  imports Discovery_Laws Options
begin

text \<open>
  The start of the program in \<^verbatim>\<open>server/src/main.cc\<close>: the construction of the device manager, \<^verbatim>\<open>main\<close>
  and \<^verbatim>\<open>setup_hardware\<close>, which put the command line, the ICU and the discovery together.
\<close>

section \<open>The program\<close>

text \<open>
  The answers of the surroundings: the interrupt for deletion notifications and its registration at
  the main thread, the virtual bus, the ICU on it, its capability, and what the ICU says of itself;
  last whether the inhibitor for power management could be set up.
\<close>

record startup_env =
  su_del_irq :: "unit l4_ret"
  su_del_register :: "unit l4_ret"
  su_vbus :: "unit l4_ret"
  su_icu_dev :: "unit l4_ret"
  su_icu_cap :: "unit l4_ret"
  su_vicu :: "unit l4_ret"
  su_icu_info :: "(u32 \<times> u32 \<times> u32) l4_ret"
  su_pm_init :: bool

text \<open>The constructor of \<^verbatim>\<open>Blk_mgr\<close>, which runs before \<^verbatim>\<open>main\<close>.\<close>

definition blk_mgr_new :: "startup_env \<Rightarrow> unit drv_result" where
  "blk_mgr_new su = bind_res (chksys (su_del_irq su)) (\<lambda>_. chksys (su_del_register su))"

definition setup_hardware ::
  "startup_env \<Rightarrow> child list \<Rightarrow> nat list \<Rightarrow> (bool \<times> 'io discovery) drv_result" where
  "setup_hardware su chs trusted =
     bind_res (chksys (su_vbus su)) (\<lambda>_.
     bind_res (chksys (su_icu_dev su)) (\<lambda>_.
     bind_res (chksys (su_icu_cap su)) (\<lambda>_.
     bind_res (chksys (su_vicu su)) (\<lambda>_.
     bind_res (icu_new (su_icu_info su)) (\<lambda>ic.
       device_discovery chs (discovery_new ic trusted))))))"

text \<open>
  The switches of the command line are static members of \<^verbatim>\<open>Ctl\<close>, which the constructor of a
  controller reads.
\<close>

definition with_settings :: "'a settings_scheme \<Rightarrow> child \<Rightarrow> child" where
  "with_settings se ch =
     ch\<lparr>ch_ctl := (ch_ctl ch)\<lparr>env_use_sgls := st_use_sgls se, env_use_msis := st_use_msis se,
        env_use_msixs := st_use_msixs se\<rparr>\<rparr>"

text \<open>
  \<^verbatim>\<open>main\<close> either returns \<^verbatim>\<open>EXIT_FAILURE\<close> or enters the server loop: with its settings, whether the power
  management object was registered, whether the service was, and the state of the discovery. An
  uncaught exception ends the program; it is an error of the result.
\<close>

record 'io server =
  svr_settings :: settings
  svr_pm_registered :: bool
  svr_registered :: bool
  svr_state :: "'io discovery"

datatype 'io outcome = Exit_failure | Serving "'io server"

definition driver_main ::
  "startup_env \<Rightarrow> arg_env \<Rightarrow> cmd_option list \<Rightarrow> string list \<Rightarrow> child list \<Rightarrow>
   'io outcome drv_result" where
  "driver_main su ae options operands chs =
     bind_res (blk_mgr_new su) (\<lambda>_.
       case parse_args ae options operands of
         None \<Rightarrow> Inr Exit_failure
       | Some se \<Rightarrow>
           bind_res (setup_hardware su (map (with_settings se) chs) (st_trusted se)) (\<lambda>(reg, st).
             Inr (Serving \<lparr>svr_settings = se, svr_pm_registered = (\<not> su_pm_init su),
               svr_registered = reg, svr_state = st\<rparr>)))"

section \<open>The command line\<close>

lemma add_client_flags:
  "add_client env st = Some st1 \<Longrightarrow> st_use_sgls st1 = st_use_sgls st \<and> st_use_msis st1 = st_use_msis st \<and>
    st_use_msixs st1 = st_use_msixs st \<and> st_trusted st1 = st_trusted st"
  by (auto simp: add_client_def Let_def split: option.splits if_splits)

lemma parse_option_flags:
  "parse_option env o1 st = Some st1 \<Longrightarrow>
    st_use_sgls st1 = (st_use_sgls st \<and> o1 \<noteq> Opt_nosgl) \<and> st_use_msis st1 = (st_use_msis st \<and> o1 \<noteq> Opt_nomsi) \<and>
    st_use_msixs st1 = (st_use_msixs st \<and> o1 \<noteq> Opt_nomsix) \<and>
    st_trusted st1 = st_trusted st @ registered env [o1]"
  by (cases o1)
    (auto simp: registered_def Let_def split: option.splits sum.splits if_splits dest!: add_client_flags)

lemma registered_Cons: "registered env (o1 # os) = registered env [o1] @ registered env os"
  by (simp add: registered_def)

lemma parse_options_flags:
  "parse_options env os st = Some st1 \<Longrightarrow>
    st_use_sgls st1 = (st_use_sgls st \<and> Opt_nosgl \<notin> set os) \<and>
    st_use_msis st1 = (st_use_msis st \<and> Opt_nomsi \<notin> set os) \<and>
    st_use_msixs st1 = (st_use_msixs st \<and> Opt_nomsix \<notin> set os) \<and>
    st_trusted st1 = st_trusted st @ registered env os"
proof (induction os arbitrary: st)
  case Nil
  then show ?case by (simp add: registered_def)
next
  case (Cons o1 os)
  then obtain st2 where "parse_option env o1 st = Some st2" "parse_options env os st2 = Some st1"
    by (auto split: option.splits)
  with Cons.IH parse_option_flags show ?case by (fastforce simp: registered_Cons [of env o1 os])
qed

lemma parse_args_flags:
  assumes "parse_args env os operands = Some se"
  shows "st_use_sgls se = (Opt_nosgl \<notin> set os)" and "st_use_msis se = (Opt_nomsi \<notin> set os)"
    and "st_use_msixs se = (Opt_nomsix \<notin> set os)" and "st_trusted se = registered env os"
proof -
  obtain st st1 where p: "parse_options env os arg_state_new = Some st" "add_client env st = Some st1"
    "se = settings.truncate st1"
    using assms by (auto simp: parse_args_def split: option.splits if_splits)
  note f = parse_options_flags [OF p(1)] add_client_flags [OF p(2)]
  then show "st_use_sgls se = (Opt_nosgl \<notin> set os)" and "st_use_msis se = (Opt_nomsi \<notin> set os)"
    and "st_use_msixs se = (Opt_nomsix \<notin> set os)" and "st_trusted se = registered env os"
    by (simp_all add: p(3) settings.defs arg_state_new_def)
qed

section \<open>The switches reach every controller\<close>

definition has_settings :: "'a settings_scheme \<Rightarrow> 'b ctl_base_scheme \<Rightarrow> bool" where
  "has_settings se c \<longleftrightarrow>
     use_sgls c = st_use_sgls se \<and> use_msis c = st_use_msis se \<and> use_msixs c = st_use_msixs se"

definition no_msi :: "'a settings_scheme \<Rightarrow> bool" where
  "no_msi se \<longleftrightarrow> \<not> st_use_msis se \<and> \<not> st_use_msixs se"

lemma no_msi_disabled: "no_msi se \<Longrightarrow> has_settings se c \<Longrightarrow> \<not> msis_enabled i c"
  by (simp add: no_msi_def has_settings_def msis_enabled_def)

lemma ctl_enable_msi_settings:
  "ctl_enable_msi env irq info c = Inr (evs, c1) \<Longrightarrow> has_settings se c1 = has_settings se c"
  by (auto simp: ctl_enable_msi_def bind_res_Inr_iff has_settings_def split: if_splits)

lemma has_settings_trigger [simp]: "has_settings se (c\<lparr>ctl_irq_trigger := t\<rparr>) = has_settings se c"
  by (simp add: has_settings_def)

lemma ctl_new_settings: "ctl_new (ch_ctl (with_settings se ch)) i = Inr (c, ws, h) \<Longrightarrow> has_settings se c"
  by (auto simp: ctl_new_def with_settings_def bind_res_Inr_iff has_settings_def mmio_read_def Let_def
      split: if_splits)

lemma register_interrupt_handler_settings:
  assumes "register_interrupt_handler env i c = Inr (evs, i1, c1)" and "has_settings se c"
  shows "has_settings se c1" and "no_msi se \<Longrightarrow> i1 = i"
proof -
  have "has_settings se c1 \<and> (\<not> msis_enabled i c \<longrightarrow> i1 = i)"
    using assms
    by (auto simp: register_interrupt_handler_def bind_res_Inr_iff Let_def ctl_enable_msi_settings
        split: if_splits option.splits sum.splits)
  with no_msi_disabled [OF _ assms(2)] show "has_settings se c1" and "no_msi se \<Longrightarrow> i1 = i" by auto
qed

lemma identify_settings:
  "identify env st = Inr (evs, d) \<Longrightarrow>
    has_settings se (dr_ctl d) = has_settings se (dr_ctl st) \<and> dr_icu d = dr_icu st"
  by (auto simp: identify_def bind_res_Inr_iff has_settings_def Let_def split: option.splits)

lemma new_controller_settings:
  assumes "new_controller (with_settings se ch) i spaces ic = Inr (spaces1, ic1, r)"
  shows "(\<forall>dma c. r = Some (dma, c) \<longrightarrow> has_settings se c) \<and> (no_msi se \<longrightarrow> ic1 = ic)"
proof (rule new_controller_cases [OF assms])
  fix c :: "admin_cb ctl" and ws h
  assume "r = None" and c: "ctl_new (ch_ctl (with_settings se ch)) ic = Inr (c, ws, h)"
    and ic1: "ic1 = icu_after_failure (ch_irq (with_settings se ch)) c ic"
  then show ?thesis
    using no_msi_disabled [OF _ ctl_new_settings [OF c], of ic]
    by (auto simp: icu_after_failure_def split: sum.splits)
next
  fix dma ws h evs and c c1 :: "admin_cb ctl"
  assume r: "r = Some (dma, c1)" and c: "ctl_new (ch_ctl (with_settings se ch)) ic = Inr (c, ws, h)"
    and h: "register_interrupt_handler (ch_irq (with_settings se ch)) ic c = Inr (evs, ic1, c1)"
  from register_interrupt_handler_settings [OF h ctl_new_settings [OF c]] r show ?thesis by simp
qed simp

definition settings_kept :: "'a settings_scheme \<Rightarrow> 'io discovery \<Rightarrow> 'io discovery \<Rightarrow> bool" where
  "settings_kept se st st' \<longleftrightarrow>
     (\<forall>(dma, d) \<in> set (dc_ctls st'). (dma, d) \<in> set (dc_ctls st) \<or> has_settings se (dr_ctl d)) \<and>
     (no_msi se \<longrightarrow> dc_icu st' = dc_icu st)"

lemma scan_child_settings:
  assumes "scan_child (with_settings se ch) st = Inr st'"
  shows "settings_kept se st st'"
proof (cases "is_nvme_ctl (ch_is_pci (with_settings se ch)) (env_cfg (ch_ctl (with_settings se ch))) = Inr False")
  case True
  then show ?thesis using assms by (auto simp: scan_child_def settings_kept_def)
next
  case False
  with assms obtain i spaces ic r where
    n: "new_controller (with_settings se ch) i (dc_spaces st) (dc_icu st) = Inr (spaces, ic, r)"
    and s: "(case r of None \<Rightarrow> Inr (st\<lparr>dc_spaces := spaces, dc_icu := ic\<rparr>)
       | Some (dma, c) \<Rightarrow>
         bind_res (identify (ch_step (with_settings se ch)) (driver_of ic c)) (\<lambda>(_, d).
           Inr (st\<lparr>dc_spaces := spaces, dc_in_scan := dc_in_scan st + 1, dc_icu := dr_icu d,
             dc_ctls := dc_ctls st @ [(dma, d)]\<rparr>))) = Inr st'"
    by (auto simp: scan_child_def bind_res_Inr_iff Let_def split: if_splits)
  have nc: "\<And>dma c. r = Some (dma, c) \<Longrightarrow> has_settings se c" "no_msi se \<Longrightarrow> ic = dc_icu st"
    using new_controller_settings [OF n] by simp_all
  show ?thesis
  proof (cases r)
    case None
    with s nc(2) show ?thesis by (auto simp: settings_kept_def)
  next
    case (Some dc)
    then obtain dma c where r: "r = Some (dma, c)" by (cases dc) simp
    with s obtain evs d where d: "identify (ch_step (with_settings se ch)) (driver_of ic c) = Inr (evs, d)"
      "st' = st\<lparr>dc_spaces := spaces, dc_in_scan := dc_in_scan st + 1, dc_icu := dr_icu d,
        dc_ctls := dc_ctls st @ [(dma, d)]\<rparr>"
      by (auto simp: bind_res_Inr_iff)
    have "has_settings se (dr_ctl d)" "dr_icu d = ic"
      using identify_settings [OF d(1), of se] nc(1) r by (simp_all add: driver_of_def)
    with d(2) nc(2) show ?thesis by (auto simp: settings_kept_def)
  qed
qed

lemma scan_children_settings:
  "scan_children (map (with_settings se) chs) st = Inr st' \<Longrightarrow> settings_kept se st st'"
proof (induction chs arbitrary: st)
  case Nil
  then show ?case by (auto simp: settings_kept_def)
next
  case (Cons ch chs)
  then obtain st1 where s: "scan_child (with_settings se ch) st = Inr st1"
    "scan_children (map (with_settings se) chs) st1 = Inr st'"
    by (auto simp: bind_res_Inr_iff)
  from scan_child_settings [OF s(1)] Cons.IH [OF s(2)] show ?case
    unfolding settings_kept_def by fastforce
qed

lemma device_discovery_settings:
  assumes "device_discovery (map (with_settings se) chs) (discovery_new ic trusted) = Inr (reg, st)"
  shows "\<forall>(dma, d) \<in> set (dc_ctls st). has_settings se (dr_ctl d)" and "no_msi se \<Longrightarrow> dc_icu st = ic"
proof -
  obtain st1 where s: "scan_children (map (with_settings se) chs)
      ((discovery_new ic trusted)\<lparr>dc_in_scan := 1\<rparr>) = Inr st1" and e: "(reg, st) = device_scan_finished st1"
    using assms by (auto simp: device_discovery_def bind_res_Inr_iff discovery_new_def)
  have "dc_ctls st = dc_ctls st1" "dc_icu st = dc_icu st1"
    using e by (auto simp: device_scan_finished_def Let_def split: if_splits)
  with scan_children_settings [OF s]
  show "\<forall>(dma, d) \<in> set (dc_ctls st). has_settings se (dr_ctl d)" and "no_msi se \<Longrightarrow> dc_icu st = ic"
    by (auto simp: settings_kept_def discovery_new_def)
qed

lemma driver_main_Serving:
  assumes "driver_main su ae os operands chs = Inr (Serving sv)"
  obtains ic where "parse_args ae os operands = Some (svr_settings sv)"
    and "icu_new (su_icu_info su) = Inr ic"
    and "device_discovery (map (with_settings (svr_settings sv)) chs)
      (discovery_new ic (st_trusted (svr_settings sv))) = Inr (svr_registered sv, svr_state sv)"
  using assms
  by (auto simp: driver_main_def setup_hardware_def bind_res_Inr_iff split: option.splits)

section \<open>Properties of the start\<close>

text \<open>
  C25: Once the program serves, the command line is in force in the service and in every controller:
  the list of trusted dataspaces that the service keeps for the clients it creates on request is
  exactly that of the dataspaces named with \<^verbatim>\<open>--register-ds\<close> (which says nothing of the clients that
  the command line itself names: see \<^verbatim>\<open>register_ds_too_late\<close>); with \<^verbatim>\<open>--nosgl\<close> no controller uses SGLs, so each
  request is one segment; with \<^verbatim>\<open>--nomsi\<close> and \<^verbatim>\<open>--nomsix\<close> no controller has message signalled
  interrupts enabled and the ICU has not given out a single vector.
\<close>

theorem main_obeys_command_line:
  assumes "driver_main su ae os operands chs = Inr (Serving sv)" and "length chs < 2 ^ 32 - 1"
  shows "sv_trusted (dc_service (svr_state sv)) = registered ae os \<and>
    (\<forall>(dma, d) \<in> set (dc_ctls (svr_state sv)).
       (use_sgls (dr_ctl d) \<longleftrightarrow> Opt_nosgl \<notin> set os) \<and> (use_msis (dr_ctl d) \<longleftrightarrow> Opt_nomsi \<notin> set os) \<and>
       (use_msixs (dr_ctl d) \<longleftrightarrow> Opt_nomsix \<notin> set os) \<and>
       (Opt_nosgl \<in> set os \<longrightarrow> max_segments (dr_ctl d) = 1) \<and>
       (Opt_nomsi \<in> set os \<and> Opt_nomsix \<in> set os \<longrightarrow> \<not> msis_enabled (dc_icu (svr_state sv)) (dr_ctl d))) \<and>
    (Opt_nomsi \<in> set os \<and> Opt_nomsix \<in> set os \<longrightarrow> icu_allocated (dc_icu (svr_state sv)) = {})"
proof -
  obtain ic where m: "parse_args ae os operands = Some (svr_settings sv)"
    "icu_new (su_icu_info su) = Inr ic"
    "device_discovery (map (with_settings (svr_settings sv)) chs)
      (discovery_new ic (st_trusted (svr_settings sv))) = Inr (svr_registered sv, svr_state sv)"
    by (rule driver_main_Serving [OF assms(1)])
  note f = parse_args_flags [OF m(1)] and dd = device_discovery_settings [OF m(3)]
  have "length (map (with_settings (svr_settings sv)) chs) < 2 ^ 32 - 1" using assms(2) by simp
  from device_discovery_Inr(6) [OF m(3) this, of False]
  have "sv_trusted (dc_service (svr_state sv)) = registered ae os" using f(4) by simp
  moreover have "icu_allocated (dc_icu (svr_state sv)) = {}" if "Opt_nomsi \<in> set os" "Opt_nomsix \<in> set os"
    using that dd(2) icu_new_fields(2) [OF m(2)] f by (simp add: no_msi_def)
  moreover have "(use_sgls (dr_ctl d) \<longleftrightarrow> Opt_nosgl \<notin> set os) \<and> (use_msis (dr_ctl d) \<longleftrightarrow> Opt_nomsi \<notin> set os) \<and>
       (use_msixs (dr_ctl d) \<longleftrightarrow> Opt_nomsix \<notin> set os)"
    if "(dma, d) \<in> set (dc_ctls (svr_state sv))" for dma d
    using dd(1) that f by (auto simp: has_settings_def)
  ultimately show ?thesis
    by (auto simp: max_segments_def supports_sgl_def msis_enabled_def)
qed

section \<open>A concrete start\<close>

definition ex_startup :: startup_env where
  "ex_startup = \<lparr>su_del_irq = Inr (), su_del_register = Inr (), su_vbus = Inr (), su_icu_dev = Inr (),
     su_icu_cap = Inr (), su_vicu = Inr (), su_icu_info = Inr (0, 0, 0), su_pm_init = True\<rparr>"

text \<open>A bus without an NVMe controller, and a command line with switches and a dataspace.\<close>

lemma ex_scan: "scan_child (with_settings se (ex_child False)) st = Inr st"
  by (simp add: scan_child_def with_settings_def ex_child_def is_nvme_ctl_def)

lemma ex_main:
  obtains sv :: "nat server" where
    "driver_main ex_startup arg_env_example [Opt_nosgl, Opt_nomsi, Opt_nomsix, Opt_register_ds ''ds''] []
      [ex_child False] = Inr (Serving sv)"
proof -
  obtain ic where ic: "icu_new (su_icu_info ex_startup) = Inr ic"
    by (simp add: ex_startup_def icu_new_def set_msi_limit_def msi_bitmap_new_def)
  obtain se where se: "parse_args arg_env_example [Opt_nosgl, Opt_nomsi, Opt_nomsix, Opt_register_ds ''ds''] [] =
      Some se"
    by (simp add: parse_args_def arg_state_new_def arg_env_example_def add_client_def client_opts_new_def Let_def)
  obtain reg and st :: "nat discovery" where
    "device_discovery [with_settings se (ex_child False)] (discovery_new ic (st_trusted se)) = Inr (reg, st)"
    by (cases "device_scan_finished ((discovery_new ic (st_trusted se) :: nat discovery)\<lparr>dc_in_scan := 1\<rparr>)")
      (simp add: device_discovery_def ex_scan discovery_new_def)
  with ic se show ?thesis
    using that by (simp add: driver_main_def blk_mgr_new_def setup_hardware_def ex_startup_def)
qed

theorem main_obeys_command_line_witness:
  "\<exists>sv :: nat server.
    driver_main ex_startup arg_env_example [Opt_nosgl, Opt_nomsi, Opt_nomsix, Opt_register_ds ''ds''] []
      [ex_child False] = Inr (Serving sv) \<and>
    sv_trusted (dc_service (svr_state sv)) = [7] \<and> icu_allocated (dc_icu (svr_state sv)) = {}"
proof (rule ex_main)
  fix sv :: "nat server"
  assume m: "driver_main ex_startup arg_env_example [Opt_nosgl, Opt_nomsi, Opt_nomsix, Opt_register_ds ''ds''] []
      [ex_child False] = Inr (Serving sv)"
  from main_obeys_command_line [OF m] m show ?thesis
    by (intro exI [of _ sv]) (simp add: registered_def arg_env_example_def)
qed

end
