(* ===== verification/Prp_List.thy ===== *)
theory Prp_List
  imports Block_Dev
begin

text \<open>
  The PRP list that \<^verbatim>\<open>Nvme_device::inout_data\<close> builds, against the controller's reading of it. The
  reading is the one of the NVMe specification: the first entry covers its page from its offset
  on, the second is the second page or the address of a list of page addresses, and the last
  entry of a list page links to the next list page when more than one page is still to come.
\<close>

section \<open>The controller's view\<close>

text \<open>A piece of memory is an address and a length; \<open>covered\<close> lists its bytes in order.\<close>

type_synonym chunk = "nat \<times> nat"

definition covered :: "chunk list \<Rightarrow> nat list" where
  "covered cs = concat (map (\<lambda>(a, l). [a..<a + l]) cs)"

lemma covered_simps [simp]:
  "covered [] = []" "covered ((a, l) # cs) = [a..<a + l] @ covered cs"
  by (simp_all add: covered_def)

text \<open>
  Walking a PRP list: \<open>rd a\<close> is the entry at address \<open>a\<close>, where there is one to read, and \<open>rest\<close>
  the bytes not yet covered. The first argument bounds the number of entries read; \<open>None\<close> is a walk
  that needs more, or one that leaves the memory it may read.
\<close>

fun walk_prp_list :: "nat \<Rightarrow> (nat \<Rightarrow> nat option) \<Rightarrow> nat \<Rightarrow> nat \<Rightarrow> chunk list option" where
  "walk_prp_list 0 rd a rest = (if rest = 0 then Some [] else None)"
| "walk_prp_list (Suc f) rd a rest =
     (if rest = 0 then Some []
      else (case rd a of None \<Rightarrow> None
        | Some v \<Rightarrow>
            if a mod 4096 = 4088 \<and> 4096 < rest then walk_prp_list f rd v rest
            else map_option (Cons (v, min rest 4096))
                   (walk_prp_list f rd (a + 8) (rest - min rest 4096))))"

lemma walk_prp_list_done [simp]: "walk_prp_list f rd a 0 = Some []"
  by (cases f) simp_all

definition walk_prps :: "nat \<Rightarrow> (nat \<Rightarrow> nat option) \<Rightarrow> nat \<Rightarrow> nat \<Rightarrow> nat \<Rightarrow> chunk list option" where
  "walk_prps f rd prp1 prp2 len =
     (let first = min len (4096 - prp1 mod 4096); rest = len - first in
      if rest = 0 then Some [(prp1, first)]
      else if rest \<le> 4096 then Some [(prp1, first), (prp2, rest)]
      else map_option (Cons (prp1, first)) (walk_prp_list f rd prp2 rest))"

text \<open>
  The entry at the physical address \<open>a\<close>, for the list that lies at the physical address \<open>base\<close> and
  whose first entry has index \<open>at\<close> in the memory of all lists. Outside the two pages of that list
  there is nothing to read.
\<close>

definition read_prp :: "(nat \<Rightarrow> prp_list_entry) \<Rightarrow> nat \<Rightarrow> nat \<Rightarrow> nat \<Rightarrow> nat option" where
  "read_prp mem at base a =
     (if base \<le> a \<and> a < base + 8192 \<and> (a - base) mod 8 = 0
      then Some (unat (mem (at + (a - base) div 8))) else None)"

lemma read_prp_entry: "i < 1024 \<Longrightarrow> read_prp mem at base (base + 8 * i) = Some (unat (mem (at + i)))"
  by (simp add: read_prp_def)

section \<open>The loop\<close>

text \<open>How many data entries the list has room for from entry \<open>i\<close> on.\<close>

definition prp_room :: "nat \<Rightarrow> nat" where
  "prp_room i = (if i \<le> 511 then 1023 - i else 1024 - i)"

lemma page_end_address:
  assumes "base mod 4096 = 0"
  shows "(base + 8 * i) mod 4096 = 4088 \<longleftrightarrow> i mod 512 = (511 :: nat)"
proof -
  have "(base + 8 * i) mod 4096 = (base mod 4096 + 8 * i) mod 4096" by (rule mod_add_left_eq [symmetric])
  also have "\<dots> = 8 * (i mod 512)" using assms mod_mult_mult1 [of 8 i 512] by (simp only: add_0) simp
  finally have *: "(base + 8 * i) mod 4096 = 8 * (i mod 512)" .
  show ?thesis unfolding * by (rule iffI) auto
qed

lemma last_of_second_page: "i mod 512 = 511 \<Longrightarrow> i < 1024 \<Longrightarrow> i \<noteq> 511 \<Longrightarrow> i = (1023 :: nat)"
proof -
  assume "i mod 512 = 511" "i < 1024" "i \<noteq> 511"
  moreover have "i = 512 * (i div 512) + i mod 512" by simp
  moreover have "i div 512 < 2" using \<open>i < 1024\<close> by (simp add: less_mult_imp_div_less)
  ultimately show "i = 1023" by (cases "i div 512 = 0"; cases "i div 512 = 1") auto
qed

lemma same_list_page: "i mod 512 \<noteq> 511 \<Longrightarrow> Suc i div 512 = i div (512 :: nat)"
  by (auto simp: div_Suc mod_Suc split: if_splits)

lemma unat_add_small: "unat a + unat b < 2 ^ 64 \<Longrightarrow> unat (a + b :: u64) = unat a + unat b"
  by (subst unat_add_lem [THEN iffD1]) simp_all

lemma upt_append: "[a..<a + l] @ [a + l..<a + l + m] = [a..<a + l + (m :: nat)]"
  by (simp add: upt_add_eq_append [symmetric])

lemma prp_loop_done [simp]: "prp_loop prp2 at i p paddr 0 mem = (mem, 0)"
  by (simp add: prp_loop.simps)

text \<open>
  The list that the loop leaves is read correctly from every memory that holds it: what lies outside
  the command's own list does not matter.
\<close>

definition same_list :: "nat \<Rightarrow> nat \<Rightarrow> (nat \<Rightarrow> 'x) \<Rightarrow> (nat \<Rightarrow> 'x) \<Rightarrow> bool" where
  "same_list a b mem m \<longleftrightarrow> (\<forall>j. a \<le> j \<and> j < b \<longrightarrow> m j = mem j)"

lemma same_list_refl [simp]: "same_list a b mem mem"
  by (simp add: same_list_def)

lemma same_list_trans: "same_list a b m1 m2 \<Longrightarrow> same_list a b m2 m3 \<Longrightarrow> same_list a b m1 m3"
  by (simp add: same_list_def)

lemma same_list_mono: "same_list a b mem m \<Longrightarrow> a \<le> a' \<Longrightarrow> same_list a' b mem m"
  by (simp add: same_list_def)

lemma same_list_first: "same_list a b mem m \<Longrightarrow> a < b \<Longrightarrow> m a = mem a"
  by (simp add: same_list_def)

lemma prp_loop_correct:
  assumes base: "base = unat prp2" "base mod 4096 = 0" "base + 8192 < 2 ^ 64"
    and "i \<le> 1024" and "p = i div 512"
    and "unat remains \<le> 4096 * prp_room i"
    and "unat remains = 0 \<or> unat paddr + unat remains + 4096 < 2 ^ 64"
    and "1024 - i < f"
  shows "\<exists>mem' cs. prp_loop prp2 at i p paddr remains mem = (mem', 0) \<and>
    (\<forall>j. j < at + i \<or> at + 1024 \<le> j \<longrightarrow> mem' j = mem j) \<and>
    (\<forall>m. same_list (at + i) (at + 1024) mem' m \<longrightarrow>
       walk_prp_list f (read_prp m at base) (base + 8 * i) (unat remains) = Some cs) \<and>
    covered cs = [unat paddr..<unat paddr + unat remains]"
  using assms(4-)
proof (induction "1024 - i" arbitrary: i p paddr remains mem f rule: less_induct)
  case less
  show ?case
  proof (cases "remains = 0")
    case True
    then show ?thesis by (intro exI [of _ mem] exI [of _ "[]"]) simp
  next
    case False
    then have r: "0 < unat remains" by (simp add: unat_gt_0)
    with less.prems(3) have i: "i < 1024"
      by (auto simp: prp_room_def split: if_splits)
    obtain f' where f: "f = Suc f'" "1024 - Suc i < f'" using less.prems(5) i by (cases f) auto
    have page_end: "(base + 8 * i) mod 4096 = 4088 \<longleftrightarrow> i mod 512 = 511"
      by (rule page_end_address [OF base(2)])
    show ?thesis
    proof (cases "i mod 512 = 511 \<and> L4_PAGESIZE < remains")
      case True
      then have gt: "4096 < unat remains" by (simp add: page_simps word_less_nat_alt)
      have i511: "i = 511"
      proof (rule ccontr)
        assume "i \<noteq> 511"
        have "i mod 512 = 511" using True by blast
        with \<open>i \<noteq> 511\<close> i have "i = 1023" by (intro last_of_second_page)
        with less.prems(3) gt show False by (simp add: prp_room_def)
      qed
      let ?mem = "mem(at + i := prp2 + of_nat (p + 1) * L4_PAGESIZE)"
      obtain mem' cs where IH:
        "prp_loop prp2 at (i + 1) (p + 1) paddr remains ?mem = (mem', 0)"
        "\<forall>j. j < at + (i + 1) \<or> at + 1024 \<le> j \<longrightarrow> mem' j = ?mem j"
        "\<And>m. same_list (at + (i + 1)) (at + 1024) mem' m \<Longrightarrow>
           walk_prp_list f' (read_prp m at base) (base + 8 * (i + 1)) (unat remains) = Some cs"
        "covered cs = [unat paddr..<unat paddr + unat remains]"
        using less.hyps [of "i + 1" "p + 1" remains paddr f' ?mem] less.prems f i511
        by (auto simp: prp_room_def)
      have link: "read_prp m at base (base + 8 * i) = Some (base + 8 * (i + 1))"
        if "same_list (at + i) (at + 1024) mem' m" for m
      proof -
        have "m (at + i) = prp2 + L4_PAGESIZE"
          using IH(2) less.prems(2) i511 same_list_first [OF that] by simp
        moreover have "unat (prp2 + L4_PAGESIZE) = base + 4096"
          using base by (simp add: unat_add_small page_simps)
        ultimately show ?thesis using read_prp_entry [OF i, of m at base] by (simp add: i511)
      qed
      have "prp_loop prp2 at i p paddr remains mem = (mem', 0)"
        using IH(1) True False i
        by (simp add: prp_loop.simps [of prp2 at i] Prp_list_entries_eq Prp_list_entries_per_page_eq)
      moreover have "walk_prp_list f (read_prp m at base) (base + 8 * i) (unat remains) = Some cs"
        if "same_list (at + i) (at + 1024) mem' m" for m
        using IH(3) [of m] same_list_mono [OF that, of "at + (i + 1)"] r gt page_end True
        by (simp add: f(1) link [OF that])
      ultimately show ?thesis using IH(2,4) i by auto
    next
      case no_link: False
      let ?mem = "mem(at + i := paddr)" and ?n = "min (unat remains) 4096"
      have un: "unat (min remains L4_PAGESIZE) = ?n"
        by (simp add: min_def word_le_nat_alt page_simps)
      have rem: "unat (remains - min remains L4_PAGESIZE) = unat remains - ?n"
        by (simp add: un [symmetric] unat_sub)
      have nowrap: "unat paddr + unat remains + 4096 < 2 ^ 64" using less.prems(4) r by simp
      then have pa: "unat (paddr + L4_PAGESIZE) = unat paddr + 4096"
        by (simp add: unat_add_small page_simps)
      have room: "unat remains - ?n \<le> 4096 * prp_room (i + 1)"
      proof (cases "i = 511")
        case True
        then have "unat remains \<le> 4096"
          using no_link by (simp add: page_simps word_less_nat_alt not_less)
        then show ?thesis by simp
      next
        case False
        with less.prems(3) i show ?thesis
          by (auto simp: prp_room_def min_def split: if_splits)
      qed
      have idx: "unat remains - ?n \<noteq> 0 \<Longrightarrow> p = (i + 1) div 512"
      proof -
        assume "unat remains - ?n \<noteq> 0"
        then have "i mod 512 \<noteq> 511" using no_link by (auto simp: page_simps word_less_nat_alt min_def split: if_splits)
        then show ?thesis using less.prems(2) same_list_page [of i] by simp
      qed
      have "\<exists>mem' cs. prp_loop prp2 at (i + 1) p (paddr + L4_PAGESIZE)
            (remains - min remains L4_PAGESIZE) ?mem = (mem', 0) \<and>
          (\<forall>j. j < at + (i + 1) \<or> at + 1024 \<le> j \<longrightarrow> mem' j = ?mem j) \<and>
          (\<forall>m. same_list (at + (i + 1)) (at + 1024) mem' m \<longrightarrow>
             walk_prp_list f' (read_prp m at base) (base + 8 * (i + 1)) (unat remains - ?n) = Some cs) \<and>
          covered cs = [unat paddr + 4096..<unat paddr + 4096 + (unat remains - ?n)]"
      proof (cases "unat remains - ?n = 0")
        case True
        then have "remains - min remains L4_PAGESIZE = 0" using rem by (metis unat_eq_0)
        with True show ?thesis by auto
      next
        case more: False
        then have n: "?n = 4096" by (simp add: min_def split: if_splits)
        show ?thesis
          using less.hyps [of "i + 1" p "remains - min remains L4_PAGESIZE" "paddr + L4_PAGESIZE" f' ?mem]
            i f(2) idx more room nowrap n
          by (simp add: rem pa)
      qed
      then obtain mem' cs where IH:
        "prp_loop prp2 at (i + 1) p (paddr + L4_PAGESIZE) (remains - min remains L4_PAGESIZE) ?mem = (mem', 0)"
        "\<forall>j. j < at + (i + 1) \<or> at + 1024 \<le> j \<longrightarrow> mem' j = ?mem j"
        "\<And>m. same_list (at + (i + 1)) (at + 1024) mem' m \<Longrightarrow>
           walk_prp_list f' (read_prp m at base) (base + 8 * (i + 1)) (unat remains - ?n) = Some cs"
        "covered cs = [unat paddr + 4096..<unat paddr + 4096 + (unat remains - ?n)]"
        by blast
      have entry: "read_prp m at base (base + 8 * i) = Some (unat paddr)"
        if "same_list (at + i) (at + 1024) mem' m" for m
        using IH(2) same_list_first [OF that] i read_prp_entry [OF i, of m at base] by simp
      have loop: "prp_loop prp2 at i p paddr remains mem = (mem', 0)"
        using IH(1) no_link False i
        by (auto simp: prp_loop.simps [of prp2 at i] Prp_list_entries_eq Prp_list_entries_per_page_eq)
      have "\<not> ((base + 8 * i) mod 4096 = 4088 \<and> 4096 < unat remains)"
        using no_link page_end by (simp add: page_simps word_less_nat_alt)
      then have walk: "walk_prp_list f (read_prp m at base) (base + 8 * i) (unat remains) =
          Some ((unat paddr, ?n) # cs)"
        if "same_list (at + i) (at + 1024) mem' m" for m
        using IH(3) [of m] same_list_mono [OF that, of "at + (i + 1)"] r
        by (auto simp: f(1) entry [OF that] add.assoc add.commute [of 8])
      have "covered ((unat paddr, ?n) # cs) = [unat paddr..<unat paddr + unat remains]"
        using IH(4) upt_append [of "unat paddr" ?n "unat remains - ?n"]
        by (cases "unat remains \<le> 4096") (simp_all add: min_def)
      with loop walk IH(2) i show ?thesis by auto
    qed
  qed
qed

section \<open>The list in closed form\<close>

text \<open>
  A reference for the loop that shares nothing with it: with \<open>n\<close> pages to map, up to 512 pages fill
  the first list page one after the other; with more, its last entry links to the second page,
  and the remaining page addresses follow there, shifted by the link.
\<close>

definition prp_reference :: "u64 \<Rightarrow> u64 \<Rightarrow> nat \<Rightarrow> nat \<Rightarrow> prp_list_entry" where
  "prp_reference prp2 paddr n i =
     (if n \<le> 512 \<or> i < 511 then paddr + of_nat i * L4_PAGESIZE
      else if i = 511 then prp2 + L4_PAGESIZE
      else paddr + of_nat (i - 1) * L4_PAGESIZE)"

definition prp_length :: "nat \<Rightarrow> nat" where
  "prp_length n = (if n \<le> 512 then n else n + 1)"

definition put_pages ::
  "nat \<Rightarrow> nat \<Rightarrow> u64 \<Rightarrow> (nat \<Rightarrow> prp_list_entry) \<Rightarrow> nat \<Rightarrow> prp_list_entry" where
  "put_pages at k paddr mem =
     (\<lambda>j. if at \<le> j \<and> j < at + k then paddr + of_nat (j - at) * L4_PAGESIZE else mem j)"

lemma put_pages_0 [simp]: "put_pages at 0 paddr mem = mem"
  by (auto simp: put_pages_def fun_eq_iff)

lemma put_pages_Suc:
  "(put_pages at k paddr mem)(at + k := paddr + of_nat k * L4_PAGESIZE) = put_pages at (Suc k) paddr mem"
  by (auto simp: put_pages_def fun_eq_iff)

lemma unat_pages: "k \<le> 1024 \<Longrightarrow> unat (of_nat k * L4_PAGESIZE :: u64) = 4096 * k"
  by (simp add: unat_word_ariths unat_of_nat page_simps)

lemma unat_less_pages: "4096 * k \<le> unat r \<Longrightarrow> k \<le> 1024 \<Longrightarrow> unat (r - of_nat k * L4_PAGESIZE :: u64) = unat r - 4096 * k"
  by (subst unat_sub) (simp_all add: word_le_nat_alt unat_pages)

lemma prp_loop_page:
  assumes "remains \<noteq> 0" and "i < 1024" and "i mod 512 = 511 \<longrightarrow> remains \<le> L4_PAGESIZE"
  shows "prp_loop prp2 at i p paddr remains mem =
    prp_loop prp2 at (i + 1) p (paddr + L4_PAGESIZE) (remains - min remains L4_PAGESIZE) (mem(at + i := paddr))"
  using assms
  by (auto simp: prp_loop.simps [of prp2 at i] Prp_list_entries_eq Prp_list_entries_per_page_eq)

lemma prp_loop_pages:
  assumes "4096 * k \<le> unat r" and "i + k \<le> 1024" and "\<And>j. i \<le> j \<Longrightarrow> j < i + k \<Longrightarrow> j mod 512 \<noteq> 511"
  shows "prp_loop prp2 at i p paddr r mem =
    prp_loop prp2 at (i + k) p (paddr + of_nat k * L4_PAGESIZE) (r - of_nat k * L4_PAGESIZE)
      (put_pages (at + i) k paddr mem)"
  using assms
proof (induction k)
  case (Suc k)
  let ?r = "r - of_nat k * L4_PAGESIZE"
  have r: "unat ?r = unat r - 4096 * k" using Suc.prems by (intro unat_less_pages) simp_all
  then have "L4_PAGESIZE \<le> ?r" using Suc.prems(1) by (simp add: word_le_nat_alt page_simps)
  then have min: "min ?r L4_PAGESIZE = L4_PAGESIZE" by (simp add: min_def)
  have nz: "?r \<noteq> 0" using r Suc.prems(1) by (auto simp: unat_eq_iff [symmetric])
  have IH: "prp_loop prp2 at i p paddr r mem =
      prp_loop prp2 at (i + k) p (paddr + of_nat k * L4_PAGESIZE) ?r (put_pages (at + i) k paddr mem)"
    by (rule Suc.IH) (use Suc.prems in simp_all)
  have i: "i + k < 1024" "(i + k) mod 512 = 511 \<longrightarrow> ?r \<le> L4_PAGESIZE" using Suc.prems(2,3) by auto
  have "(put_pages (at + i) k paddr mem)(at + (i + k) := paddr + of_nat k * L4_PAGESIZE) =
      put_pages (at + i) (Suc k) paddr mem"
    using put_pages_Suc [of "at + i" k paddr mem] by (simp add: add.assoc)
  then show ?case
    unfolding IH prp_loop_page [OF nz i] min by (simp add: algebra_simps)
qed simp

lemma prp_loop_short:
  assumes m: "4096 * m < unat r" "unat r \<le> 4096 * (m + 1)" "i + m < 1024"
    and no_link: "\<And>j. i \<le> j \<Longrightarrow> j < i + m \<Longrightarrow> j mod 512 \<noteq> 511"
  shows "prp_loop prp2 at i p paddr r mem = (put_pages (at + i) (m + 1) paddr mem, 0)"
proof -
  let ?r = "r - of_nat m * L4_PAGESIZE"
  have r: "unat ?r = unat r - 4096 * m" using m by (intro unat_less_pages) simp_all
  have nz: "?r \<noteq> 0" using r m(1) by (auto simp: unat_eq_iff [symmetric])
  have le: "?r \<le> L4_PAGESIZE" using r m(2) by (simp add: word_le_nat_alt page_simps)
  have "prp_loop prp2 at i p paddr r mem =
      prp_loop prp2 at (i + m) p (paddr + of_nat m * L4_PAGESIZE) ?r (put_pages (at + i) m paddr mem)"
    by (rule prp_loop_pages) (use m no_link in simp_all)
  also have "\<dots> = (put_pages (at + i) (m + 1) paddr mem, 0)"
    by (subst prp_loop_page [OF nz])
      (use m(3) le put_pages_Suc [of "at + i" m paddr mem] in \<open>simp_all add: min_def add.assoc\<close>)
  finally show ?thesis .
qed

lemma no_link_before: "j < 511 \<Longrightarrow> j mod 512 \<noteq> (511 :: nat)"
  by simp

lemma no_link_second: "512 \<le> j \<Longrightarrow> j < 1023 \<Longrightarrow> j mod 512 \<noteq> (511 :: nat)"
  using last_of_second_page [of j] by auto

text \<open>
  C20: The loop of \<^verbatim>\<open>inout_data\<close> is equivalent to the closed form of the PRP list: for every transfer
  that \<^verbatim>\<open>max_size\<close> admits it writes exactly the entries of the reference, in their places, touches no
  other memory and leaves no byte unmapped. In particular a link is written exactly when more than
  512 pages remain behind the first one, and only in the last entry of the first list page.
\<close>

theorem prp_loop_reference:
  assumes "unat remains \<le> 4096 * 1023" and "n = (unat remains + 4095) div 4096"
  shows "prp_loop prp2 at 0 0 paddr remains mem =
    ((\<lambda>j. if at \<le> j \<and> j < at + prp_length n then prp_reference prp2 paddr n (j - at) else mem j), 0)"
proof -
  have n: "n \<le> 1023" "unat remains \<le> 4096 * n" "4096 * n < unat remains + 4096"
    using assms by (simp_all add: less_eq_div_iff_mult_less_eq)
  consider (none) "n = 0" | (one) "0 < n" "n \<le> 512" | (two) "512 < n" by linarith
  then show ?thesis
  proof cases
    case none
    then have "remains = 0" using n(2) by (simp add: unat_eq_iff [symmetric])
    with none show ?thesis by (auto simp: prp_length_def fun_eq_iff)
  next
    case one
    have "prp_loop prp2 at 0 0 paddr remains mem = (put_pages (at + 0) ((n - 1) + 1) paddr mem, 0)"
      by (rule prp_loop_short) (use one n in auto)
    with one show ?thesis
      by (simp add: put_pages_def prp_length_def prp_reference_def fun_eq_iff)
  next
    case two
    let ?r = "remains - of_nat 511 * L4_PAGESIZE" and ?a = "paddr + of_nat 511 * L4_PAGESIZE"
    let ?m = "put_pages (at + 0) 511 paddr mem"
    let ?l = "?m(at + 511 := prp2 + L4_PAGESIZE)"
    have r: "unat ?r = unat remains - 4096 * 511" using two n by (intro unat_less_pages) simp_all
    have gt: "L4_PAGESIZE < ?r" using r two n by (simp add: word_less_nat_alt page_simps)
    have "prp_loop prp2 at 0 0 paddr remains mem = prp_loop prp2 at (0 + 511) 0 ?a ?r ?m"
      by (rule prp_loop_pages) (use two n no_link_before in auto)
    also have "\<dots> = prp_loop prp2 at 512 1 ?a ?r ?l"
      using gt by (subst prp_loop.simps)
        (auto simp: Prp_list_entries_eq Prp_list_entries_per_page_eq)
    also have "\<dots> = (put_pages (at + 512) ((n - 512) + 1) ?a ?l, 0)"
      by (rule prp_loop_short) (use two n r no_link_second in auto)
    also have "put_pages (at + 512) ((n - 512) + 1) ?a ?l =
        (\<lambda>j. if at \<le> j \<and> j < at + prp_length n then prp_reference prp2 paddr n (j - at) else mem j)"
    proof
      fix j
      consider "j < at" | "at \<le> j" "j < at + 511" | "j = at + 511" | "at + 512 \<le> j" by linarith
      then show "put_pages (at + 512) ((n - 512) + 1) ?a ?l j =
          (if at \<le> j \<and> j < at + prp_length n then prp_reference prp2 paddr n (j - at) else mem j)"
      proof cases
        case 4
        then obtain k where "j = at + 512 + k" using le_Suc_ex by blast
        with two show ?thesis
          by (auto simp: put_pages_def prp_length_def prp_reference_def algebra_simps)
      qed (use two in \<open>auto simp: put_pages_def prp_length_def prp_reference_def\<close>)
    qed
    finally show ?thesis .
  qed
qed

text \<open>A transfer of 600 pages behind the first one.\<close>

theorem prp_loop_reference_witness:
  "prp_loop 0x80000 1024 0 0 0x300000 (600 * 4096) (\<lambda>_. 0) =
     ((\<lambda>j. if 1024 \<le> j \<and> j < 1024 + prp_length 600 then prp_reference 0x80000 0x300000 600 (j - 1024) else 0), 0) \<and>
   prp_reference 0x80000 0x300000 600 511 = 0x81000 \<and> prp_reference 0x80000 0x300000 600 512 = 0x4ff000"
  using prp_loop_reference [of "600 * 4096" 600 "0x80000" 1024 "0x300000" "\<lambda>_. 0"]
  by (simp add: prp_reference_def page_simps)

end
