(* ===== verification/Transfers.thy ===== *)
theory Transfers
  imports Prp_List
begin

text \<open>
  What \<^verbatim>\<open>Nvme_device::inout_data\<close>, \<^verbatim>\<open>discard\<close> and the size limits of \<^verbatim>\<open>nvme_device.h\<close> promise to the
  client of the block device: the command that reaches the controller moves exactly the bytes of
  the request, and never more than the controller accepts.
\<close>

section \<open>Pages spanned by a transfer\<close>

lemma div_eq_iff_between: "0 < m \<Longrightarrow> n div m = k \<longleftrightarrow> m * k \<le> n \<and> n < m * (k + 1 :: nat)"
  by (metis Suc_eq_plus1 div_nat_eqI dividend_less_times_div times_div_less_eq_dividend
      mult_Suc_right add.commute)

lemma page_split: "4096 * (d div 4096 + 1) = d + (4096 - d mod (4096 :: nat))"
proof -
  have "d mod 4096 < 4096" "4096 * (d div 4096) + d mod 4096 = d" by simp_all
  then show ?thesis by (simp only: distrib_left)
qed

lemma last_page:
  assumes "0 < (s :: nat)"
  shows "(d + s - 1) div 4096 = d div 4096 \<longleftrightarrow> s \<le> 4096 - d mod 4096" (is ?same)
    and "(d + s - 1) div 4096 = d div 4096 + 1 \<longleftrightarrow>
      4096 - d mod 4096 < s \<and> s \<le> 8192 - d mod 4096" (is ?next)
proof -
  define k r where kr: "k = d div 4096" "r = d mod 4096"
  then have d: "d = 4096 * k + r" and r: "r < 4096" by simp_all
  have "(4096 * k + r + s - 1) div 4096 = k \<longleftrightarrow> s \<le> 4096 - r"
    using assms r by (subst div_eq_iff_between) auto
  then show ?same by (simp add: d [symmetric] kr)
  have "(4096 * k + r + s - 1) div 4096 = k + 1 \<longleftrightarrow> 4096 - r < s \<and> s \<le> 8192 - r"
    using assms r by (subst div_eq_iff_between) auto
  then show ?next by (simp add: d [symmetric] kr)
qed

lemma unat_prp_first:
  assumes "unat d + 8192 < 2 ^ 64"
  shows "unat (prp_first d) = unat d + (4096 - unat d mod 4096)"
    and "unat (prp_first d - d) = 4096 - unat d mod 4096"
proof -
  have n: "unat (d + L4_PAGESIZE) = unat d + 4096"
    using assms by (simp add: unat_add_small page_simps)
  have "unat d mod 4096 \<le> unat d" "unat d mod 4096 < 4096" by simp_all
  then show 1: "unat (prp_first d) = unat d + (4096 - unat d mod 4096)"
    unfolding prp_first_def unat_trunc_page n mod_add_self2 by linarith
  then have "d \<le> prp_first d" by (simp add: word_le_nat_alt)
  with 1 show "unat (prp_first d - d) = 4096 - unat d mod 4096" by (simp add: unat_sub)
qed

lemma unat_prp_remains:
  assumes "unat d + 8192 < 2 ^ 64"
  shows "unat (prp_remains d s) =
    (let r = unat s - (4096 - unat d mod 4096) in if r \<le> 4096 then 0 else r)"
proof -
  note f = unat_prp_first(2) [OF assms]
  show ?thesis
  proof (cases "prp_first d - d \<le> s")
    case True
    then have "unat (s - (prp_first d - d)) = unat s - (4096 - unat d mod 4096)"
      by (simp add: unat_sub f)
    with True show ?thesis by (simp add: prp_remains_def Let_def word_le_nat_alt page_simps)
  next
    case False
    then have "unat s < 4096 - unat d mod 4096" by (simp add: word_le_nat_alt f not_le)
    with False show ?thesis by (simp add: prp_remains_def Let_def)
  qed
qed

text \<open>The second PRP entry in terms of the length of the transfer.\<close>

lemma prp2_of_eq:
  assumes "0 < unat s" and "unat d + unat s + 8192 < 2 ^ 64" and "sq_prps q = Some b"
  shows "prp2_of q start d s =
    (let room = 4096 - unat d mod 4096 in
     Inr (if unat s \<le> room then 0
          else if unat s \<le> room + 4096 then l4_trunc_page (d + s - 1)
          else inout_buffer_pget b (ucast start)))"
proof -
  let ?t = "l4_trunc_page d" and ?u = "l4_trunc_page (d + s - 1)"
  have "unat (d + s) = unat d + unat s" using assms(2) by (simp add: unat_add_small)
  moreover have "unat (d + s - 1) = unat (d + s) - 1"
    using calculation assms(1) by (subst unat_minus_one) auto
  ultimately have last: "unat (d + s - 1) = unat d + unat s - 1" by simp
  have u: "unat ?u = 4096 * ((unat d + unat s - 1) div 4096)"
    and t: "unat ?t = 4096 * (unat d div 4096)"
    by (simp_all add: unat_trunc_page_div last)
  have eq: "?t = ?u \<longleftrightarrow> unat s \<le> 4096 - unat d mod 4096"
    using last_page(1) [OF assms(1), of "unat d"]
    by (simp add: unat_eq_iff [symmetric] u t eq_commute [of "unat d div 4096"])
  have "unat (?t + L4_PAGESIZE) = unat ?t + 4096"
    using assms(2) t by (subst unat_add_small) (simp_all add: page_simps)
  then have "unat (?t + L4_PAGESIZE) = unat ?u \<longleftrightarrow>
      (unat d + unat s - 1) div 4096 = unat d div 4096 + 1"
    unfolding u t by linarith
  then have "?t = ?u - L4_PAGESIZE \<longleftrightarrow> (unat d + unat s - 1) div 4096 = unat d div 4096 + 1"
    unfolding eq_diff_eq unat_eq_iff .
  then have nxt: "?t = ?u - L4_PAGESIZE \<longleftrightarrow>
      4096 - unat d mod 4096 < unat s \<and> unat s \<le> 8192 - unat d mod 4096"
    using last_page(2) [OF assms(1), of "unat d"] by simp
  have "unat d mod 4096 < 4096" by simp
  then show ?thesis
    using eq nxt assms(3) by (auto simp: prp2_of_def Let_def)
qed

section \<open>The list is what the controller needs\<close>

text \<open>
  A page-aligned PRP list for the command, with room for both its pages.
\<close>

definition prp_list_ok :: "u64 \<Rightarrow> bool" where
  "prp_list_ok a \<longleftrightarrow> unat a mod 4096 = 0 \<and> unat a + 8192 < 2 ^ 64"

lemma walk_prps_list:
  assumes "room = 4096 - a mod 4096" and "room + 4096 < len"
  shows "walk_prps f rd a p len = map_option (Cons (a, room)) (walk_prp_list f rd p (len - room))"
proof -
  have "min len room = room" "len - room \<noteq> 0" "\<not> len - room \<le> 4096" using assms(2) by auto
  then show ?thesis by (simp only: walk_prps_def Let_def assms(1) [symmetric] if_False)
qed

lemma prps_cover_transfer:
  assumes "0 < unat s" and "unat s \<le> 1023 * 4096" and "unat d + unat s + 8192 < 2 ^ 64"
    and "sq_prps q = Some b" and "prp_list_ok (inout_buffer_pget b (ucast start))"
  obtains prp2 mem' cs where "prp2_of q start d s = Inr prp2"
    and "prp_loop prp2 at 0 0 (prp_first d) (prp_remains d s) mem = (mem', 0)"
    and "\<forall>j. j < at \<or> at + 1024 \<le> j \<longrightarrow> mem' j = mem j"
    and "\<forall>m. same_list at (at + 1024) mem' m \<longrightarrow>
      walk_prps 1025 (read_prp m at (unat (inout_buffer_pget b (ucast start))))
        (unat d) (unat prp2) (unat s) = Some cs"
    and "covered cs = [unat d..<unat d + unat s]"
proof -
  let ?room = "4096 - unat d mod 4096"
  have small: "unat d + 8192 < 2 ^ 64" using assms(3) by simp
  have room: "0 < ?room" "?room \<le> 4096" by simp_all
  note p2 = prp2_of_eq [OF assms(1,3,4)]
  note rem = unat_prp_remains [OF small]
  note ff = unat_prp_first [OF small]
  consider (one) "unat s \<le> ?room" | (two) "?room < unat s" "unat s \<le> ?room + 4096"
    | (list) "?room + 4096 < unat s" by linarith
  then show ?thesis
  proof cases
    case one
    then have "prp_remains d s = 0" using rem [of s] by (simp add: Let_def unat_eq_iff [symmetric])
    with one show ?thesis
      using p2 [of start]
      by (intro that [of 0 mem "[(unat d, unat s)]"]) (simp_all add: walk_prps_def Let_def)
  next
    case two
    let ?prp2 = "l4_trunc_page (d + s - 1)"
    have nn: "(unat d + unat s - 1) div 4096 = unat d div 4096 + 1"
      using last_page(2) [OF assms(1), of "unat d"] two by simp
    have "unat (d + s) = unat d + unat s" using assms(3) by (simp add: unat_add_small)
    then have last: "unat (d + s - 1) = unat d + unat s - 1"
      using assms(1) by (subst unat_minus_one) auto
    have "unat ?prp2 = unat d + ?room"
      unfolding unat_trunc_page_div last nn by (rule page_split)
    moreover have "unat s - ?room \<le> 4096" using two by linarith
    then have "unat (prp_remains d s) = 0" using rem [of s] by (simp only: Let_def if_True)
    then have "prp_remains d s = 0" by (simp only: unat_eq_0)
    moreover have "unat s + unat d mod 4096 - 4096 \<le> 4096" using two by linarith
    ultimately show ?thesis
      using two p2 [of start] room upt_append [of "unat d" ?room "unat s - ?room"]
      by (intro that [of ?prp2 mem "[(unat d, ?room), (unat d + ?room, unat s - ?room)]"])
        (simp_all add: walk_prps_def Let_def)
  next
    case list
    let ?prp2 = "inout_buffer_pget b (ucast start)" and ?r = "unat s - ?room"
    have r: "unat (prp_remains d s) = ?r" using rem [of s] list by (simp add: Let_def)
    have "\<exists>mem' cs. prp_loop ?prp2 at 0 0 (prp_first d) (prp_remains d s) mem = (mem', 0) \<and>
        (\<forall>j. j < at + 0 \<or> at + 1024 \<le> j \<longrightarrow> mem' j = mem j) \<and>
        (\<forall>m. same_list (at + 0) (at + 1024) mem' m \<longrightarrow>
          walk_prp_list 1025 (read_prp m at (unat ?prp2)) (unat ?prp2 + 8 * 0)
          (unat (prp_remains d s)) = Some cs) \<and>
        covered cs = [unat (prp_first d)..<unat (prp_first d) + unat (prp_remains d s)]"
      by (rule prp_loop_correct) (use assms list r room ff(1) in \<open>simp_all add: prp_list_ok_def prp_room_def\<close>)
    then obtain mem' cs where w:
      "prp_loop ?prp2 at 0 0 (prp_first d) (prp_remains d s) mem = (mem', 0)"
      "\<forall>j. j < at \<or> at + 1024 \<le> j \<longrightarrow> mem' j = mem j"
      "\<forall>m. same_list at (at + 1024) mem' m \<longrightarrow>
         walk_prp_list 1025 (read_prp m at (unat ?prp2)) (unat ?prp2) ?r = Some cs"
      "covered cs = [unat d + ?room..<unat d + ?room + ?r]"
      by (auto simp: r ff(1))
    have "\<not> unat s \<le> ?room" "\<not> unat s \<le> ?room + 4096" using list by linarith+
    then have p2': "prp2_of q start d s = Inr ?prp2" using p2 [of start] by (simp only: Let_def if_False)
    have "[unat d..<unat d + ?room] @ [unat d + ?room..<unat d + ?room + ?r] = [unat d..<unat d + unat s]"
      using upt_append [of "unat d" ?room ?r] list by simp
    then show ?thesis
      using p2' w walk_prps_list [OF refl list, of 1025]
      by (intro that [of ?prp2 mem' "(unat d, ?room) # cs"]) simp_all
  qed
qed

section \<open>The command\<close>

definition slba_of :: "sqe \<Rightarrow> u64" where
  "slba_of e = push_bit 32 (ucast (sqe_cdw11 e)) OR ucast (sqe_cdw10 e)"

lemma join_halves: "push_bit 32 (ucast (ucast (drop_bit 32 w) :: u32)) OR ucast (ucast (w AND 0xffffffff) :: u32) = (w :: u64)"
proof -
  have m: "(0xffffffff :: u64) = mask 32" by (simp add: mask_eq_exp_minus_1)
  show ?thesis unfolding m by (intro bit_word_eqI) (auto simp: bit_simps not_less)
qed

text \<open>
  A read or write command for \<open>n\<close> logical blocks: opcode, namespace, start, and the zero-based
  block count, with every other bit of dwords 12 to 15 clear.
\<close>

definition rw_command :: "bool \<Rightarrow> u32 \<Rightarrow> u64 \<Rightarrow> nat \<Rightarrow> sqe \<Rightarrow> bool" where
  "rw_command read nsid slba n e \<longleftrightarrow>
     sqe_opc e = (if read then 2 else 1) \<and> sqe_nsid e = nsid \<and> slba_of e = slba \<and>
     unat (sqe_cdw12 e) + 1 = n \<and> n \<le> 65536 \<and>
     sqe_cdw13 e = 0 \<and> sqe_cdw14 e = 0 \<and> sqe_cdw15 e = 0 \<and> sqe_mptr e = 0"

lemma cdw12_set_nlb:
  assumes "sqe_cdw12 e = 0"
  shows "sqe_cdw12 (sqe_set_nlb v e) = ucast v"
  using assms by (intro bit_word_eqI) (auto simp: sqe_set_nlb_def bit_bf_set bit_simps dest!: bit_imp_le_length)

lemma unat_pred16:
  assumes "0 < unat (n :: u64)" and "unat n \<le> 65536"
  shows "unat (ucast (n - 1) :: u16) + 1 = unat n"
proof -
  have "unat (n - 1) = unat n - 1" using assms(1) by (subst unat_minus_one) auto
  then show ?thesis using assms by (simp add: unat_ucast_mod)
qed

text \<open>The entry after preparation and submission; \<open>fill\<close> are the data pointer assignments.\<close>

lemma opc_rw_opcode: "rw_opcode read = (if read then 2 else 1)"
  by (simp add: rw_opcode_def)

section \<open>Size limits\<close>

lemma max_size_prp:
  assumes "\<not> supports_sgl c"
  shows "unat (max_size c ns) \<le> 1023 * 4096"
    and "unat (max_size c ns) \<le> 65536 * unat (dev_sector_size ns)"
proof -
  let ?ms = "of_nat (Prp_data_entries - 1) * L4_PAGESIZE :: u64"
  let ?lim = "65536 * dev_sector_size ns div ucast (max_segments c)"
  have ms: "unat ?ms = 1023 * 4096" by (simp add: Prp_data_entries_eq page_simps)
  have lim: "unat ?lim \<le> 65536 * unat (dev_sector_size ns)"
    using assms by (simp add: max_segments_def unat_word_ariths)
  have "max_size c ns \<le> ?ms" and "max_size c ns \<le> ?lim"
    using assms by (auto simp: max_size_def Let_def not_less intro: min.coboundedI1)
  then show "unat (max_size c ns) \<le> 1023 * 4096"
    and "unat (max_size c ns) \<le> 65536 * unat (dev_sector_size ns)"
    using ms lim by (auto simp: word_le_nat_alt simp del: of_nat_mult)
qed

lemma prp_sectors_bounds:
  assumes "\<not> supports_sgl c"
  shows "unat (prp_sectors c ns b) \<le> 65536"
    and "unat (prp_sectors c ns b) \<le> unat (blk_num_sectors b)"
    and "unat (prp_sectors c ns b * dev_sector_size ns) =
      unat (prp_sectors c ns b) * unat (dev_sector_size ns)"
    and "unat (prp_sectors c ns b) * unat (dev_sector_size ns) \<le> 1023 * 4096"
proof -
  let ?n = "unat (prp_sectors c ns b)" and ?ss = "unat (dev_sector_size ns)"
  have n: "?n = min (unat (blk_num_sectors b)) (unat (max_size c ns) div ?ss)"
    by (simp add: prp_sectors_def min_def word_le_nat_alt unat_div unat_ucast_up)
  then show "?n \<le> unat (blk_num_sectors b)" by simp
  have "?n \<le> unat (max_size c ns) div ?ss" using n by simp
  then have "?n * ?ss \<le> unat (max_size c ns)"
    using div_times_less_eq_dividend [of "unat (max_size c ns)" ?ss] mult_le_mono1 order_trans by blast
  with max_size_prp(1) [OF assms, of ns] show le: "?n * ?ss \<le> 1023 * 4096" by linarith
  then show "unat (prp_sectors c ns b * dev_sector_size ns) = ?n * ?ss"
    by (subst unat_mult_lem [THEN iffD1]) simp_all
  show "?n \<le> 65536"
  proof (cases "?ss = 0")
    case True
    then show ?thesis using n by simp
  next
    case False
    have "unat (max_size c ns) div ?ss \<le> 65536 * ?ss div ?ss"
      by (rule div_le_mono) (rule max_size_prp(2) [OF assms])
    then show ?thesis using n False by simp
  qed
qed

section \<open>A transfer described by PRPs\<close>

lemma rw_entry:
  assumes "e0 = sqe_set_cid cid (sqe_init e')" and "0 < unat (s :: u64)" and "unat s \<le> 65536"
    and "e = sqe_set_nlb (ucast (s - 1))
      ((rw_fill read nsid psdt slba e0)\<lparr>sqe_prp1 := a, sqe_prp2 := b\<rparr>)"
  shows "rw_command read nsid slba (unat s) e" and "sqe_cid e = cid"
    and "sqe_psdt e = take_bit 2 psdt" and "sqe_prp1 e = a" and "sqe_prp2 e = b"
proof -
  have "sqe_cdw12 e = ucast (ucast (s - 1) :: u16)"
    unfolding assms(4)
    by (subst cdw12_set_nlb)
      (simp_all add: rw_fill_def Let_def sqe_set_opc_def sqe_set_psdt_def assms(1) sqe_set_cid_def sqe_init_def)
  then have n: "unat (sqe_cdw12 e) + 1 = unat s"
    using unat_pred16 [OF assms(2,3)] by (simp add: unat_ucast_up)
  have o: "sqe_opc e = (if read then 2 else 1)"
    by (simp add: assms(4) sqe_set_nlb_def rw_fill_def Let_def sqe_opc_def sqe_set_opc_def
        sqe_set_psdt_def bf_get_set opc_rw_opcode)
  have l: "slba_of e = slba"
    by (simp add: assms(4) slba_of_def sqe_set_nlb_def rw_fill_def Let_def join_halves)
  show "rw_command read nsid slba (unat s) e"
    using n o l assms(3) unfolding rw_command_def
    by (simp add: assms(1,4) sqe_set_nlb_def rw_fill_def Let_def sqe_set_opc_def
        sqe_set_psdt_def sqe_set_cid_def sqe_init_def)
  show "sqe_cid e = cid" and "sqe_psdt e = take_bit 2 psdt" and "sqe_prp1 e = a" and "sqe_prp2 e = b"
    by (simp_all add: assms(1,4) sqe_set_nlb_def rw_fill_def Let_def sqe_cid_def sqe_psdt_def
        sqe_set_opc_def sqe_set_psdt_def sqe_set_cid_def bf_get_set)
qed

text \<open>The PRP memory of a queue: one page-aligned list of two pages per command identifier.\<close>

definition prp_memory_ok :: "'cb submission_queue \<Rightarrow> bool" where
  "prp_memory_ok q \<longleftrightarrow>
     (case sq_prps q of None \<Rightarrow> False
      | Some b \<Rightarrow> unat (ib_paddr b) mod 4096 = 0 \<and>
          unat (ib_paddr b) + 8192 * unat (q_size q) < 2 ^ 64)"

definition prp_list_offset :: "u16 \<Rightarrow> u64" where
  "prp_list_offset cid = ucast cid * of_nat Prp_list_entries * of_nat sizeof_Prp_list_entry"

lemma prp_list_of_command:
  assumes "prp_memory_ok q" and "sq_prps q = Some b" and "unat cid < unat (q_size q)"
  shows "prp_list_ok (inout_buffer_pget b (ucast (prp_list_offset cid)))"
    and "unat (inout_buffer_pget b (ucast (prp_list_offset cid))) = unat (ib_paddr b) + 8192 * unat cid"
proof -
  have c: "unat cid < 65536" using unsigned_less [of cid] by simp
  have "unat (prp_list_offset cid) = 8192 * unat cid"
    using c by (simp add: prp_list_offset_def Prp_list_entries_eq sizeof_Prp_list_entry_def
        unat_word_ariths unat_ucast_up)
  then have "unat (ucast (ucast (prp_list_offset cid) :: u32) :: u64) = 8192 * unat cid"
    using c by (simp add: unat_ucast_mod)
  moreover have fits: "unat (ib_paddr b) + (8192 * unat cid + 8192) < 2 ^ 64"
    using assms by (simp add: prp_memory_ok_def)
  ultimately show a: "unat (inout_buffer_pget b (ucast (prp_list_offset cid))) =
      unat (ib_paddr b) + 8192 * unat cid"
    by (simp add: inout_buffer_pget_def unat_add_small)
  have "unat (ib_paddr b) mod 4096 = 0" using assms(1,2) by (simp add: prp_memory_ok_def)
  moreover have "8192 * unat cid = 4096 * (2 * unat cid)" by simp
  ultimately have "(unat (ib_paddr b) + 8192 * unat cid) mod 4096 = 0"
    by (metis add.right_neutral mod_mult_self2)
  with fits show "prp_list_ok (inout_buffer_pget b (ucast (prp_list_offset cid)))"
    by (simp add: prp_list_ok_def a)
qed

text \<open>The list buffers of a queue never change, nor do the descriptors while no SGL is written.\<close>

definition keeps_lists :: "'cb submission_queue \<Rightarrow> 'cb submission_queue \<Rightarrow> bool" where
  "keeps_lists q q' \<longleftrightarrow> sq_sgls q' = sq_sgls q \<and> sq_prps q' = sq_prps q"

text \<open>
  What the controller reads for the command \<open>cid\<close>: the list \<open>cid\<close> of the queue's list memory lies
  8192 bytes times \<open>cid\<close> after the start of that memory's DMA buffer, at this and no other address.
\<close>

definition read_list :: "inout_buffer \<Rightarrow> (nat \<Rightarrow> prp_list_entry) \<Rightarrow> u16 \<Rightarrow> nat \<Rightarrow> nat option" where
  "read_list pb m cid = read_prp m (unat cid * 1024) (unat (ib_paddr pb) + 8192 * unat cid)"

text \<open>The two halves of the work: preparing the entry, and submitting it.\<close>

lemma prepare_prp_ok:
  assumes sq: "ns_iosq ns = Some q" "sq_inv q" "sq_can_produce q" "prp_memory_ok q"
    and s: "0 < unat s" "unat s \<le> 1023 * 4096" "unat d + unat s + 8192 < 2 ^ 64"
  obtains cid e0 prp2 q2 mem' cs e pb where
    "sq_prps q = Some pb" and "readwrite_prepare_prp read slba d s cb ns =
       Inr (Some (sq_tail q, Some (unat cid * 1024), ns\<lparr>ns_iosq := Some q2\<rparr>))"
    and "e0 = sqe_set_cid cid (sqe_init (sq_entries q ! unat (sq_tail q)))"
    and "e = (rw_fill read (ns_nsid ns) (psdt_code Use_prps) slba e0)\<lparr>sqe_prp1 := d, sqe_prp2 := prp2\<rparr>"
    and "issued cb cid e q q2" and "sq_prp_mem q2 = sq_prp_mem q" and "keeps_lists q q2"
    and "prp_loop prp2 (unat cid * 1024) 0 0 (prp_first d) (prp_remains d s) (sq_prp_mem q2) = (mem', 0)"
    and "\<forall>j. j < unat cid * 1024 \<or> unat cid * 1024 + 1024 \<le> j \<longrightarrow> mem' j = sq_prp_mem q j"
    and "\<forall>m. same_list (unat cid * 1024) (unat cid * 1024 + 1024) mem' m \<longrightarrow>
      walk_prps 1025 (read_list pb m cid) (unat d) (unat prp2) (unat s) = Some cs"
    and "covered cs = [unat d..<unat d + unat s]"
proof -
  let ?t = "sq_tail q"
  obtain pb where pb: "sq_prps q = Some pb"
    using sq(4) by (auto simp: prp_memory_ok_def split: option.splits)
  obtain cid q1 e0 where p: "sq_produce cb q = Inr (Some (?t, q1))"
    "e0 = sqe_set_cid cid (sqe_init (sq_entries q ! unat ?t))" "unat cid < unat (q_size q)"
    "issued cb cid e0 q q1" "sq_sgls q1 = sq_sgls q" "sq_prps q1 = sq_prps q"
    "sq_sgl_mem q1 = sq_sgl_mem q" "sq_prp_mem q1 = sq_prp_mem q"
    by (rule sq_produce_issued [OF sq(2,3)])
  have e0: "sq_entries q1 ! unat ?t = e0" by (rule issued_entry [OF p(4) sq(2)])
  have cid: "sqe_cid e0 = cid" using p(4) by (simp add: issued_def)
  obtain prp2 mem' cs where w: "prp2_of q1 (prp_list_offset cid) d s = Inr prp2"
    "prp_loop prp2 (unat cid * 1024) 0 0 (prp_first d) (prp_remains d s) (sq_prp_mem q1) = (mem', 0)"
    "\<forall>j. j < unat cid * 1024 \<or> unat cid * 1024 + 1024 \<le> j \<longrightarrow> mem' j = sq_prp_mem q1 j"
    "\<forall>m. same_list (unat cid * 1024) (unat cid * 1024 + 1024) mem' m \<longrightarrow>
       walk_prps 1025 (read_prp m (unat cid * 1024)
         (unat (inout_buffer_pget pb (ucast (prp_list_offset cid))))) (unat d) (unat prp2) (unat s) = Some cs"
    "covered cs = [unat d..<unat d + unat s]"
    by (rule prps_cover_transfer [where s = s and d = d and q = q1 and b = pb and
          start = "prp_list_offset cid" and at = "unat cid * 1024" and mem = "sq_prp_mem q1"])
      (use s p(6) pb prp_list_of_command(1) [OF sq(4) pb p(3)] in auto)
  let ?fill = "\<lambda>e. (rw_fill read (ns_nsid ns) (psdt_code Use_prps) slba e)
      \<lparr>sqe_prp1 := d, sqe_prp2 := prp2\<rparr>"
  have "readwrite_prepare_prp read slba d s cb ns =
      Inr (Some (?t, Some (unat cid * 1024), ns\<lparr>ns_iosq := Some (sq_modify ?t ?fill q1)\<rparr>))"
    using sq(1) p(1,6) pb w(1) e0 cid
    by (simp add: readwrite_prepare_prp_def prp_list_offset_def Prp_list_entries_eq)
  moreover have "issued cb cid (?fill e0) q (sq_modify ?t ?fill q1)"
    by (rule issued_modify [OF p(4) sq(2)])
      (simp add: cid [symmetric] sqe_cid_def rw_fill_def Let_def sqe_set_psdt_def sqe_set_opc_def)
  ultimately show ?thesis
    using that [of pb cid "sq_modify ?t ?fill q1" e0 "?fill e0" prp2 mem' cs] pb p(2,5-8) w(2-5)
      prp_list_of_command(2) [OF sq(4) pb p(3)]
    by (simp add: keeps_lists_def read_list_def)
qed

definition submit_fill :: "u16 \<Rightarrow> u64 \<Rightarrow> sqe \<Rightarrow> sqe" where
  "submit_fill nlb blocks e = sqe_set_nlb nlb
     (if sqe_psdt e = psdt_code Use_sgls
      then sqe_set_sgl1_len (ucast (blocks * of_nat sizeof_Sgl_desc)) e else e)"

lemma submit_ok:
  fixes nlb :: u16 and blocks :: u64
  assumes "issued cb cid e q q2" and "sq_inv q" and "ns_iosq ns = Some q2"
  defines "q3 \<equiv> sq_modify (sq_tail q) (submit_fill nlb blocks) q2"
  shows "readwrite_submit (sq_tail q) nlb blocks ns = Inr (sq_submit q3, ns\<lparr>ns_iosq := Some q3\<rparr>)"
    and "issued cb cid (submit_fill nlb blocks e) q q3"
    and "sq_prp_mem q3 = sq_prp_mem q2" and "sq_sgl_mem q3 = sq_sgl_mem q2"
    and "keeps_lists q q3 = keeps_lists q q2"
proof -
  have "sqe_cid (submit_fill nlb blocks e) = cid"
    using assms(1)
    by (simp add: issued_def submit_fill_def sqe_cid_def sqe_set_nlb_def sqe_set_sgl1_len_def)
  then show "issued cb cid (submit_fill nlb blocks e) q q3"
    unfolding q3_def by (rule issued_modify [OF assms(1,2)])
  show "readwrite_submit (sq_tail q) nlb blocks ns = Inr (sq_submit q3, ns\<lparr>ns_iosq := Some q3\<rparr>)"
    using assms(3) by (simp add: readwrite_submit_def q3_def submit_fill_def [abs_def] Let_def)
qed (simp_all add: q3_def keeps_lists_def)

lemma inout_data_prp_effect:
  assumes sq: "ns_iosq ns = Some q" "sq_inv q" "sq_can_produce q" "prp_memory_ok q"
    and no_sgl: "\<not> supports_sgl c"
    and n: "n = unat (prp_sectors c ns b)" "0 < n" "0 < dev_sector_size ns"
    and buf: "sz = n * unat (dev_sector_size ns)" "unat (blk_dma_addr b) + sz + 8192 < 2 ^ 64"
  shows "\<exists>cid e q' cs pb.
    inout_data c sector [b] cb dir ns = Inr (Inr (), [sq_submit q'], ns\<lparr>ns_iosq := Some q'\<rparr>) \<and>
    issued (Rw_callback cb (of_nat sz)) cid e q q' \<and>
    rw_command (dir = From_device) (ns_nsid ns) sector n e \<and> sqe_psdt e = 0 \<and>
    sqe_prp1 e = blk_dma_addr b \<and>
    sq_prps q = Some pb \<and>
    (\<forall>m. same_list (unat cid * 1024) (unat cid * 1024 + 1024) (sq_prp_mem q') m \<longrightarrow>
       walk_prps 1025 (read_list pb m cid)
         (unat (sqe_prp1 e)) (unat (sqe_prp2 e)) sz = Some cs) \<and>
    covered cs = [unat (blk_dma_addr b)..<unat (blk_dma_addr b) + sz] \<and>
    (\<forall>j. j < unat cid * 1024 \<or> unat cid * 1024 + 1024 \<le> j \<longrightarrow> sq_prp_mem q' j = sq_prp_mem q j) \<and>
    keeps_lists q q'"
proof -
  let ?s = "prp_sectors c ns b" and ?d = "blk_dma_addr b"
  let ?sz = "?s * dev_sector_size ns" and ?cb = "Rw_callback cb (of_nat sz) :: 'a io_callback"
  note bounds = prp_sectors_bounds [OF no_sgl, of ns b]
  have sz: "unat ?sz = sz" "sz \<le> 1023 * 4096" using bounds(3,4) n(1) buf(1) by simp_all
  have szw: "of_nat sz = ?sz" by (simp only: sz(1) [symmetric] of_nat_unat ucast_id)
  have "0 < sz" using n buf(1) by (simp add: word_less_nat_alt)
  then have s: "0 < unat ?sz" "unat ?sz \<le> 1023 * 4096" "unat ?d + unat ?sz + 8192 < 2 ^ 64"
    using sz buf(2) by simp_all
  obtain cid e0 prp2 q2 mem' cs e pb where pb: "sq_prps q = Some pb"
    and p: "readwrite_prepare_prp (dir = From_device) sector ?d ?sz ?cb ns =
       Inr (Some (sq_tail q, Some (unat cid * 1024), ns\<lparr>ns_iosq := Some q2\<rparr>))"
      "e0 = sqe_set_cid cid (sqe_init (sq_entries q ! unat (sq_tail q)))"
      "e = (rw_fill (dir = From_device) (ns_nsid ns) (psdt_code Use_prps) sector e0)
         \<lparr>sqe_prp1 := ?d, sqe_prp2 := prp2\<rparr>" "issued ?cb cid e q q2" "sq_prp_mem q2 = sq_prp_mem q"
      "keeps_lists q q2"
    and w: "prp_loop prp2 (unat cid * 1024) 0 0 (prp_first ?d) (prp_remains ?d ?sz) (sq_prp_mem q2) = (mem', 0)"
      "\<forall>j. j < unat cid * 1024 \<or> unat cid * 1024 + 1024 \<le> j \<longrightarrow> mem' j = sq_prp_mem q j"
      "\<forall>m. same_list (unat cid * 1024) (unat cid * 1024 + 1024) mem' m \<longrightarrow>
         walk_prps 1025 (read_list pb m cid) (unat ?d) (unat prp2) (unat ?sz) = Some cs"
      "covered cs = [unat ?d..<unat ?d + unat ?sz]"
    by (rule prepare_prp_ok [OF sq s, where cb = ?cb and slba = sector and read = "dir = From_device"])
  have "0 < unat ?s" using n by simp
  note ent = rw_entry [OF p(2) this bounds(1) refl,
      where read = "dir = From_device" and nsid = "ns_nsid ns" and psdt = "psdt_code Use_prps"
        and slba = sector and a = ?d and b = prp2, folded p(3)]
  have psdt: "sqe_psdt e = 0"
    by (simp add: p(3) sqe_psdt_def rw_fill_def Let_def sqe_set_psdt_def sqe_set_opc_def bf_get_set)
  then have len: "submit_fill nlb 1 e = sqe_set_nlb nlb e" for nlb by (simp add: submit_fill_def)
  let ?ns = "ns\<lparr>ns_iosq := Some (q2\<lparr>sq_prp_mem := mem'\<rparr>)\<rparr>"
  have i: "issued ?cb cid e q (q2\<lparr>sq_prp_mem := mem'\<rparr>)" using p(4) by simp
  note sub = submit_ok [OF i sq(2), of ?ns "ucast (?s - 1)" 1]
  have "sqe_prp2 (sq_entries q2 ! unat (sq_tail q)) = prp2"
    using issued_entry [OF p(4) sq(2)] by (simp add: p(3))
  then have "inout_data c sector [b] cb dir ns =
      bind_res (readwrite_submit (sq_tail q) (ucast (?s - 1)) 1 ?ns) (\<lambda>(w, ns2). Inr (Inr (), [w], ns2))"
    using no_sgl p(1) w(1)
    by (simp add: inout_data_def inout_data_prp_def szw [symmetric] Let_def)
  then show ?thesis
    using sub ent len p(6) w(2-4) sz(1) n(1)
    by (intro exI [of _ cid] exI [of _ "submit_fill (ucast (?s - 1)) 1 e"]
        exI [of _ "sq_modify (sq_tail q) (submit_fill (ucast (?s - 1)) 1) (q2\<lparr>sq_prp_mem := mem'\<rparr>)"]
        exI [of _ cs] exI [of _ pb]) (simp add: keeps_lists_def pb)
qed

text \<open>
  C5: On a controller without SGLs, a one-block request is submitted as one read or write command
  for the namespace, at the given start, for as many sectors as the request has, or for the most
  that one command may carry. The assertion on the PRP list never fails. The controller follows the
  first PRP entry and, where more than one page is needed, the second: the second page itself, or a
  list that it reads from memory. It may read the list memory of the queue only where the list of
  this command lies, 8192 bytes times the command identifier after the buffer's physical address, so
  that a second entry with any other address gives nothing. What it finds is exactly the bytes of
  the buffer, in order. The lists of other commands are not touched, and the client's callback waits under the command's fresh identifier with the
  number of bytes to report.
\<close>

theorem inout_data_prp_transfer:
  assumes sq: "ns_iosq ns = Some q" "sq_inv q" "sq_can_produce q" "prp_memory_ok q"
    and no_sgl: "\<not> supports_sgl c"
    and n: "n = unat (prp_sectors c ns b)" "0 < n" "0 < dev_sector_size ns"
    and buf: "sz = n * unat (dev_sector_size ns)" "unat (blk_dma_addr b) + sz + 8192 < 2 ^ 64"
  shows "\<exists>cid e q' cs pb.
    inout_data c sector [b] cb dir ns = Inr (Inr (), [sq_submit q'], ns\<lparr>ns_iosq := Some q'\<rparr>) \<and>
    issued (Rw_callback cb (of_nat sz)) cid e q q' \<and>
    rw_command (dir = From_device) (ns_nsid ns) sector n e \<and> sqe_psdt e = 0 \<and>
    sqe_prp1 e = blk_dma_addr b \<and> sq_prps q = Some pb \<and> sq_prps q' = Some pb \<and>
    walk_prps 1025 (read_list pb (sq_prp_mem q') cid)
      (unat (sqe_prp1 e)) (unat (sqe_prp2 e)) sz = Some cs \<and>
    covered cs = [unat (blk_dma_addr b)..<unat (blk_dma_addr b) + sz] \<and>
    (\<forall>j. j < unat cid * 1024 \<or> unat cid * 1024 + 1024 \<le> j \<longrightarrow> sq_prp_mem q' j = sq_prp_mem q j)"
  using inout_data_prp_effect [OF sq no_sgl n buf, of sector cb dir] same_list_refl
  unfolding keeps_lists_def by metis

section \<open>A transfer described by SGLs\<close>

text \<open>The SGL memory of a queue: \<^const>\<open>Ioq_sgls\<close> descriptors of 16 bytes per command identifier.\<close>

definition sgl_memory_ok :: "'cb submission_queue \<Rightarrow> bool" where
  "sgl_memory_ok q \<longleftrightarrow>
     (case sq_sgls q of None \<Rightarrow> False
      | Some b \<Rightarrow> unat (ib_paddr b) + 512 * unat (q_size q) < 2 ^ 64)"

lemma sgls_of_command:
  assumes "sgl_memory_ok q" and "unat cid < unat (q_size q)" and "sq_sgls q1 = sq_sgls q"
  obtains b where "sq_sgls q = Some b" and "sgls_desc cid q1 = Inr (unat cid * 32)"
    and "sgls_paddr cid q1 = Inr (ib_paddr b + of_nat (512 * unat cid))"
proof -
  obtain b where b: "sq_sgls q = Some b"
    using assms(1) by (auto simp: sgl_memory_ok_def split: option.splits)
  have "unat cid < 65536" using unsigned_less [of cid] by simp
  then have "unat (ucast (of_nat (512 * unat cid) :: u32) :: u64) = unat (of_nat (512 * unat cid) :: u64)"
    by (simp only: unat_ucast_mod unat_of_nat) simp
  then have "(ucast (of_nat (512 * unat cid) :: u32) :: u64) = of_nat (512 * unat cid)"
    by (simp only: unat_eq_iff)
  then show ?thesis
    using b assms(3)
    by (intro that [OF b])
      (simp_all add: sgls_desc_def sgls_paddr_def sgls_index_def queue_tunables
        inout_buffer_pget_def mult.commute)
qed

definition block_sectors :: "inout_block list \<Rightarrow> nat" where
  "block_sectors bs = sum_list (map (\<lambda>b. unat (blk_num_sectors b)) bs)"

lemma unat_fold_sectors:
  "unat a + block_sectors bs < 2 ^ 64 \<Longrightarrow>
   unat (fold (\<lambda>b n. n + ucast (blk_num_sectors b)) bs (a :: u64)) = unat a + block_sectors bs"
proof (induction bs arbitrary: a)
  case (Cons b bs)
  then have "unat (a + ucast (blk_num_sectors b)) = unat a + unat (blk_num_sectors b)"
    by (subst unat_add_small) (simp_all add: block_sectors_def unat_ucast_up)
  with Cons show ?case by (simp add: block_sectors_def)
qed (simp add: block_sectors_def)

lemma unat_sum_sectors:
  "block_sectors bs < 2 ^ 64 \<Longrightarrow> unat (sum_sectors bs) = block_sectors bs"
  using unat_fold_sectors [of 0 bs] by (simp add: sum_sectors_def)

lemma write_sgls_nth:
  "write_sgls ss at bs mem j =
     (if at \<le> j \<and> j < at + length bs
      then (mem j)\<lparr>sgl_id := sgl_kind_code Data, sgl_addr := blk_dma_addr (bs ! (j - at)),
             sgl_len := ucast (ucast (blk_num_sectors (bs ! (j - at))) * ss)\<rparr>
      else mem j)"
  by (induction bs arbitrary: at mem) (auto simp: nth_Cons' not_less_eq_eq)

text \<open>A block that respects \<^verbatim>\<open>max_size\<close>, and a request of such blocks.\<close>

definition within_limits :: "'a ctl_base_scheme \<Rightarrow> 'cb namespace \<Rightarrow> inout_block \<Rightarrow> bool" where
  "within_limits c ns b \<longleftrightarrow>
     unat (blk_num_sectors b) * unat (dev_sector_size ns) \<le> unat (max_size c ns)"

lemma max_size_sgl:
  assumes "supports_sgl c"
  shows "unat (max_size c ns) \<le> 4 * 1024 * 1024"
    and "unat (max_size c ns) \<le> 2048 * unat (dev_sector_size ns)"
proof -
  let ?lim = "65536 * dev_sector_size ns div ucast (max_segments c)"
  have "unat (65536 * dev_sector_size ns) div 32 \<le> 65536 * unat (dev_sector_size ns) div 32"
    by (rule div_le_mono) (simp add: unat_word_ariths)
  then have lim: "unat ?lim \<le> 2048 * unat (dev_sector_size ns)"
    using assms by (simp add: max_segments_def unat_div Ioq_sgls_def)
  have "max_size c ns \<le> 4 * 1024 * 1024" and "max_size c ns \<le> ?lim"
    using assms by (auto simp: max_size_def Let_def not_less intro: min.coboundedI1)
  then show "unat (max_size c ns) \<le> 4 * 1024 * 1024"
    and "unat (max_size c ns) \<le> 2048 * unat (dev_sector_size ns)"
    using lim by (auto simp: word_le_nat_alt)
qed

lemma block_within_limits:
  assumes "supports_sgl c" and "within_limits c ns b" and "0 < dev_sector_size ns"
  shows "unat (blk_num_sectors b) \<le> 2048"
    and "unat (blk_num_sectors b) * unat (dev_sector_size ns) \<le> 4 * 1024 * 1024"
proof -
  have "unat (blk_num_sectors b) * unat (dev_sector_size ns) \<le> 2048 * unat (dev_sector_size ns)"
    using assms(2) max_size_sgl(2) [OF assms(1), of ns] unfolding within_limits_def by (rule le_trans)
  moreover have "0 < unat (dev_sector_size ns)" using assms(3) by (simp add: word_less_nat_alt)
  ultimately show "unat (blk_num_sectors b) \<le> 2048" using mult_le_cancel2 by blast
  show "unat (blk_num_sectors b) * unat (dev_sector_size ns) \<le> 4 * 1024 * 1024"
    using assms(2) max_size_sgl(1) [OF assms(1), of ns] by (simp add: within_limits_def)
qed

lemma block_sectors_bound:
  "\<forall>b \<in> set bs. unat (blk_num_sectors b) \<le> k \<Longrightarrow> block_sectors bs \<le> k * length bs"
  by (induction bs) (auto simp: block_sectors_def)

lemma request_within_limits:
  assumes "supports_sgl c" and "\<forall>b \<in> set bs. within_limits c ns b" and "0 < dev_sector_size ns"
  shows "block_sectors (sgl_blocks bs) \<le> 65536"
proof -
  have "\<forall>b \<in> set (sgl_blocks bs). unat (blk_num_sectors b) \<le> 2048"
    using assms(2) block_within_limits(1) [OF assms(1) _ assms(3)]
    by (auto simp: sgl_blocks_def dest: in_set_takeD)
  from block_sectors_bound [OF this] show ?thesis
    by (rule order_trans) (simp add: sgl_blocks_def Ioq_sgls_def)
qed

text \<open>Preparing and submitting the entry of an SGL transfer.\<close>

lemma prepare_sgl_ok:
  assumes sq: "ns_iosq ns = Some q" "sq_inv q" "sq_can_produce q" "sgl_memory_ok q"
  obtains cid e0 b q2 e where
    "readwrite_prepare_sgl read slba cb ns =
       Inr (Some (sq_tail q, unat cid * 32, ns\<lparr>ns_iosq := Some q2\<rparr>))"
    and "e0 = sqe_set_cid cid (sqe_init (sq_entries q ! unat (sq_tail q)))"
    and "e = (rw_fill read (ns_nsid ns) (psdt_code Use_sgls) slba e0)
           \<lparr>sqe_prp1 := ib_paddr b + of_nat (512 * unat cid), sqe_prp2 := 0x3000000000000000\<rparr>"
    and "issued cb cid e q q2" and "sq_sgl_mem q2 = sq_sgl_mem q" and "sq_sgls q = Some b"
    and "keeps_lists q q2"
proof -
  let ?t = "sq_tail q"
  obtain cid q1 e0 where p: "sq_produce cb q = Inr (Some (?t, q1))"
    "e0 = sqe_set_cid cid (sqe_init (sq_entries q ! unat ?t))" "unat cid < unat (q_size q)"
    "issued cb cid e0 q q1" "sq_sgls q1 = sq_sgls q" "sq_prps q1 = sq_prps q"
    "sq_sgl_mem q1 = sq_sgl_mem q" "sq_prp_mem q1 = sq_prp_mem q"
    by (rule sq_produce_issued [OF sq(2,3)])
  have e0: "sq_entries q1 ! unat ?t = e0" by (rule issued_entry [OF p(4) sq(2)])
  have cid: "sqe_cid e0 = cid" using p(4) by (simp add: issued_def)
  obtain b where b: "sq_sgls q = Some b" "sgls_desc cid q1 = Inr (unat cid * 32)"
    "sgls_paddr cid q1 = Inr (ib_paddr b + of_nat (512 * unat cid))"
    by (rule sgls_of_command [OF sq(4) p(3,5)])
  let ?fill = "\<lambda>e. sqe_set_sgl1_addr (ib_paddr b + of_nat (512 * unat cid))
    (sqe_set_sgl1_id (sgl_kind_code Last_segment_addr)
      (rw_fill read (ns_nsid ns) (psdt_code Use_sgls) slba e))"
  have "readwrite_prepare_sgl read slba cb ns =
      Inr (Some (?t, unat cid * 32, ns\<lparr>ns_iosq := Some (sq_modify ?t ?fill q1)\<rparr>))"
    using sq(1) p(1) b(2,3) e0 cid by (simp add: readwrite_prepare_sgl_def)
  moreover have "issued cb cid (?fill e0) q (sq_modify ?t ?fill q1)"
    by (rule issued_modify [OF p(4) sq(2)])
      (simp add: cid [symmetric] sqe_cid_def rw_fill_def Let_def sqe_set_psdt_def sqe_set_opc_def
        sqe_set_sgl1_addr_def sqe_set_sgl1_id_def)
  moreover have "sqe_prp2 e0 = 0"
    by (simp add: p(2) sqe_set_cid_def sqe_init_def)
  then have "?fill e0 = (rw_fill read (ns_nsid ns) (psdt_code Use_sgls) slba e0)
      \<lparr>sqe_prp1 := ib_paddr b + of_nat (512 * unat cid), sqe_prp2 := 0x3000000000000000\<rparr>"
    by (simp add: sqe_set_sgl1_addr_def sqe_set_sgl1_id_def rw_fill_def Let_def sqe_set_opc_def
        sqe_set_psdt_def bf_set_def)
  ultimately show ?thesis
    using that [of cid "sq_modify ?t ?fill q1" e0 "?fill e0" b] p(2,5-7) b(1)
    by (simp add: keeps_lists_def)
qed

lemma sgl_pointer:
  assumes "e = (rw_fill read nsid (psdt_code Use_sgls) slba e0)\<lparr>sqe_prp1 := a, sqe_prp2 := 0x3000000000000000\<rparr>"
    and "k \<le> 32"
  shows "sqe_psdt e = 1"
    and "sqe_sgl1 (submit_fill nlb (of_nat k) e) =
      \<lparr>sgl_addr = a, sgl_len = of_nat (16 * k), sgl_res = 0, sgl_id = 0x30\<rparr>"
proof -
  show psdt: "sqe_psdt e = 1"
    by (simp add: assms(1) sqe_psdt_def rw_fill_def Let_def sqe_set_psdt_def sqe_set_opc_def bf_get_set)
  show "sqe_sgl1 (submit_fill nlb (of_nat k) e) =
      \<lparr>sgl_addr = a, sgl_len = of_nat (16 * k), sgl_res = 0, sgl_id = 0x30\<rparr>"
  proof -
    have l: "(ucast (of_nat k * of_nat sizeof_Sgl_desc :: u64) :: u32) = of_nat (16 * k)"
      using assms(2)
      by (simp add: unat_eq_iff [symmetric] unat_ucast_mod sizeof_Sgl_desc_def unat_word_ariths
          unat_of_nat mult.commute take_bit_eq_mod)
    have hi: "bf_get 32 55 (0x3000000000000000 :: u64) = (0 :: 24 word)"
      "bf_get 56 63 (0x3000000000000000 :: u64) = (0x30 :: u8)"
      by (simp_all add: bf_get_def)
    show ?thesis
      using psdt l hi
      by (simp add: submit_fill_def sqe_sgl1_def sqe_set_sgl1_len_def assms(1) sqe_set_nlb_def bf_get_set)
  qed
qed

lemma inout_data_sgl_effect:
  assumes sq: "ns_iosq ns = Some q" "sq_inv q" "sq_can_produce q" "sgl_memory_ok q"
    and sgl: "supports_sgl c" "\<forall>b \<in> set bs. within_limits c ns b" "0 < dev_sector_size ns"
    and n: "used = take 32 bs" "n = block_sectors used" "0 < n"
  shows "\<exists>cid e q' buf.
    inout_data c sector bs cb dir ns = Inr (Inr (), [sq_submit q'], ns\<lparr>ns_iosq := Some q'\<rparr>) \<and>
    issued (Rw_callback cb (of_nat n * dev_sector_size ns)) cid e q q' \<and>
    rw_command (dir = From_device) (ns_nsid ns) sector n e \<and> sqe_psdt e = 1 \<and>
    sq_sgls q = Some buf \<and>
    sqe_sgl1 e = \<lparr>sgl_addr = ib_paddr buf + of_nat (512 * unat cid), sgl_len = of_nat (16 * length used),
      sgl_res = 0, sgl_id = 0x30\<rparr> \<and>
    (\<forall>i < length used. let d = sq_sgl_mem q' (unat cid * 32 + i) in
       sgl_id d = 0 \<and> sgl_addr d = blk_dma_addr (used ! i) \<and>
       unat (sgl_len d) = unat (blk_num_sectors (used ! i)) * unat (dev_sector_size ns)) \<and>
    (\<forall>j. j < unat cid * 32 \<or> unat cid * 32 + 32 \<le> j \<longrightarrow> sq_sgl_mem q' j = sq_sgl_mem q j) \<and>
    keeps_lists q q'"
proof -
  have used: "sgl_blocks bs = used" "length used \<le> 32" by (simp_all add: sgl_blocks_def n(1) Ioq_sgls_def)
  have n64: "n \<le> 65536" using request_within_limits [OF sgl] by (simp add: used n(2))
  have sum: "unat (sum_sectors used) = n" using n64 by (simp add: unat_sum_sectors n(2))
  then have sumw: "sum_sectors used = of_nat n" by (metis of_nat_unat ucast_id)
  let ?cb = "Rw_callback cb (of_nat n * dev_sector_size ns) :: 'a io_callback"
  obtain cid e0 b q2 e where
    p: "readwrite_prepare_sgl (dir = From_device) sector ?cb ns =
       Inr (Some (sq_tail q, unat cid * 32, ns\<lparr>ns_iosq := Some q2\<rparr>))"
      "e0 = sqe_set_cid cid (sqe_init (sq_entries q ! unat (sq_tail q)))"
      "e = (rw_fill (dir = From_device) (ns_nsid ns) (psdt_code Use_sgls) sector e0)
         \<lparr>sqe_prp1 := ib_paddr b + of_nat (512 * unat cid), sqe_prp2 := 0x3000000000000000\<rparr>"
      "issued ?cb cid e q q2" "sq_sgl_mem q2 = sq_sgl_mem q" "sq_sgls q = Some b"
      "keeps_lists q q2"
    by (rule prepare_sgl_ok [OF sq, where cb = ?cb and slba = sector and read = "dir = From_device"])
  let ?len = "ucast (of_nat (length used) * of_nat sizeof_Sgl_desc :: u64) :: u32"
  let ?fin = "submit_fill (ucast (sum_sectors used - 1)) (of_nat (length used))"
  note ptr = sgl_pointer [OF p(3) used(2)]
  have fin: "?fin e = sqe_set_nlb (ucast (sum_sectors used - 1))
      ((rw_fill (dir = From_device) (ns_nsid ns) (psdt_code Use_sgls) sector e0)
        \<lparr>sqe_prp1 := ib_paddr b + of_nat (512 * unat cid),
         sqe_prp2 := bf_set 0 31 ?len 0x3000000000000000\<rparr>)"
    using ptr(1) by (simp add: submit_fill_def sqe_set_sgl1_len_def p(3))
  have "0 < unat (sum_sectors used)" "unat (sum_sectors used) \<le> 65536" using n(3) n64 sum by simp_all
  note ent = rw_entry [OF p(2) this fin]
  let ?mem = "write_sgls (dev_sector_size ns) (unat cid * 32) used (sq_sgl_mem q2)"
  let ?ns = "ns\<lparr>ns_iosq := Some (q2\<lparr>sq_sgl_mem := ?mem\<rparr>)\<rparr>"
  have i: "issued ?cb cid e q (q2\<lparr>sq_sgl_mem := ?mem\<rparr>)" using p(4) by simp
  note sub = submit_ok [OF i sq(2), of ?ns "ucast (sum_sectors used - 1)" "of_nat (length used)"]
  have "inout_data c sector bs cb dir ns =
      bind_res (readwrite_submit (sq_tail q) (ucast (sum_sectors used - 1)) (of_nat (length used)) ?ns)
        (\<lambda>(w, ns2). Inr (Inr (), [w], ns2))"
    using sgl(1) p(1) by (simp add: inout_data_def inout_data_sgl_def used sumw Let_def)
  moreover have "unat (sgl_len (?mem (unat cid * 32 + i))) =
      unat (blk_num_sectors (used ! i)) * unat (dev_sector_size ns)" if "i < length used" for i
  proof -
    have "within_limits c ns (used ! i)" using sgl(2) that by (auto simp: n(1) dest: in_set_takeD)
    from block_within_limits(2) [OF sgl(1) this sgl(3)] show ?thesis
      using that unat_lt2p_32 [of "blk_num_sectors (used ! i)"] by (simp add: write_sgls_nth unat_ucast_mod unat_word_ariths unat_ucast_up)
  qed
  ultimately show ?thesis
    using sub ent ptr p(5-7) sum used(2)
    by (intro exI [of _ cid] exI [of _ "?fin e"]
        exI [of _ "sq_modify (sq_tail q) ?fin (q2\<lparr>sq_sgl_mem := ?mem\<rparr>)"] exI [of _ b])
      (simp add: write_sgls_nth Let_def keeps_lists_def)
qed

text \<open>
  C6: On a controller with SGLs, a request whose blocks respect \<^verbatim>\<open>max_size\<close> is submitted as one
  command for its first \<^const>\<open>Ioq_sgls\<close> blocks: the block count of the command is the number of
  their sectors and never exceeds what the 16 bit field can say, the segment pointer names the
  descriptors of the command's identifier and their exact length in bytes, each descriptor is the
  address and length of its block, the descriptors of other commands are not touched, and the
  callback is to report the number of bytes moved.
\<close>

theorem inout_data_sgl_transfer:
  assumes sq: "ns_iosq ns = Some q" "sq_inv q" "sq_can_produce q" "sgl_memory_ok q"
    and sgl: "supports_sgl c" "\<forall>b \<in> set bs. within_limits c ns b" "0 < dev_sector_size ns"
    and n: "used = take 32 bs" "n = block_sectors used" "0 < n"
  shows "\<exists>cid e q' buf.
    inout_data c sector bs cb dir ns = Inr (Inr (), [sq_submit q'], ns\<lparr>ns_iosq := Some q'\<rparr>) \<and>
    issued (Rw_callback cb (of_nat n * dev_sector_size ns)) cid e q q' \<and>
    rw_command (dir = From_device) (ns_nsid ns) sector n e \<and> sqe_psdt e = 1 \<and>
    sq_sgls q = Some buf \<and>
    sqe_sgl1 e = \<lparr>sgl_addr = ib_paddr buf + of_nat (512 * unat cid), sgl_len = of_nat (16 * length used),
      sgl_res = 0, sgl_id = 0x30\<rparr> \<and>
    (\<forall>i < length used. let d = sq_sgl_mem q' (unat cid * 32 + i) in
       sgl_id d = 0 \<and> sgl_addr d = blk_dma_addr (used ! i) \<and>
       unat (sgl_len d) = unat (blk_num_sectors (used ! i)) * unat (dev_sector_size ns)) \<and>
    (\<forall>j. j < unat cid * 32 \<or> unat cid * 32 + 32 \<le> j \<longrightarrow> sq_sgl_mem q' j = sq_sgl_mem q j)"
  using inout_data_sgl_effect [OF sq sgl n, of sector cb dir] by blast

section \<open>Discarding, refused and empty requests\<close>

lemma wz_entry:
  assumes "e0 = sqe_set_cid cid (sqe_init e')" and "e = wz_fill nsid slba nlb dealloc e0"
  shows "sqe_opc e = 8" and "sqe_nsid e = nsid" and "slba_of e = slba" and "sqe_nlb e = nlb"
    and "sqe_deac e = (if dealloc then 1 else 0)" and "sqe_cid e = cid"
proof -
  show "slba_of e = slba"
    by (simp add: assms slba_of_def wz_fill_def Let_def sqe_set_nlb_def sqe_set_deac_def join_halves)
qed (simp_all add: assms wz_fill_def Let_def sqe_fields bf_get_set)

text \<open>A queue without room refuses a read or write, and nothing changes.\<close>

lemma inout_data_busy:
  assumes "ns_iosq ns = Some q" and "\<not> sq_can_produce q" and "supports_sgl c \<or> length bs = 1"
  shows "inout_data c sector bs cb dir ns = Inr (Inl L4_EBUSY, [], ns)"
proof (cases "supports_sgl c")
  case True
  then show ?thesis
    using assms(1,2)
    by (simp add: inout_data_def inout_data_sgl_def readwrite_prepare_sgl_def sq_produce_full Let_def)
next
  case False
  with assms(3) obtain b where "bs = [b]" by (auto simp: length_Suc_conv)
  with False show ?thesis
    using assms(1,2)
    by (simp add: inout_data_def inout_data_prp_def readwrite_prepare_prp_def sq_produce_full Let_def)
qed

lemma dev_discard_busy:
  assumes "ns_iosq ns = Some q" and "\<not> sq_can_produce q"
    and "blk_num_sectors b \<noteq> 0" and "blk_num_sectors b \<le> 65536"
  shows "dev_discard unmap offset [b] cb False ns = Inr (Inl L4_EBUSY, [], ns)"
  using assms by (simp add: dev_discard_def ns_write_zeroes_def sq_produce_full not_less)

lemma dev_discard_effect:
  assumes sq: "ns_iosq ns = Some q" "sq_inv q" "sq_can_produce q"
    and n: "blk_num_sectors b \<noteq> 0" "blk_num_sectors b \<le> 65536"
  shows "\<exists>cid e q'.
    dev_discard unmap offset [b] cb False ns = Inr (Inr (), [sq_submit q'], ns\<lparr>ns_iosq := Some q'\<rparr>) \<and>
    issued (Wz_callback cb) cid e q q' \<and> sqe_opc e = 8 \<and> sqe_nsid e = ns_nsid ns \<and>
    slba_of e = offset + blk_sector b \<and> unat (sqe_nlb e) + 1 = unat (blk_num_sectors b) \<and>
    sqe_deac e = (if blk_flags b AND unmap \<noteq> 0 then 1 else 0) \<and>
    keeps_lists q q' \<and> sq_sgl_mem q' = sq_sgl_mem q \<and> sq_prp_mem q' = sq_prp_mem q"
proof -
  let ?n = "blk_num_sectors b" and ?t = "sq_tail q"
  let ?fill = "wz_fill (ns_nsid ns) (offset + blk_sector b) (ucast (?n - 1)) (blk_flags b AND unmap \<noteq> 0)"
  obtain cid q1 e0 where p: "sq_produce (Wz_callback cb) q = Inr (Some (?t, q1))"
    "e0 = sqe_set_cid cid (sqe_init (sq_entries q ! unat ?t))" "issued (Wz_callback cb) cid e0 q q1"
    "sq_sgls q1 = sq_sgls q" "sq_prps q1 = sq_prps q"
    "sq_sgl_mem q1 = sq_sgl_mem q" "sq_prp_mem q1 = sq_prp_mem q"
    by (rule sq_produce_issued [OF sq(2,3)]) blast
  note w = wz_entry [OF p(2) refl]
  have "unat (?n - 1) = unat ?n - 1" using n by (subst unat_minus_one) auto
  moreover have "0 < unat ?n" "unat ?n \<le> 65536"
    using n by (simp_all add: unat_gt_0 word_le_nat_alt)
  ultimately have nlb: "unat (ucast (?n - 1) :: u16) + 1 = unat ?n"
    by (simp add: unat_ucast_mod)
  have "dev_discard unmap offset [b] cb False ns = Inr (Inr (), [sq_submit (sq_modify ?t ?fill q1)],
      ns\<lparr>ns_iosq := Some (sq_modify ?t ?fill q1)\<rparr>)"
    using n sq(1) p(1) by (simp add: dev_discard_def ns_write_zeroes_def not_less Let_def)
  moreover have "issued (Wz_callback cb) cid (?fill e0) q (sq_modify ?t ?fill q1)"
    by (rule issued_modify [where f = ?fill, OF p(3) sq(2) w(6)])
  ultimately show ?thesis
    using w(1-5) nlb p(4-7)
    by (intro exI [of _ cid] exI [of _ "?fill e0"] exI [of _ "sq_modify ?t ?fill q1"])
      (simp add: keeps_lists_def)
qed

text \<open>
  C23: \<^verbatim>\<open>discard\<close> with write zeroes never wraps the zero-based block count: a request for no sector
  or for more than 65536 is refused with \<^verbatim>\<open>-L4_EIO\<close> and changes nothing, a full queue gives
  \<^verbatim>\<open>-L4_EBUSY\<close> and changes nothing, and every other request is submitted as one Write Zeroes command
  for exactly the sectors asked for, from the partition's offset on, that deallocates exactly when
  the client set the unmap flag.
\<close>

theorem dev_discard_spec:
  assumes sq: "ns_iosq ns = Some q" "sq_inv q"
  shows "if blk_num_sectors b = 0 \<or> 65536 < blk_num_sectors b
    then dev_discard unmap offset [b] cb False ns = Inr (Inl L4_EIO, [], ns)
    else if \<not> sq_can_produce q
    then dev_discard unmap offset [b] cb False ns = Inr (Inl L4_EBUSY, [], ns)
    else \<exists>cid e q'.
      dev_discard unmap offset [b] cb False ns = Inr (Inr (), [sq_submit q'], ns\<lparr>ns_iosq := Some q'\<rparr>) \<and>
      issued (Wz_callback cb) cid e q q' \<and> sqe_opc e = 8 \<and> sqe_nsid e = ns_nsid ns \<and>
      slba_of e = offset + blk_sector b \<and> unat (sqe_nlb e) + 1 = unat (blk_num_sectors b) \<and>
      sqe_deac e = (if blk_flags b AND unmap \<noteq> 0 then 1 else 0)"
proof -
  consider (size) "blk_num_sectors b = 0 \<or> 65536 < blk_num_sectors b"
    | (full) "blk_num_sectors b \<noteq> 0" "blk_num_sectors b \<le> 65536" "\<not> sq_can_produce q"
    | (room) "blk_num_sectors b \<noteq> 0" "blk_num_sectors b \<le> 65536" "sq_can_produce q"
    by (metis not_less)
  then show ?thesis
  proof cases
    case size
    then show ?thesis by (auto simp: dev_discard_def)
  next
    case full
    then show ?thesis using dev_discard_busy [OF sq(1) full(3,1,2)] by (simp add: not_less)
  next
    case room
    have "\<not> (blk_num_sectors b = 0 \<or> 65536 < blk_num_sectors b)" using room by (simp add: not_less)
    with room(3) show ?thesis
      using dev_discard_effect [OF sq room(3,1,2), of unmap offset cb] by (simp only: if_False not_True_eq_False) blast
  qed
qed

text \<open>
  C40: \<^verbatim>\<open>inout_data\<close> has no such guard. With SGLs, a request for no sectors at all is submitted, and
  the zero-based block count of its command wraps around to 65535, the encoding of 65536 blocks,
  while its data pointer describes no byte.
\<close>

theorem inout_data_empty_wraps:
  assumes sq: "ns_iosq ns = Some q" "sq_inv q" "sq_can_produce q" "sgl_memory_ok q"
    and sgl: "supports_sgl c" and empty: "blk_num_sectors b = 0"
  shows "\<exists>cid e q'.
    inout_data c sector [b] cb dir ns = Inr (Inr (), [sq_submit q'], ns\<lparr>ns_iosq := Some q'\<rparr>) \<and>
    issued (Rw_callback cb 0) cid e q q' \<and> sqe_nlb e = 0xffff \<and>
    sgl_len (sqe_sgl1 e) = 16 \<and> sgl_len (sq_sgl_mem q' (unat cid * 32)) = 0"
proof -
  have used: "sgl_blocks [b] = [b]" "sum_sectors [b] = 0"
    by (simp_all add: sgl_blocks_def Ioq_sgls_def sum_sectors_def empty)
  let ?cb = "Rw_callback cb 0 :: 'a io_callback"
  obtain cid e0 b' q2 e where
    p: "readwrite_prepare_sgl (dir = From_device) sector ?cb ns =
       Inr (Some (sq_tail q, unat cid * 32, ns\<lparr>ns_iosq := Some q2\<rparr>))"
      "e0 = sqe_set_cid cid (sqe_init (sq_entries q ! unat (sq_tail q)))"
      "e = (rw_fill (dir = From_device) (ns_nsid ns) (psdt_code Use_sgls) sector e0)
         \<lparr>sqe_prp1 := ib_paddr b' + of_nat (512 * unat cid), sqe_prp2 := 0x3000000000000000\<rparr>"
      "issued ?cb cid e q q2"
      "sq_sgl_mem q2 = sq_sgl_mem q" "sq_sgls q = Some b'"
    by (rule prepare_sgl_ok [OF sq, where cb = ?cb and slba = sector and read = "dir = From_device"])
  note ptr = sgl_pointer [OF p(3), of 1]
  let ?mem = "write_sgls (dev_sector_size ns) (unat cid * 32) [b] (sq_sgl_mem q2)"
  let ?ns = "ns\<lparr>ns_iosq := Some (q2\<lparr>sq_sgl_mem := ?mem\<rparr>)\<rparr>"
  have i: "issued ?cb cid e q (q2\<lparr>sq_sgl_mem := ?mem\<rparr>)" using p(4) by simp
  note sub = submit_ok [OF i sq(2), of ?ns "ucast (- 1 :: u64)" 1]
  have "inout_data c sector [b] cb dir ns =
      bind_res (readwrite_submit (sq_tail q) (ucast (- 1 :: u64)) 1 ?ns)
        (\<lambda>(w, ns2). Inr (Inr (), [w], ns2))"
    using sgl p(1) by (simp add: inout_data_def inout_data_sgl_def used Let_def)
  moreover have "sqe_nlb (submit_fill (ucast (- 1 :: u64)) 1 e) = 0xffff"
    by (simp add: submit_fill_def sqe_nlb.get_put)
      (simp add: unat_eq_iff [symmetric] unat_ucast_mod unsigned_minus_1_eq_mask mask_eq_exp_minus_1)
  moreover have "sgl_len (sqe_sgl1 (submit_fill (ucast (- 1 :: u64)) 1 e)) = 16"
    using ptr(2) by simp
  moreover have "sgl_len (?mem (unat cid * 32)) = 0" by (simp add: empty)
  ultimately show ?thesis
    using sub
    by (intro exI [of _ cid] exI [of _ "submit_fill (ucast (- 1 :: u64)) 1 e"]
        exI [of _ "sq_modify (sq_tail q) (submit_fill (ucast (- 1 :: u64)) 1) (q2\<lparr>sq_sgl_mem := ?mem\<rparr>)"])
      simp
qed

section \<open>Witnesses\<close>

definition small_ctl :: "bool \<Rightarrow> ctl_base" where
  "small_ctl sgl = \<lparr>use_sgls = True, use_msis = True, use_msixs = True, ctl_cap = 0, ctl_sgls = sgl,
     ctl_sn = [], ctl_mdts = 0\<rparr>"

definition small_blk :: inout_block where
  "small_blk = \<lparr>blk_dma_addr = 0x5200, blk_sector = 4, blk_num_sectors = 40, blk_flags = 1\<rparr>"

lemma small_blk_fields [simp]:
  "blk_dma_addr small_blk = 0x5200" "blk_sector small_blk = 4" "blk_num_sectors small_blk = 40"
  "blk_flags small_blk = 1"
  by (simp_all add: small_blk_def)

text \<open>A queue of two entries whose list memory starts at a page.\<close>

definition blk_sq :: "bool \<Rightarrow> nat io_callback submission_queue" where
  "blk_sq sgl = \<lparr>q_size = 2, q_entry_size = 64, q_y = 1, q_dstrd = 0, q_head = 0, q_buf = small_buf,
     sq_entries = [small_sqe, small_sqe], sq_callbacks = [None, None],
     sq_sgls = (if sgl then Some small_buf else None),
     sq_prps = (if sgl then None else Some small_buf),
     sq_sgl_mem = (\<lambda>_. \<lparr>sgl_addr = 0, sgl_len = 0, sgl_res = 0, sgl_id = 0\<rparr>),
     sq_prp_mem = (\<lambda>_. 0), sq_tail = 0, sq_in_flight = 0, sq_free_hint = 0\<rparr>"

definition small_ns :: "bool \<Rightarrow> nat io_callback namespace" where
  "small_ns sgl = \<lparr>ns_msi = 0, ns_iocq = None, ns_iosq = Some (blk_sq sgl), ns_nsid = 1, ns_nsze = 0x1000,
     ns_lba_sz = 512, ns_ro = False, ns_dlfeat = 0\<rparr>"

lemma blk_sq_ok:
  "ns_iosq (small_ns sgl) = Some (blk_sq sgl)" "sq_inv (blk_sq sgl)" "sq_can_produce (blk_sq sgl)"
  "prp_memory_ok (blk_sq False)" "sgl_memory_ok (blk_sq True)"
  by (simp_all add: small_ns_def blk_sq_def sq_inv_def occupied_def sq_can_produce_def is_full_def
      wrap_around_def prp_memory_ok_def sgl_memory_ok_def small_buf_def)

lemma small_limits:
  "dev_sector_size (small_ns sgl) = 512" "supports_sgl (small_ctl sgl) = sgl"
  "max_size (small_ctl False) (small_ns False) = 1023 * 4096"
  "max_size (small_ctl True) (small_ns True) = 1024 * 1024"
  "ns_nsid (small_ns sgl) = 1"
  by (simp_all add: small_ns_def small_ctl_def dev_sector_size_def supports_sgl_def max_size_def Let_def
      max_segments_def Prp_data_entries_eq page_simps Ioq_sgls_def Mps_base_def cap_mpsmin_def bf_get_def)

lemma small_prp_sectors: "prp_sectors (small_ctl False) (small_ns False) small_blk = 40"
  by (simp add: prp_sectors_def small_limits)

theorem inout_data_prp_transfer_witness:
  "\<exists>cid e q' cs pb.
    inout_data (small_ctl False) 7 [small_blk] 42 From_device (small_ns False) =
      Inr (Inr (), [sq_submit q'], (small_ns False)\<lparr>ns_iosq := Some q'\<rparr>) \<and>
    issued (Rw_callback 42 (of_nat 20480)) cid e (blk_sq False) q' \<and>
    rw_command (From_device = From_device) (ns_nsid (small_ns False)) 7 40 e \<and> sqe_psdt e = 0 \<and>
    sqe_prp1 e = blk_dma_addr small_blk \<and> sq_prps (blk_sq False) = Some pb \<and> sq_prps q' = Some pb \<and>
    walk_prps 1025 (read_list pb (sq_prp_mem q') cid)
      (unat (sqe_prp1 e)) (unat (sqe_prp2 e)) 20480 = Some cs \<and>
    covered cs = [unat (blk_dma_addr small_blk)..<unat (blk_dma_addr small_blk) + 20480] \<and>
    (\<forall>j. j < unat cid * 1024 \<or> unat cid * 1024 + 1024 \<le> j \<longrightarrow>
      sq_prp_mem q' j = sq_prp_mem (blk_sq False) j)"
  by (rule inout_data_prp_transfer [OF blk_sq_ok(1-4)])
    (simp_all add: small_limits small_prp_sectors)

theorem inout_data_sgl_transfer_witness:
  "\<exists>cid e q' buf.
    inout_data (small_ctl True) 7 [small_blk, small_blk] 42 To_device (small_ns True) =
      Inr (Inr (), [sq_submit q'], (small_ns True)\<lparr>ns_iosq := Some q'\<rparr>) \<and>
    issued (Rw_callback 42 (of_nat 80 * dev_sector_size (small_ns True))) cid e (blk_sq True) q' \<and>
    rw_command (To_device = From_device) (ns_nsid (small_ns True)) 7 80 e \<and> sqe_psdt e = 1 \<and>
    sq_sgls (blk_sq True) = Some buf \<and>
    sqe_sgl1 e = \<lparr>sgl_addr = ib_paddr buf + of_nat (512 * unat cid),
      sgl_len = of_nat (16 * length [small_blk, small_blk]), sgl_res = 0, sgl_id = 0x30\<rparr> \<and>
    (\<forall>i < length [small_blk, small_blk]. let d = sq_sgl_mem q' (unat cid * 32 + i) in
       sgl_id d = 0 \<and> sgl_addr d = blk_dma_addr ([small_blk, small_blk] ! i) \<and>
       unat (sgl_len d) =
         unat (blk_num_sectors ([small_blk, small_blk] ! i)) * unat (dev_sector_size (small_ns True))) \<and>
    (\<forall>j. j < unat cid * 32 \<or> unat cid * 32 + 32 \<le> j \<longrightarrow>
      sq_sgl_mem q' j = sq_sgl_mem (blk_sq True) j)"
  by (rule inout_data_sgl_transfer [OF blk_sq_ok(1-3,5)])
    (simp_all add: small_limits within_limits_def block_sectors_def)

theorem dev_discard_spec_witness:
  "\<exists>cid e q'.
      dev_discard 1 100 [small_blk] 42 False (small_ns True) =
        Inr (Inr (), [sq_submit q'], (small_ns True)\<lparr>ns_iosq := Some q'\<rparr>) \<and>
      issued (Wz_callback 42) cid e (blk_sq True) q' \<and> sqe_opc e = 8 \<and> sqe_nsid e = 1 \<and>
      slba_of e = 104 \<and> unat (sqe_nlb e) + 1 = 40 \<and> sqe_deac e = 1"
  using dev_discard_spec [OF blk_sq_ok(1,2) [of True], where b = small_blk and unmap = 1 and offset = 100 and cb = 42]
    blk_sq_ok(3) [of True]
  by (simp add: small_limits)

theorem inout_data_empty_wraps_witness:
  "\<exists>cid e q'.
    inout_data (small_ctl True) 7 [small_blk\<lparr>blk_num_sectors := 0\<rparr>] 42 To_device (small_ns True) =
      Inr (Inr (), [sq_submit q'], (small_ns True)\<lparr>ns_iosq := Some q'\<rparr>) \<and>
    issued (Rw_callback 42 0) cid e (blk_sq True) q' \<and> sqe_nlb e = 0xffff \<and>
    sgl_len (sqe_sgl1 e) = 16 \<and> sgl_len (sq_sgl_mem q' (unat cid * 32)) = 0"
  by (rule inout_data_empty_wraps [OF blk_sq_ok(1-3,5)]) (simp_all add: small_limits)

section \<open>The limits advertised to the client\<close>

text \<open>
  C22: A request of at most \<^verbatim>\<open>max_segments\<close> blocks of at most \<^verbatim>\<open>max_size\<close> bytes each never needs more
  than 65536 logical blocks, the most one command can name, nor more bytes than the controller's
  maximum data transfer size, when it announces one; without SGLs it also fits the PRP list.
\<close>

theorem max_size_respects_controller:
  assumes "Mps_base + unat (cap_mpsmin (ctl_cap c)) + unat (ctl_mdts c) < 64"
  shows "unat (max_segments c) * unat (max_size c ns) \<le> 65536 * unat (dev_sector_size ns) \<and>
    (ctl_mdts c \<noteq> 0 \<longrightarrow> unat (max_segments c) * unat (max_size c ns) \<le>
      2 ^ (Mps_base + unat (cap_mpsmin (ctl_cap c)) + unat (ctl_mdts c))) \<and>
    (\<not> supports_sgl c \<longrightarrow> unat (max_size c ns) \<le> 4096 * (Prp_data_entries - 1))"
proof -
  let ?e = "Mps_base + unat (cap_mpsmin (ctl_cap c))" and ?m = "unat (ctl_mdts c)"
  let ?ms = "push_bit ?m (push_bit ?e 1) :: u64"
  have seg: "unat (max_segments c) = (if supports_sgl c then 32 else 1)"
    by (simp add: max_segments_def Ioq_sgls_def)
  have ms: "unat ?ms = 2 ^ (?e + ?m)"
  proof -
    have "(2 :: nat) ^ (?m + ?e) < 2 ^ 64" using assms by (intro power_strict_increasing) simp_all
    then have "unat (push_bit (?m + ?e) (1 :: u64)) = 2 ^ (?m + ?e)"
      by (simp only: unsigned_push_bit_eq) (simp add: take_bit_eq_mod push_bit_eq_mult)
    then show ?thesis by (simp only: push_bit_push_bit add.commute)
  qed
  have mdts: "unat (max_segments c) * unat (max_size c ns) \<le> 2 ^ (?e + ?m)" if "ctl_mdts c \<noteq> 0"
  proof -
    have "max_size c ns \<le> (if supports_sgl c then ?ms div 32 else ?ms)"
      using that by (auto simp: max_size_def Let_def not_less Ioq_sgls_def intro: min.coboundedI2)
    then have "unat (max_size c ns) \<le> unat (if supports_sgl c then ?ms div 32 else ?ms)"
      by (simp only: word_le_nat_alt)
    then show ?thesis
      unfolding seg ms [symmetric] using div_times_less_eq_dividend [of "unat ?ms" 32]
      by (auto simp: unat_div split: if_splits)
  qed
  show ?thesis
  proof (cases "supports_sgl c")
    case True
    then show ?thesis using mdts max_size_sgl(2) [OF True, of ns] by (simp add: seg)
  next
    case False
    then show ?thesis using mdts max_size_prp [OF False, of ns] by (simp add: seg Prp_data_entries_eq)
  qed
qed

theorem max_size_respects_controller_witness:
  "unat (max_segments ((small_ctl True)\<lparr>ctl_mdts := 7\<rparr>)) *
      unat (max_size ((small_ctl True)\<lparr>ctl_mdts := 7\<rparr>) (small_ns True)) \<le> 524288"
  using max_size_respects_controller [of "(small_ctl True)\<lparr>ctl_mdts := 7\<rparr>" "small_ns True"]
  by (simp add: small_ctl_def Mps_base_def cap_mpsmin_def bf_get_def)

end
