(* ===== verification/Device_Runs.thy ===== *)
theory Device_Runs
  imports Transfers Namespace_Irq Queue_Pair
begin

text \<open>
  The block device at run time: requests of the client (\<^verbatim>\<open>inout_data\<close>, \<^verbatim>\<open>discard\<close>), the queue pair of
  its namespace, the controller, and the interrupt handler, interleaved in any order. What the
  client sees is a pool of open requests; what the controller sees are commands whose lists stay
  valid for as long as they are outstanding.
\<close>

section \<open>Requests\<close>

text \<open>
  A call of \<^verbatim>\<open>inout_data\<close>: first sector, blocks, callback, direction; or of \<^verbatim>\<open>discard\<close> with the
  discard flag off: the offset of the partition, blocks, callback.
\<close>

datatype 'c io_request =
  Rw_request u64 "inout_block list" 'c direction
| Wz_request u64 "inout_block list" 'c

fun submit ::
  "'a ctl_base_scheme \<Rightarrow> u32 \<Rightarrow> 'c io_request \<Rightarrow> 'c io_callback namespace \<Rightarrow> 'c dev_result" where
  "submit c unmap (Rw_request sector bs k dir) ns = inout_data c sector bs k dir ns"
| "submit c unmap (Wz_request offset bs k) ns = dev_discard unmap offset bs k False ns"

text \<open>The sectors a request moves, and the callback that waits for its completion.\<close>

definition rw_sectors :: "'a ctl_base_scheme \<Rightarrow> 'cb namespace \<Rightarrow> inout_block list \<Rightarrow> nat" where
  "rw_sectors c ns bs =
     (if supports_sgl c then block_sectors (take 32 bs) else unat (prp_sectors c ns (hd bs)))"

fun request_client :: "'c io_request \<Rightarrow> 'c" where
  "request_client (Rw_request sector bs k dir) = k"
| "request_client (Wz_request offset bs k) = k"

fun request_bytes :: "'a ctl_base_scheme \<Rightarrow> 'cb namespace \<Rightarrow> 'c io_request \<Rightarrow> u64" where
  "request_bytes c ns (Rw_request sector bs k dir) = of_nat (rw_sectors c ns bs) * dev_sector_size ns"
| "request_bytes c ns (Wz_request offset bs k) = 0"

fun request_callback :: "'a ctl_base_scheme \<Rightarrow> 'cb namespace \<Rightarrow> 'c io_request \<Rightarrow> 'c io_callback" where
  "request_callback c ns (Rw_request sector bs k dir) =
     Rw_callback k (of_nat (rw_sectors c ns bs) * dev_sector_size ns)"
| "request_callback c ns (Wz_request offset bs k) = Wz_callback k"

text \<open>
  Requests that keep to the interface: what \<^verbatim>\<open>max_size\<close> and \<^verbatim>\<open>max_segments\<close> advertise, at least one
  sector to read or write, and a buffer that does not touch the end of the address space.
\<close>

fun request_ok :: "'a ctl_base_scheme \<Rightarrow> 'cb namespace \<Rightarrow> 'c io_request \<Rightarrow> bool" where
  "request_ok c ns (Rw_request sector bs k dir) \<longleftrightarrow>
     0 < rw_sectors c ns bs \<and>
     (if supports_sgl c then \<forall>b \<in> set bs. within_limits c ns b
      else length bs = 1 \<and>
        unat (blk_dma_addr (hd bs)) + rw_sectors c ns bs * unat (dev_sector_size ns) + 8192 < 2 ^ 64)"
| "request_ok c ns (Wz_request offset bs k) \<longleftrightarrow> length bs = 1"

text \<open>A Write Zeroes request whose size no command can express is refused at once.\<close>

fun bad_size :: "'c io_request \<Rightarrow> bool" where
  "bad_size (Rw_request sector bs k dir) = False"
| "bad_size (Wz_request offset bs k) \<longleftrightarrow>
     blk_num_sectors (hd bs) = 0 \<or> 65536 < blk_num_sectors (hd bs)"

section \<open>What a command in the hands of the controller describes\<close>

text \<open>
  Through the two PRP entries and the command's list, every memory that agrees with the queue's on
  the list gives exactly the bytes of the buffer. The list lies at its place in the DMA buffer of
  the queue's lists, whatever the second entry says.
\<close>

definition prp_describes ::
  "inout_buffer option \<Rightarrow> (nat \<Rightarrow> prp_list_entry) \<Rightarrow> u16 \<Rightarrow> sqe \<Rightarrow> u64 \<Rightarrow> nat \<Rightarrow> bool" where
  "prp_describes buf mem cid e addr sz \<longleftrightarrow>
     sqe_psdt e = 0 \<and> sqe_prp1 e = addr \<and>
     (\<exists>pb cs. buf = Some pb \<and>
        (\<forall>m. same_list (unat cid * 1024) (unat cid * 1024 + 1024) mem m \<longrightarrow>
        walk_prps 1025 (read_list pb m cid)
          (unat addr) (unat (sqe_prp2 e)) sz = Some cs) \<and>
        covered cs = [unat addr..<unat addr + sz])"

text \<open>The segment descriptor points to the command's descriptors, and they name the blocks.\<close>

definition sgl_describes ::
  "inout_buffer option \<Rightarrow> (nat \<Rightarrow> sgl_desc) \<Rightarrow> u16 \<Rightarrow> sqe \<Rightarrow> u64 \<Rightarrow> inout_block list \<Rightarrow> bool" where
  "sgl_describes buf mem cid e ss bs \<longleftrightarrow>
     sqe_psdt e = 1 \<and>
     (\<exists>b. buf = Some b \<and>
        sqe_sgl1 e = \<lparr>sgl_addr = ib_paddr b + of_nat (512 * unat cid),
          sgl_len = of_nat (16 * length bs), sgl_res = 0, sgl_id = 0x30\<rparr>) \<and>
     (\<forall>i < length bs. let d = mem (unat cid * 32 + i) in
        sgl_id d = 0 \<and> sgl_addr d = blk_dma_addr (bs ! i) \<and>
        unat (sgl_len d) = unat (blk_num_sectors (bs ! i)) * unat ss)"

fun describes ::
  "'a ctl_base_scheme \<Rightarrow> u32 \<Rightarrow> 'd namespace \<Rightarrow> 'cb submission_queue \<Rightarrow> 'c io_request \<Rightarrow> u16 \<Rightarrow>
   sqe \<Rightarrow> bool" where
  "describes c unmap ns q (Rw_request sector bs k dir) cid e \<longleftrightarrow>
     rw_command (dir = From_device) (ns_nsid ns) sector (rw_sectors c ns bs) e \<and>
     (if supports_sgl c
      then sgl_describes (sq_sgls q) (sq_sgl_mem q) cid e (dev_sector_size ns) (take 32 bs)
      else prp_describes (sq_prps q) (sq_prp_mem q) cid e (blk_dma_addr (hd bs))
        (rw_sectors c ns bs * unat (dev_sector_size ns)))"
| "describes c unmap ns q (Wz_request offset bs k) cid e \<longleftrightarrow>
     sqe_opc e = 8 \<and> sqe_nsid e = ns_nsid ns \<and> slba_of e = offset + blk_sector (hd bs) \<and>
     unat (sqe_nlb e) + 1 = unat (blk_num_sectors (hd bs)) \<and>
     sqe_deac e = (if blk_flags (hd bs) AND unmap \<noteq> 0 then 1 else 0)"

section \<open>Every request is refused or becomes such a command\<close>

definition lists_ok :: "'a ctl_base_scheme \<Rightarrow> 'cb submission_queue \<Rightarrow> bool" where
  "lists_ok c q \<longleftrightarrow> (if supports_sgl c then sgl_memory_ok q else prp_memory_ok q)"

text \<open>What belongs to the other commands is untouched.\<close>

definition other_lists ::
  "'a ctl_base_scheme \<Rightarrow> u16 \<Rightarrow> 'cb submission_queue \<Rightarrow> 'cb submission_queue \<Rightarrow> bool" where
  "other_lists c cid q q' \<longleftrightarrow>
     keeps_lists q q' \<and>
     (if supports_sgl c
      then \<forall>j. j < unat cid * 32 \<or> unat cid * 32 + 32 \<le> j \<longrightarrow> sq_sgl_mem q' j = sq_sgl_mem q j
      else \<forall>j. j < unat cid * 1024 \<or> unat cid * 1024 + 1024 \<le> j \<longrightarrow> sq_prp_mem q' j = sq_prp_mem q j)"

definition submitted ::
  "'a ctl_base_scheme \<Rightarrow> u32 \<Rightarrow> 'c io_request \<Rightarrow> 'c io_callback namespace \<Rightarrow>
   'c io_callback submission_queue \<Rightarrow> u16 \<Rightarrow> sqe \<Rightarrow> 'c io_callback submission_queue \<Rightarrow> bool" where
  "submitted c unmap r ns q cid e q' \<longleftrightarrow>
     submit c unmap r ns = Inr (Inr (), [sq_submit q'], ns\<lparr>ns_iosq := Some q'\<rparr>) \<and>
     issued (request_callback c ns r) cid e q q' \<and> describes c unmap ns q' r cid e \<and>
     other_lists c cid q q'"

lemma submit_sgl:
  assumes "ns_iosq ns = Some q" and "sq_inv q" and "sq_can_produce q" and "lists_ok c q"
    and "supports_sgl c" and "request_ok c ns (Rw_request sector bs k dir)"
    and "0 < dev_sector_size ns"
  shows "\<exists>cid e q'. submitted c unmap (Rw_request sector bs k dir) ns q cid e q'"
proof -
  have ok: "sgl_memory_ok q" "\<forall>b \<in> set bs. within_limits c ns b" "0 < block_sectors (take 32 bs)"
    using assms(4-6) by (simp_all add: lists_ok_def rw_sectors_def)
  from inout_data_sgl_effect [OF assms(1-3) ok(1) assms(5) ok(2) assms(7) refl refl ok(3), of sector k dir]
  obtain cid e q' buf where
    "inout_data c sector bs k dir ns = Inr (Inr (), [sq_submit q'], ns\<lparr>ns_iosq := Some q'\<rparr>)"
    "issued (Rw_callback k (of_nat (block_sectors (take 32 bs)) * dev_sector_size ns)) cid e q q'"
    "rw_command (dir = From_device) (ns_nsid ns) sector (block_sectors (take 32 bs)) e" "sqe_psdt e = 1"
    "sq_sgls q = Some buf"
    "sqe_sgl1 e = \<lparr>sgl_addr = ib_paddr buf + of_nat (512 * unat cid),
       sgl_len = of_nat (16 * length (take 32 bs)), sgl_res = 0, sgl_id = 0x30\<rparr>"
    "\<forall>i < length (take 32 bs). let d = sq_sgl_mem q' (unat cid * 32 + i) in
       sgl_id d = 0 \<and> sgl_addr d = blk_dma_addr (take 32 bs ! i) \<and>
       unat (sgl_len d) = unat (blk_num_sectors (take 32 bs ! i)) * unat (dev_sector_size ns)"
    "\<forall>j. j < unat cid * 32 \<or> unat cid * 32 + 32 \<le> j \<longrightarrow> sq_sgl_mem q' j = sq_sgl_mem q j"
    "keeps_lists q q'"
    by blast
  then have "submitted c unmap (Rw_request sector bs k dir) ns q cid e q'"
    unfolding submitted_def using assms(5)
    by (simp add: rw_sectors_def sgl_describes_def other_lists_def keeps_lists_def)
  then show ?thesis by blast
qed

lemma submit_prp:
  assumes "ns_iosq ns = Some q" and "sq_inv q" and "sq_can_produce q" and "lists_ok c q"
    and "\<not> supports_sgl c" and "request_ok c ns (Rw_request sector bs k dir)"
    and "0 < dev_sector_size ns"
  shows "\<exists>cid e q'. submitted c unmap (Rw_request sector bs k dir) ns q cid e q'"
proof -
  obtain b where b: "bs = [b]" using assms(5,6) by (auto simp: length_Suc_conv)
  define n where "n = unat (prp_sectors c ns b)"
  have n: "rw_sectors c ns bs = n" using assms(5) by (simp add: rw_sectors_def b n_def)
  have ok: "prp_memory_ok q" "0 < n"
    "unat (blk_dma_addr b) + n * unat (dev_sector_size ns) + 8192 < 2 ^ 64"
    using assms(4-6) n by (simp_all add: lists_ok_def b)
  from inout_data_prp_effect [OF assms(1-3) ok(1) assms(5) n_def ok(2) assms(7) refl ok(3), of sector k dir]
  obtain cid e q' cs pb where
    "inout_data c sector [b] k dir ns = Inr (Inr (), [sq_submit q'], ns\<lparr>ns_iosq := Some q'\<rparr>)"
    "issued (Rw_callback k (of_nat (n * unat (dev_sector_size ns)))) cid e q q'"
    "rw_command (dir = From_device) (ns_nsid ns) sector n e" "sqe_psdt e = 0"
    "sqe_prp1 e = blk_dma_addr b"
    "sq_prps q = Some pb"
    "\<forall>m. same_list (unat cid * 1024) (unat cid * 1024 + 1024) (sq_prp_mem q') m \<longrightarrow>
       walk_prps 1025 (read_list pb m cid)
         (unat (sqe_prp1 e)) (unat (sqe_prp2 e)) (n * unat (dev_sector_size ns)) = Some cs"
    "covered cs = [unat (blk_dma_addr b)..<unat (blk_dma_addr b) + n * unat (dev_sector_size ns)]"
    "\<forall>j. j < unat cid * 1024 \<or> unat cid * 1024 + 1024 \<le> j \<longrightarrow> sq_prp_mem q' j = sq_prp_mem q j"
    "keeps_lists q q'"
    by blast
  then have "submitted c unmap (Rw_request sector bs k dir) ns q cid e q'"
    unfolding submitted_def using assms(5) n
    by (auto simp: b prp_describes_def other_lists_def keeps_lists_def)
  then show ?thesis by blast
qed

lemma submit_wz:
  assumes "ns_iosq ns = Some q" and "sq_inv q" and "sq_can_produce q"
    and "request_ok c ns (Wz_request offset bs k)" and "\<not> bad_size (Wz_request offset bs k)"
  shows "\<exists>cid e q'. submitted c unmap (Wz_request offset bs k) ns q cid e q'"
proof -
  obtain b where b: "bs = [b]" using assms(4) by (auto simp: length_Suc_conv)
  have n: "blk_num_sectors b \<noteq> 0" "blk_num_sectors b \<le> 65536" using assms(5) by (auto simp: b)
  from dev_discard_effect [OF assms(1-3) n, of unmap offset k]
  obtain cid e q' where
    "dev_discard unmap offset [b] k False ns = Inr (Inr (), [sq_submit q'], ns\<lparr>ns_iosq := Some q'\<rparr>)"
    "issued (Wz_callback k) cid e q q'" "sqe_opc e = 8" "sqe_nsid e = ns_nsid ns"
    "slba_of e = offset + blk_sector b" "unat (sqe_nlb e) + 1 = unat (blk_num_sectors b)"
    "sqe_deac e = (if blk_flags b AND unmap \<noteq> 0 then 1 else 0)"
    "keeps_lists q q'" "sq_sgl_mem q' = sq_sgl_mem q" "sq_prp_mem q' = sq_prp_mem q"
    by blast
  then have "submitted c unmap (Wz_request offset bs k) ns q cid e q'"
    unfolding submitted_def by (simp add: b other_lists_def)
  then show ?thesis by blast
qed

lemma submit_effect:
  assumes "ns_iosq ns = Some q" and "sq_inv q" and "sq_can_produce q" and "lists_ok c q"
    and "request_ok c ns r" and "0 < dev_sector_size ns" and "\<not> bad_size r"
  obtains cid e q' where "submitted c unmap r ns q cid e q'"
proof -
  have "\<exists>cid e q'. submitted c unmap r ns q cid e q'"
  proof (cases r)
    case (Rw_request sector bs k dir)
    then show ?thesis
      using submit_sgl [OF assms(1-4)] submit_prp [OF assms(1-4)] assms(5,6)
      by (cases "supports_sgl c") blast+
  next
    case (Wz_request offset bs k)
    then show ?thesis using submit_wz [OF assms(1-3)] assms(5,7) by blast
  qed
  then show ?thesis using that by blast
qed

lemma submit_refused:
  assumes "ns_iosq ns = Some q" and "request_ok c ns r"
  shows "bad_size r \<Longrightarrow> submit c unmap r ns = Inr (Inl L4_EIO, [], ns)"
    and "\<not> bad_size r \<Longrightarrow> \<not> sq_can_produce q \<Longrightarrow> submit c unmap r ns = Inr (Inl L4_EBUSY, [], ns)"
proof -
  show "submit c unmap r ns = Inr (Inl L4_EIO, [], ns)" if "bad_size r"
    using that assms(2) by (cases r) (auto simp: length_Suc_conv dev_discard_def)
  show "submit c unmap r ns = Inr (Inl L4_EBUSY, [], ns)" if "\<not> bad_size r" "\<not> sq_can_produce q"
  proof (cases r)
    case (Rw_request sector bs k dir)
    have "supports_sgl c \<or> length bs = 1" using assms(2) by (auto simp: Rw_request split: if_splits)
    from inout_data_busy [OF assms(1) that(2) this] show ?thesis by (simp add: Rw_request)
  next
    case (Wz_request offset bs k)
    then obtain b where b: "bs = [b]" using assms(2) by (auto simp: length_Suc_conv)
    then show ?thesis
      using dev_discard_busy [OF assms(1) that(2), of b unmap offset k] that(1)
      by (auto simp: Wz_request)
  qed
qed

section \<open>Runs of the device\<close>

text \<open>
  The queue pair, and the request last issued under each command identifier (history). The namespace
  that the code works on has the geometry \<open>base\<close> and the queues of the pair.
\<close>

record 'c device_run =
  dv_qp :: "'c io_callback qpair"
  dv_req :: "u16 \<Rightarrow> 'c io_request"

definition ns_of :: "'c io_callback namespace \<Rightarrow> 'c io_callback qpair \<Rightarrow> 'c io_callback namespace" where
  "ns_of base p = base\<lparr>ns_iocq := Some (s_cq p), ns_iosq := Some (s_sq p)\<rparr>"

lemma ns_of_simps [simp]:
  "ns_iosq (ns_of base p) = Some (s_sq p)" "ns_iocq (ns_of base p) = Some (s_cq p)"
  "ns_nsid (ns_of base p) = ns_nsid base"
  "dev_sector_size (ns_of base p) = dev_sector_size base"
  "max_size c (ns_of base p) = max_size c base"
  "ns_of (ns_of base p) p' = ns_of base p'"
  by (simp_all add: ns_of_def dev_sector_size_def max_size_def)

lemma request_ns_of [simp]:
  "rw_sectors c (ns_of base p) bs = rw_sectors c base bs"
  "request_callback c (ns_of base p) r = request_callback c base r"
  "request_ok c (ns_of base p) r = request_ok c base r"
  "describes c unmap (ns_of base p) q r cid e = describes c unmap base q r cid e"
proof -
  show n: "rw_sectors c (ns_of base p) bs = rw_sectors c base bs" for bs
    by (simp add: rw_sectors_def prp_sectors_def)
  show "request_callback c (ns_of base p) r = request_callback c base r"
    by (cases r) (simp_all add: n)
  show "request_ok c (ns_of base p) r = request_ok c base r"
    by (cases r) (simp_all add: n within_limits_def)
  show "describes c unmap (ns_of base p) q r cid e = describes c unmap base q r cid e"
    by (cases r) (simp_all add: n)
qed

text \<open>
  A step is a request of the client, accepted or refused, or one of the other steps of the queue
  pair: the controller fetches or posts, the handler consumes an entry or rings the doorbell. An
  accepted request rings the submission doorbell with the value the code writes.
\<close>

definition accepted :: "'c io_request \<Rightarrow> 'c io_callback submission_queue \<Rightarrow> reg_write \<Rightarrow>
    'c device_run \<Rightarrow> 'c device_run" where
  "accepted r q w s =
     (let p = dv_qp s; e = sq_entries q ! unat (sq_tail (s_sq p)) in
      \<lparr>dv_qp = (qp_issue e (the (pending q (sqe_cid e))) q p)\<lparr>s_sqdb := ucast (snd w)\<rparr>,
       dv_req = (dv_req s)(sqe_cid e := r)\<rparr>)"

inductive dev_step ::
  "'a ctl_base_scheme \<Rightarrow> u32 \<Rightarrow> 'c io_callback namespace \<Rightarrow> 'c device_run \<Rightarrow> 'c device_run \<Rightarrow> bool"
  for c :: "'a ctl_base_scheme" and unmap base where
  accept: "request_ok c base r \<Longrightarrow>
    submit c unmap r (ns_of base (dv_qp s)) = Inr (Inr (), [w], ns') \<Longrightarrow> ns_iosq ns' = Some q \<Longrightarrow>
    dev_step c unmap base s (accepted r q w s)"
| refuse: "request_ok c base r \<Longrightarrow>
    submit c unmap r (ns_of base (dv_qp s)) = Inr (Inl err, [], ns_of base (dv_qp s)) \<Longrightarrow>
    dev_step c unmap base s s"
| queue: "qp_step (dv_qp s) p \<Longrightarrow> h_issued p = h_issued (dv_qp s) \<Longrightarrow>
    dev_step c unmap base s (s\<lparr>dv_qp := p\<rparr>)"

inductive_cases dev_stepE: "dev_step c unmap base s t"

text \<open>The start is what the namespace constructor leaves, its list memory placed as promised.\<close>

definition dev_start ::
  "'c io_callback submission_queue \<Rightarrow> completion_queue \<Rightarrow> (u16 \<Rightarrow> 'c io_request) \<Rightarrow> 'c device_run" where
  "dev_start sq cq req = \<lparr>dv_qp = qp_start sq cq, dv_req = req\<rparr>"

inductive dev_reachable ::
  "'a ctl_base_scheme \<Rightarrow> u32 \<Rightarrow> 'c io_callback namespace \<Rightarrow> 'c device_run \<Rightarrow> bool"
  for c :: "'a ctl_base_scheme" and unmap base where
  start: "0 < dev_sector_size base \<Longrightarrow> ns_nsid base < 65536 \<Longrightarrow> sz1 \<noteq> 0 \<Longrightarrow> sz2 \<noteq> 0 \<Longrightarrow>
    submission_queue_new mem1 ans1 ans2 sz1 (ns_nsid base) dstrd
      (if supports_sgl c then of_nat Ioq_sgls else 0) = Inr sq \<Longrightarrow>
    completion_queue_new mem2 ans3 sz2 (ns_nsid base) dstrd = Inr cq \<Longrightarrow> lists_ok c sq \<Longrightarrow>
    dev_reachable c unmap base (dev_start sq cq req)"
| step: "dev_reachable c unmap base s \<Longrightarrow> dev_step c unmap base s t \<Longrightarrow> dev_reachable c unmap base t"

section \<open>The invariant of a run\<close>

definition dev_inv ::
  "'a ctl_base_scheme \<Rightarrow> u32 \<Rightarrow> 'c io_callback namespace \<Rightarrow> 'c device_run \<Rightarrow> bool" where
  "dev_inv c unmap base s \<longleftrightarrow>
     (let p = dv_qp s; q = s_sq p in
      qp_inv p \<and> lists_ok c q \<and> q_y q = ns_nsid base \<and> 0 < dev_sector_size base \<and> ns_nsid base < 65536 \<and>
      (\<forall>cid cb. pending q cid = Some cb \<longrightarrow>
         request_ok c base (dv_req s cid) \<and> cb = request_callback c base (dv_req s cid) \<and>
         describes c unmap base q (dv_req s cid) cid (a_cmd p cid)))"

lemma dev_invD:
  assumes "dev_inv c unmap base s"
  shows "qp_inv (dv_qp s)" and "lists_ok c (s_sq (dv_qp s))" and "q_y (s_sq (dv_qp s)) = ns_nsid base"
    and "0 < dev_sector_size base" and "ns_nsid base < 65536" and "sq_inv (s_sq (dv_qp s))"
    and "pending (s_sq (dv_qp s)) cid = Some cb \<Longrightarrow> request_ok c base (dv_req s cid) \<and>
      cb = request_callback c base (dv_req s cid) \<and>
      describes c unmap base (s_sq (dv_qp s)) (dv_req s cid) cid (a_cmd (dv_qp s) cid)"
  using assms by (simp_all add: dev_inv_def Let_def qp_inv_def inv_sq_def)

lemma prp_describes_same:
  assumes "prp_describes buf mem cid e addr sz"
    and "same_list (unat cid * 1024) (unat cid * 1024 + 1024) mem mem'"
  shows "prp_describes buf mem' cid e addr sz"
proof -
  obtain pb cs where "buf = Some pb" and "\<And>m. same_list (unat cid * 1024) (unat cid * 1024 + 1024) mem m \<Longrightarrow>
      walk_prps 1025 (read_list pb m cid)
        (unat addr) (unat (sqe_prp2 e)) sz = Some cs"
    and "covered cs = [unat addr..<unat addr + sz]"
    using assms(1) unfolding prp_describes_def by blast
  with same_list_trans [OF assms(2)] assms(1) show ?thesis
    unfolding prp_describes_def by blast
qed

text \<open>A command stays described while other commands' lists are written.\<close>

lemma describes_other:
  assumes d: "describes c unmap base q r cid e" and o: "other_lists c cid' q q'" and ne: "cid \<noteq> cid'"
  shows "describes c unmap base q' r cid e"
proof (cases r)
  case (Wz_request offset bs k)
  with d show ?thesis by simp
next
  case (Rw_request sector bs k dir)
  have u: "unat cid < unat cid' \<or> unat cid' < unat cid" using ne by (simp add: unat_eq_iff [symmetric] neq_iff)
  show ?thesis
  proof (cases "supports_sgl c")
    case True
    have "sq_sgl_mem q' (unat cid * 32 + i) = sq_sgl_mem q (unat cid * 32 + i)" if "i < 32" for i
    proof -
      have "unat cid * 32 + i < unat cid' * 32 \<or> unat cid' * 32 + 32 \<le> unat cid * 32 + i"
        using u that by auto
      with o True show ?thesis unfolding other_lists_def by metis
    qed
    with d o True show ?thesis
      by (simp add: Rw_request sgl_describes_def other_lists_def keeps_lists_def)
  next
    case False
    have "same_list (unat cid * 1024) (unat cid * 1024 + 1024) (sq_prp_mem q) (sq_prp_mem q')"
      unfolding same_list_def
    proof (intro allI impI)
      fix j assume "unat cid * 1024 \<le> j \<and> j < unat cid * 1024 + 1024"
      then have "j < unat cid' * 1024 \<or> unat cid' * 1024 + 1024 \<le> j" using u by auto
      with o False show "sq_prp_mem q' j = sq_prp_mem q j" unfolding other_lists_def by metis
    qed
    from prp_describes_same [OF _ this] d o False show ?thesis
      by (simp add: Rw_request other_lists_def keeps_lists_def)
  qed
qed

lemma describes_same:
  assumes "sq_sgls q' = sq_sgls q" and "sq_prps q' = sq_prps q"
    and "sq_sgl_mem q' = sq_sgl_mem q" and "sq_prp_mem q' = sq_prp_mem q"
  shows "describes c unmap base q' r cid e = describes c unmap base q r cid e"
  by (cases r) (simp_all add: assms)

lemma lists_ok_other:
  "other_lists c cid q q' \<Longrightarrow> q_size q' = q_size q \<Longrightarrow> lists_ok c q' = lists_ok c q"
  by (auto simp: lists_ok_def other_lists_def keeps_lists_def sgl_memory_ok_def prp_memory_ok_def
      split: option.splits)

lemma accepted_submitted:
  assumes inv: "sq_inv (s_sq (dv_qp s))" and "submitted c unmap r ns (s_sq (dv_qp s)) cid e q"
  shows "accepted r q (sq_submit q) s =
    \<lparr>dv_qp = qp_issue e (request_callback c ns r) q (dv_qp s), dv_req = (dv_req s)(cid := r)\<rparr>"
proof -
  have i: "issued (request_callback c ns r) cid e (s_sq (dv_qp s)) q" using assms(2) by (simp add: submitted_def)
  have "sqe_cid e = cid" "pending q cid = Some (request_callback c ns r)" using i by (simp_all add: issued_def)
  with issued_entry [OF i inv] show ?thesis by (simp add: accepted_def Let_def qp_issue_def)
qed

lemma dev_inv_accepted:
  assumes inv: "dev_inv c unmap base s" and can: "sq_can_produce (s_sq (dv_qp s))"
    and ok: "request_ok c base r"
    and sub: "submitted c unmap r (ns_of base (dv_qp s)) (s_sq (dv_qp s)) cid e q"
  shows "dev_inv c unmap base (accepted r q (sq_submit q) s)"
proof -
  note D = dev_invD [OF inv]
  have i: "issued (request_callback c base r) cid e (s_sq (dv_qp s)) q"
    and d: "describes c unmap base q r cid e" and o: "other_lists c cid (s_sq (dv_qp s)) q"
    using sub by (simp_all add: submitted_def)
  have f: "sqe_cid e = cid" "pending q = (pending (s_sq (dv_qp s)))(cid \<mapsto> request_callback c base r)"
    "q_size q = q_size (s_sq (dv_qp s))" "q_y q = q_y (s_sq (dv_qp s))"
    using i by (simp_all add: issued_def)
  have "qp_inv (qp_issue e (request_callback c base r) q (dv_qp s))"
    by (rule qp_inv_issued [OF D(1) can i])
  moreover have "lists_ok c q" using D(2) lists_ok_other [OF o f(3)] by simp
  moreover have "describes c unmap base q (dv_req s cid') cid' (a_cmd (dv_qp s) cid')"
    if "cid' \<noteq> cid" "pending (s_sq (dv_qp s)) cid' = Some cb" for cid' cb
    using describes_other [OF _ o that(1)] D(7) [OF that(2)] by blast
  ultimately show ?thesis
    using D(3-5,7) d ok f(1,2,4)
    by (auto simp: accepted_submitted [OF D(6) sub] dev_inv_def Let_def)
qed

text \<open>A request, from a state in which the invariant holds.\<close>

lemma submit_cases:
  assumes inv: "dev_inv c unmap base s" and ok: "request_ok c base r"
  obtains (refused) err where "submit c unmap r (ns_of base (dv_qp s)) = Inr (Inl err, [], ns_of base (dv_qp s))"
      and "err = (if bad_size r then L4_EIO else L4_EBUSY)"
      and "bad_size r \<or> \<not> sq_can_produce (s_sq (dv_qp s))"
    | (accepted) cid e q where "\<not> bad_size r" and "sq_can_produce (s_sq (dv_qp s))"
      and "submitted c unmap r (ns_of base (dv_qp s)) (s_sq (dv_qp s)) cid e q"
proof (cases "bad_size r \<or> \<not> sq_can_produce (s_sq (dv_qp s))")
  case True
  then show ?thesis
    using submit_refused [of "ns_of base (dv_qp s)" "s_sq (dv_qp s)" c r unmap] ok refused by auto
next
  case False
  note D = dev_invD [OF inv]
  obtain cid e q where "submitted c unmap r (ns_of base (dv_qp s)) (s_sq (dv_qp s)) cid e q"
    by (rule submit_effect [of "ns_of base (dv_qp s)" "s_sq (dv_qp s)" c r unmap])
      (use False D ok in simp_all)
  with False show ?thesis using accepted by blast
qed

text \<open>The steps of the queue pair that issue nothing.\<close>

lemmas qp_step_cases = qp_stepE [consumes 1, case_names issue fetch post take ring]

lemmas dev_step_cases = dev_stepE [consumes 1, case_names accept refuse queue]

lemma qp_quiet_frame:
  assumes st: "qp_step p p'" and same: "h_issued p' = h_issued p" and inv: "qp_inv p"
  shows "a_cmd p' = a_cmd p" and "q_size (s_sq p') = q_size (s_sq p)" and "q_y (s_sq p') = q_y (s_sq p)"
    and "sq_sgls (s_sq p') = sq_sgls (s_sq p)" and "sq_prps (s_sq p') = sq_prps (s_sq p)"
    and "sq_sgl_mem (s_sq p') = sq_sgl_mem (s_sq p)" and "sq_prp_mem (s_sq p') = sq_prp_mem (s_sq p)"
    and "(pending (s_sq p') = pending (s_sq p) \<and> h_invoked p' = h_invoked p) \<or>
      (\<exists>cid cb st. pending (s_sq p) cid = Some cb \<and> pending (s_sq p') = (pending (s_sq p))(cid := None) \<and>
         h_invoked p' = h_invoked p @ [(cb, st)])"
proof -
  have "a_cmd p' = a_cmd p \<and> q_size (s_sq p') = q_size (s_sq p) \<and> q_y (s_sq p') = q_y (s_sq p) \<and>
      sq_sgls (s_sq p') = sq_sgls (s_sq p) \<and> sq_prps (s_sq p') = sq_prps (s_sq p) \<and>
      sq_sgl_mem (s_sq p') = sq_sgl_mem (s_sq p) \<and> sq_prp_mem (s_sq p') = sq_prp_mem (s_sq p) \<and>
      ((pending (s_sq p') = pending (s_sq p) \<and> h_invoked p' = h_invoked p) \<or>
      (\<exists>cid cb st. pending (s_sq p) cid = Some cb \<and> pending (s_sq p') = (pending (s_sq p))(cid := None) \<and>
         h_invoked p' = h_invoked p @ [(cb, st)]))"
    using st
  proof (cases rule: qp_step_cases)
    case (take c cq cb st sq)
    have S: "sq_inv (s_sq p)" using inv by (simp add: qp_inv_def inv_sq_def Let_def)
    note ce = consume_effect [OF inv take(2)]
    obtain cb' where cb': "pending (s_sq p) (cqe_cid c) = Some cb'"
      using ce(5) by (auto simp: completes_def)
    then have "cb = cb'" "sq = sq_completed c (s_sq p)" using sq_complete_ok [OF S cb'] take(3) by simp_all
    with cb' take(1) sq_completed_inv(2) [OF S ce(5)] show ?thesis
      by (simp add: sq_completed_def) blast
  qed (use same in simp_all)
  then show "a_cmd p' = a_cmd p" and "q_size (s_sq p') = q_size (s_sq p)"
    and "q_y (s_sq p') = q_y (s_sq p)"
    and "sq_sgls (s_sq p') = sq_sgls (s_sq p)" and "sq_prps (s_sq p') = sq_prps (s_sq p)"
    and "sq_sgl_mem (s_sq p') = sq_sgl_mem (s_sq p)" and "sq_prp_mem (s_sq p') = sq_prp_mem (s_sq p)"
    and "(pending (s_sq p') = pending (s_sq p) \<and> h_invoked p' = h_invoked p) \<or>
      (\<exists>cid cb st. pending (s_sq p) cid = Some cb \<and> pending (s_sq p') = (pending (s_sq p))(cid := None) \<and>
         h_invoked p' = h_invoked p @ [(cb, st)])"
    by blast+
qed

lemma dev_inv_queue:
  assumes inv: "dev_inv c unmap base s" and st: "qp_step (dv_qp s) p" and same: "h_issued p = h_issued (dv_qp s)"
  shows "dev_inv c unmap base (s\<lparr>dv_qp := p\<rparr>)"
proof -
  note D = dev_invD [OF inv]
  note F = qp_quiet_frame [OF st same D(1)]
  have "qp_inv p" by (rule qp_step_inv [OF st D(1)])
  moreover have "lists_ok c (s_sq p)"
    using D(2) F(2,4,5)
    by (cases "supports_sgl c")
      (auto simp: lists_ok_def sgl_memory_ok_def prp_memory_ok_def split: option.splits)
  moreover have "pending (s_sq (dv_qp s)) cid = Some cb" if "pending (s_sq p) cid = Some cb" for cid cb
    using that F(8) by (auto split: if_splits)
  ultimately show ?thesis
    using D(3-5,7) F(1,3) by (auto simp: dev_inv_def Let_def describes_same [OF F(4-7)])
qed

lemma accept_submitted:
  assumes inv: "dev_inv c unmap base s" and ok: "request_ok c base r"
    and sub: "submit c unmap r (ns_of base (dv_qp s)) = Inr (Inr (), [w], ns')" and q: "ns_iosq ns' = Some q"
  obtains cid e where "sq_can_produce (s_sq (dv_qp s))" and "w = sq_submit q"
    and "submitted c unmap r (ns_of base (dv_qp s)) (s_sq (dv_qp s)) cid e q"
proof (cases rule: submit_cases [OF inv ok, case_names refused accepted])
  case (refused err)
  with sub show ?thesis by simp
next
  case (accepted cid e q')
  then have "q = q' \<and> w = sq_submit q'" using sub q by (auto simp: submitted_def)
  with accepted show ?thesis using that by blast
qed

lemma dev_step_inv: "dev_step c unmap base s t \<Longrightarrow> dev_inv c unmap base s \<Longrightarrow> dev_inv c unmap base t"
proof (induction rule: dev_step.induct)
  case (accept r s w ns' q)
  obtain cid e where "sq_can_produce (s_sq (dv_qp s))" "w = sq_submit q"
    "submitted c unmap r (ns_of base (dv_qp s)) (s_sq (dv_qp s)) cid e q"
    by (rule accept_submitted [OF accept.prems accept.hyps])
  with dev_inv_accepted [OF accept.prems _ accept.hyps(1)] show ?case by simp
next
  case (queue s p)
  then show ?case by (intro dev_inv_queue)
qed

lemma dev_reachable_inv: "dev_reachable c unmap base s \<Longrightarrow> dev_inv c unmap base s"
proof (induction rule: dev_reachable.induct)
  case (start sz1 sz2 mem1 ans1 ans2 dstrd sq mem2 ans3 cq req)
  note f = submission_queue_new_fields(2) [OF start.hyps(5)] submission_queue_new_inv(2) [OF start.hyps(5,3)]
  have s: "s_sq (qp_start sq cq) = sq" by (simp add: qp_start_def)
  have "qp_inv (qp_start sq cq)" by (rule qp_inv_start [OF start.hyps(5,3,6,4)])
  with start.hyps(1,2,7) f s show ?case by (simp add: dev_inv_def dev_start_def Let_def)
next
  case (step s t)
  show ?case by (rule dev_step_inv [OF step.hyps(2) step.IH])
qed

section \<open>What the client sees\<close>

text \<open>
  The pool of open requests: each with its callback and the number of bytes it will report, and the
  calls made so far. A request enters once; the controller decides when it leaves and whether with
  success.
\<close>

record 'c pool =
  pool_open :: "('c \<times> u64) multiset"
  pool_done :: "('c \<times> unit l4_ret \<times> u64) list"

inductive pool_step ::
  "'a ctl_base_scheme \<Rightarrow> 'd namespace \<Rightarrow> 'c pool \<Rightarrow> 'c pool \<Rightarrow> bool"
  for c :: "'a ctl_base_scheme" and base where
  admit: "request_ok c base r \<Longrightarrow>
    pool_step c base p (p\<lparr>pool_open := add_mset (request_client r, request_bytes c base r) (pool_open p)\<rparr>)"
| finish: "(k, n) \<in># pool_open p \<Longrightarrow>
    pool_step c base p (p\<lparr>pool_open := pool_open p - {#(k, n)#},
      pool_done := pool_done p @ [(k, if ok then Inr () else Inl L4_EIO, if ok then n else 0)]\<rparr>)"

fun callback_promise :: "'c io_callback \<Rightarrow> 'c \<times> u64" where
  "callback_promise (Rw_callback k n) = (k, n)"
| "callback_promise (Wz_callback k) = (k, 0)"

definition dev_pool :: "'c device_run \<Rightarrow> 'c pool" where
  "dev_pool s = \<lparr>pool_open = image_mset callback_promise (map_values (pending (s_sq (dv_qp s)))),
     pool_done = map (\<lambda>(cb, st). run_io_callback cb st) (h_invoked (dv_qp s))\<rparr>"

lemma callback_promise_request:
  "callback_promise (request_callback c ns r) = (request_client r, request_bytes c ns r)"
  by (cases r) simp_all

lemma run_callback_promise:
  "callback_promise cb = (k, n) \<Longrightarrow>
   run_io_callback cb st = (k, if st = 0 then Inr () else Inl L4_EIO, if st = 0 then n else 0)"
  by (cases cb) auto

lemma pool_take:
  assumes "pending q cid = Some cb" and "pending q' = (pending q)(cid := None)"
  shows "callback_promise cb \<in># image_mset callback_promise (map_values (pending q))"
    and "image_mset callback_promise (map_values (pending q')) =
      image_mset callback_promise (map_values (pending q)) - {#callback_promise cb#}"
  using map_values_clear [of "pending q" cid, OF assms(1)] assms(2) by simp_all

text \<open>
  C1: The block device implements the pool of open requests. Whatever the order of requests,
  controller actions and handler steps, each of them either leaves the client's view alone, or
  admits one request that keeps to the interface, or finishes one open request by calling its own
  callback: with success and the number of bytes promised when the command was submitted, or with
  \<^verbatim>\<open>-L4_EIO\<close> and no bytes.
\<close>

theorem device_refines_pool:
  assumes "dev_reachable c unmap base s" and "dev_step c unmap base s t"
  shows "dev_pool t = dev_pool s \<or> pool_step c base (dev_pool s) (dev_pool t)"
  using assms(2)
proof (cases rule: dev_step_cases)
  case (accept r w ns' q)
  note inv = dev_reachable_inv [OF assms(1)]
  obtain cid e where a: "w = sq_submit q"
    "submitted c unmap r (ns_of base (dv_qp s)) (s_sq (dv_qp s)) cid e q"
    by (rule accept_submitted [OF inv accept(2-4)]) blast
  then have "issued (request_callback c base r) cid e (s_sq (dv_qp s)) q" by (simp add: submitted_def)
  then have "dev_pool t = (dev_pool s)\<lparr>pool_open :=
      add_mset (request_client r, request_bytes c base r) (pool_open (dev_pool s))\<rparr>"
    using accepted_submitted [OF dev_invD(6) [OF inv] a(2)] a(1) accept(1)
    by (simp add: dev_pool_def issued_def map_values_upd callback_promise_request)
  with pool_step.admit [OF accept(2)] show ?thesis by simp
next
  case refuse
  then show ?thesis by simp
next
  case (queue p)
  note F = qp_quiet_frame(8) [OF queue(2,3) dev_invD(1) [OF dev_reachable_inv [OF assms(1)]]]
  then consider "dev_pool t = dev_pool s"
    | cid cb st where "pending (s_sq (dv_qp s)) cid = Some cb"
      "pending (s_sq p) = (pending (s_sq (dv_qp s)))(cid := None)"
      "h_invoked p = h_invoked (dv_qp s) @ [(cb, st)]"
    using queue(1) by (auto simp: dev_pool_def)
  then show ?thesis
  proof cases
    case 2
    obtain k n where kn: "callback_promise cb = (k, n)" by (cases "callback_promise cb")
    note pt = pool_take [OF 2(1,2), unfolded kn]
    have "dev_pool t = (dev_pool s)\<lparr>pool_open := pool_open (dev_pool s) - {#(k, n)#},
        pool_done := pool_done (dev_pool s) @
          [(k, if st = 0 then Inr () else Inl L4_EIO, if st = 0 then n else 0)]\<rparr>"
      using pt(2) 2(3) queue(1) by (simp add: dev_pool_def run_callback_promise [OF kn])
    with pool_step.finish [of k n "dev_pool s" c base "st = 0"] pt(1) show ?thesis
      by (simp add: dev_pool_def)
  qed simp
qed

text \<open>
  C2: While a command waits in the submission ring or is being executed, what the driver prepared
  for it stays in place: the command is the one its request asked for, its callback is still the
  one waiting, and the PRP list or SGL descriptors in the queue's memory still name exactly the
  bytes of that request, whatever has been submitted, refused or completed since. Both lie where
  the entry points to: at the command's own place behind the physical address of the queue's list
  or descriptor memory, and nowhere else.
\<close>

theorem outstanding_transfers_intact:
  assumes "dev_reachable c unmap base s"
    and "e \<in> set (map fst (drop (a_fetched (dv_qp s)) (h_issued (dv_qp s))) @ d_exec (dv_qp s))"
    and "r = dv_req s (sqe_cid e)"
  shows "pending (s_sq (dv_qp s)) (sqe_cid e) = Some (request_callback c base r) \<and>
    request_ok c base r \<and> describes c unmap base (s_sq (dv_qp s)) r (sqe_cid e) e"
proof -
  note D = dev_invD [OF dev_reachable_inv [OF assms(1)]]
  have i: "inv_cids (dv_qp s)" "inv_cmd (dv_qp s)" using D(1) by (simp_all add: qp_inv_def)
  obtain cb where cb: "pending (s_sq (dv_qp s)) (sqe_cid e) = Some cb"
    using cids_outstanding(1) [OF i(1) assms(2)] by blast
  have "a_cmd (dv_qp s) (sqe_cid e) = e" using i(2) assms(2) unfolding inv_cmd_def by blast
  with D(7) [OF cb] cb assms(3) show ?thesis by simp
qed

text \<open>
  C10: No request that keeps to the interface makes the driver fail an assertion, dereference null or
  leave a vector, whatever happened before. It is refused with \<^verbatim>\<open>-L4_EIO\<close> when no Write Zeroes command
  can name its size and with \<^verbatim>\<open>-L4_EBUSY\<close> when the ring has no room, and then nothing changes;
  otherwise it is accepted, with one doorbell write that announces the new tail.
\<close>

theorem device_requests_safe:
  assumes "dev_reachable c unmap base s" and "request_ok c base r"
  defines "ns \<equiv> ns_of base (dv_qp s)"
  shows "if bad_size r then submit c unmap r ns = Inr (Inl L4_EIO, [], ns)
    else if \<not> sq_can_produce (s_sq (dv_qp s)) then submit c unmap r ns = Inr (Inl L4_EBUSY, [], ns)
    else \<exists>q. submit c unmap r ns = Inr (Inr (), [sq_submit q], ns\<lparr>ns_iosq := Some q\<rparr>) \<and>
      dev_step c unmap base s (accepted r q (sq_submit q) s)"
proof (cases rule: submit_cases [OF dev_reachable_inv [OF assms(1)] assms(2), case_names refused accepted])
  case (refused err)
  then show ?thesis by (cases "bad_size r") (simp_all add: ns_def)
next
  case (accepted cid e q)
  then have sub: "submit c unmap r ns = Inr (Inr (), [sq_submit q], ns\<lparr>ns_iosq := Some q\<rparr>)"
    by (simp add: submitted_def ns_def)
  have "dev_step c unmap base s (accepted r q (sq_submit q) s)"
    by (rule dev_step.accept [OF assms(2) sub [unfolded ns_def]]) simp
  with sub accepted(1,2) show ?thesis by auto
qed

end
