(* ===== verification/Device_Irq.thy ===== *)
theory Device_Irq
  imports Device_Runs
begin

text \<open>
  The interrupt handler as part of a run of the device, and what the device owes: from every
  reachable state all open requests can be answered. Ends with a concrete run.
\<close>

section \<open>The interrupt handler in a run\<close>

text \<open>
  The client's code in a callback may submit further requests, any number of them; their results
  are the client's business.
\<close>

fun submit_all ::
  "'a ctl_base_scheme \<Rightarrow> u32 \<Rightarrow> 'c io_request list \<Rightarrow> 'c io_callback namespace \<Rightarrow>
   'c io_callback namespace" where
  "submit_all c unmap [] ns = ns"
| "submit_all c unmap (r # rs) ns =
     (case submit c unmap r ns of
        Inl err \<Rightarrow> ns
      | Inr (ret, ws, ns1) \<Rightarrow> submit_all c unmap rs ns1)"

definition requests_only ::
  "'a ctl_base_scheme \<Rightarrow> u32 \<Rightarrow> 'c io_callback namespace \<Rightarrow>
   ('c io_callback \<Rightarrow> u16 \<Rightarrow> 'c io_callback namespace \<Rightarrow> 'c io_callback namespace) \<Rightarrow> bool" where
  "requests_only c unmap base run \<longleftrightarrow>
     (\<forall>cb st ns. \<exists>rs. list_all (request_ok c base) rs \<and> run cb st ns = submit_all c unmap rs ns)"

abbreviation dev_steps ::
  "'a ctl_base_scheme \<Rightarrow> u32 \<Rightarrow> 'c io_callback namespace \<Rightarrow> 'c device_run \<Rightarrow> 'c device_run \<Rightarrow> bool" where
  "dev_steps c unmap base \<equiv> (dev_step c unmap base)\<^sup>*\<^sup>*"

lemma dev_steps_inv: "dev_steps c unmap base s t \<Longrightarrow> dev_inv c unmap base s \<Longrightarrow> dev_inv c unmap base t"
  by (induction rule: rtranclp_induct) (blast intro: dev_step_inv)+

text \<open>What requests leave alone.\<close>

definition same_answers :: "'cb qpair \<Rightarrow> 'cb qpair \<Rightarrow> bool" where
  "same_answers p p' \<longleftrightarrow> s_cq p' = s_cq p \<and> h_invoked p' = h_invoked p \<and> a_posted p' = a_posted p \<and>
     a_consumed p' = a_consumed p"

lemma same_answers_trans: "same_answers p p' \<Longrightarrow> same_answers p' p'' \<Longrightarrow> same_answers p p''"
  by (simp add: same_answers_def)

lemma submit_one_runs:
  assumes inv: "dev_inv c unmap base s" and ok: "request_ok c base r"
  obtains t ret ws where "submit c unmap r (ns_of base (dv_qp s)) = Inr (ret, ws, ns_of base (dv_qp t))"
    and "dev_step c unmap base s t" and "same_answers (dv_qp s) (dv_qp t)"
proof (cases rule: submit_cases [OF inv ok, case_names refused accepted])
  case (refused err)
  then show ?thesis
    using that dev_step.refuse [OF ok refused(1)] by (simp add: same_answers_def)
next
  case (accepted cid e q)
  let ?t = "accepted r q (sq_submit q) s"
  have sub: "submit c unmap r (ns_of base (dv_qp s)) =
      Inr (Inr (), [sq_submit q], (ns_of base (dv_qp s))\<lparr>ns_iosq := Some q\<rparr>)"
    using accepted(3) by (simp add: submitted_def)
  have t: "dv_qp ?t = qp_issue e (request_callback c (ns_of base (dv_qp s)) r) q (dv_qp s)"
    using accepted_submitted [OF dev_invD(6) [OF inv] accepted(3)] by simp
  have ns: "(ns_of base (dv_qp s))\<lparr>ns_iosq := Some q\<rparr> = ns_of base (dv_qp ?t)"
    by (simp add: t ns_of_def)
  have "dev_step c unmap base s ?t" by (rule dev_step.accept [OF ok sub]) simp
  then show ?thesis by (rule that [OF sub [unfolded ns]]) (simp add: t same_answers_def)
qed

lemma submit_all_runs:
  assumes "dev_inv c unmap base s" and "list_all (request_ok c base) rs"
  obtains t where "submit_all c unmap rs (ns_of base (dv_qp s)) = ns_of base (dv_qp t)"
    and "dev_steps c unmap base s t" and "same_answers (dv_qp s) (dv_qp t)"
proof -
  have "\<exists>t. submit_all c unmap rs (ns_of base (dv_qp s)) = ns_of base (dv_qp t) \<and>
      dev_steps c unmap base s t \<and> same_answers (dv_qp s) (dv_qp t)"
    using assms
  proof (induction rs arbitrary: s)
    case Nil
    then show ?case by (intro exI [of _ s]) (simp add: same_answers_def)
  next
    case (Cons r rs)
    obtain s1 ret ws where s1:
      "submit c unmap r (ns_of base (dv_qp s)) = Inr (ret, ws, ns_of base (dv_qp s1))"
      "dev_step c unmap base s s1" "same_answers (dv_qp s) (dv_qp s1)"
      by (rule submit_one_runs [OF Cons.prems(1), of r]) (use Cons.prems(2) in simp)
    obtain t where t: "submit_all c unmap rs (ns_of base (dv_qp s1)) = ns_of base (dv_qp t)"
      "dev_steps c unmap base s1 t" "same_answers (dv_qp s1) (dv_qp t)"
      using Cons.IH [of s1] dev_step_inv [OF s1(2) Cons.prems(1)] Cons.prems(2) by auto
    then show ?case
      using s1 same_answers_trans by (intro exI [of _ t]) (auto intro: converse_rtranclp_into_rtranclp)
  qed
  then show ?thesis using that by blast
qed

text \<open>One round of the handler: consume, call back with the client's requests, ring the doorbell.\<close>

lemma irq_round_none:
  assumes inv: "dev_inv c unmap base s" and fin: "a_consumed (dv_qp s) = length (a_posted (dv_qp s))"
  shows "ns_irq_round run (ns_of base (dv_qp s)) = Inr None"
proof (rule ns_irq_round_empty)
  have "inv_cq (dv_qp s)" using dev_invD(1) [OF inv] by (simp add: qp_inv_def)
  with fin show "cq_tracks (s_cq (dv_qp s)) (a_posted (dv_qp s)) (length (a_posted (dv_qp s)))"
    by (simp add: inv_cq_def Let_def)
qed simp_all

lemma irq_round_runs:
  assumes inv: "dev_inv c unmap base s" and run: "requests_only c unmap base run"
    and more: "a_consumed (dv_qp s) < length (a_posted (dv_qp s))"
  obtains ev t where "ns_irq_round run (ns_of base (dv_qp s)) = Inr (Some (ev, ns_of base (dv_qp t)))"
    and "dev_steps c unmap base s t" and "h_invoked (dv_qp t) = h_invoked (dv_qp s) @ [fst ev]"
    and "a_posted (dv_qp t) = a_posted (dv_qp s)" and "a_consumed (dv_qp t) = Suc (a_consumed (dv_qp s))"
    and "s_cqdb (dv_qp t) = ucast (snd (snd ev))"
proof -
  let ?p = "dv_qp s"
  note D = dev_invD [OF inv]
  have T: "cq_tracks (s_cq ?p) (a_posted ?p) (a_consumed ?p)"
    using D(1) by (simp add: qp_inv_def inv_cq_def Let_def)
  obtain cq where cons: "cq_consume (s_cq ?p) = (Some (a_posted ?p ! a_consumed ?p), cq)"
    by (rule cq_consume_next [OF T more])
  let ?c = "a_posted ?p ! a_consumed ?p"
  note ce = consume_effect [OF D(1) cons]
  obtain cb where cb: "pending (s_sq ?p) (cqe_cid ?c) = Some cb" using ce(5) by (auto simp: completes_def)
  note compl = sq_complete_ok [OF D(6) cb]
  define p1 where "p1 = ?p\<lparr>s_cq := cq, s_sq := sq_completed ?c (s_sq ?p),
    h_invoked := h_invoked ?p @ [(cb, cqe_sf ?c)],
    a_head := a_fetches ?p ! a_consumed ?p, a_consumed := Suc (a_consumed ?p)\<rparr>"
  have take: "dev_step c unmap base s (s\<lparr>dv_qp := p1\<rparr>)" (is "dev_step _ _ _ _ ?s1")
    unfolding p1_def by (rule dev_step.queue [OF qp_step.take [OF cons compl]]) simp
  obtain rs where rs: "list_all (request_ok c base) rs"
    "run cb (cqe_sf ?c) (ns_of base p1) = submit_all c unmap rs (ns_of base p1)"
    using run unfolding requests_only_def by blast
  obtain t where t: "submit_all c unmap rs (ns_of base (dv_qp ?s1)) = ns_of base (dv_qp t)"
    "dev_steps c unmap base ?s1 t" "same_answers (dv_qp ?s1) (dv_qp t)"
    by (rule submit_all_runs [OF dev_step_inv [OF take inv] rs(1)])
  let ?t = "t\<lparr>dv_qp := (dv_qp t)\<lparr>s_cqdb := ucast (snd (cq_complete (s_cq (dv_qp t)))),
    a_rung := a_consumed (dv_qp t)\<rparr>\<rparr>"
  have ring: "dev_step c unmap base t ?t" by (rule dev_step.queue [OF qp_step.ring]) simp
  have id: "ns_qid (ns_of base ?p) = Inr (ucast (ns_nsid base))" using D(5) by (simp add: ns_qid_def)
  have ns1: "(ns_of base ?p)\<lparr>ns_iocq := Some cq, ns_iosq := Some (sq_completed ?c (s_sq ?p))\<rparr> = ns_of base p1"
    by (simp add: ns_of_def p1_def)
  have "ns_irq_round run (ns_of base ?p) =
      Inr (Some (((cb, cqe_sf ?c), cq_complete (s_cq (dv_qp t))), ns_of base (dv_qp t)))"
    using cons compl id ce(6) D(3) rs(2) t(1) by (simp add: ns_irq_round_def ns1)
  moreover have "ns_of base (dv_qp t) = ns_of base (dv_qp ?t)" by (simp add: ns_of_def)
  ultimately have round: "ns_irq_round run (ns_of base ?p) =
      Inr (Some (((cb, cqe_sf ?c), cq_complete (s_cq (dv_qp t))), ns_of base (dv_qp ?t)))" by simp
  have steps: "dev_steps c unmap base s ?t"
    using take t(2) ring by (meson converse_rtranclp_into_rtranclp rtranclp.rtrancl_into_rtrancl)
  show ?thesis
    by (rule that [OF round steps]) (use t(3) in \<open>simp_all add: same_answers_def p1_def\<close>)
qed

lemma irq_loop_runs:
  assumes "requests_only c unmap base run" and "dev_inv c unmap base s"
  shows "\<exists>evs t. ns_irq_loop run acc (ns_of base (dv_qp s)) = Some (Inr (acc @ evs, ns_of base (dv_qp t))) \<and>
    dev_steps c unmap base s t \<and> h_invoked (dv_qp t) = h_invoked (dv_qp s) @ map fst evs \<and>
    a_posted (dv_qp t) = a_posted (dv_qp s) \<and> a_consumed (dv_qp t) = length (a_posted (dv_qp s))"
  using assms(2)
proof (induction "length (a_posted (dv_qp s)) - a_consumed (dv_qp s)" arbitrary: s acc)
  case 0
  have "inv_cq (dv_qp s)" using dev_invD(1) [OF 0(2)] by (simp add: qp_inv_def)
  then have "cq_tracks (s_cq (dv_qp s)) (a_posted (dv_qp s)) (a_consumed (dv_qp s))"
    by (simp add: inv_cq_def Let_def)
  from cq_tracksD(5) [OF this] 0(1) have fin: "a_consumed (dv_qp s) = length (a_posted (dv_qp s))" by simp
  then show ?case
    using irq_round_none [OF 0(2) fin, of run]
    by (intro exI [of _ "[]"] exI [of _ s]) (simp add: ns_irq_loop.simps [of run acc])
next
  case (Suc d)
  then have "a_consumed (dv_qp s) < length (a_posted (dv_qp s))" by simp
  from irq_round_runs [OF Suc.prems assms(1) this] obtain ev s1 where s1:
    "ns_irq_round run (ns_of base (dv_qp s)) = Inr (Some (ev, ns_of base (dv_qp s1)))"
    "dev_steps c unmap base s s1" "h_invoked (dv_qp s1) = h_invoked (dv_qp s) @ [fst ev]"
    "a_posted (dv_qp s1) = a_posted (dv_qp s)" "a_consumed (dv_qp s1) = Suc (a_consumed (dv_qp s))"
    by metis
  have "d = length (a_posted (dv_qp s1)) - a_consumed (dv_qp s1)" using Suc.hyps(2) s1(4,5) by simp
  from Suc.hyps(1) [OF this dev_steps_inv [OF s1(2) Suc.prems], of "acc @ [ev]"]
  obtain evs t where t:
    "ns_irq_loop run (acc @ [ev]) (ns_of base (dv_qp s1)) = Some (Inr ((acc @ [ev]) @ evs, ns_of base (dv_qp t)))"
    "dev_steps c unmap base s1 t" "h_invoked (dv_qp t) = h_invoked (dv_qp s1) @ map fst evs"
    "a_posted (dv_qp t) = a_posted (dv_qp s1)" "a_consumed (dv_qp t) = length (a_posted (dv_qp s1))"
    by blast
  then show ?case
    using s1 by (intro exI [of _ "ev # evs"] exI [of _ t]) (simp add: ns_irq_loop.simps [of run acc])
qed

text \<open>What a call of the handler does to a run: the events are the callbacks it has invoked.\<close>

definition irq_served :: "'c device_run \<Rightarrow> 'c io_callback ns_irq_event list \<Rightarrow> 'c device_run \<Rightarrow> bool" where
  "irq_served s evs t \<longleftrightarrow>
     h_invoked (dv_qp t) = h_invoked (dv_qp s) @ map fst evs \<and> a_posted (dv_qp t) = a_posted (dv_qp s) \<and>
     a_consumed (dv_qp t) = length (a_posted (dv_qp t))"

lemma dev_steps_reachable:
  "dev_steps c unmap base s t \<Longrightarrow> dev_reachable c unmap base s \<Longrightarrow> dev_reachable c unmap base t"
  by (induction rule: rtranclp_induct) (blast intro: dev_reachable.step)+

lemma handle_irq_runs:
  assumes "dev_reachable c unmap base s" and "requests_only c unmap base run"
  obtains evs t where "ns_handle_irq run (ns_of base (dv_qp s)) = Inr (evs, ns_of base (dv_qp t))"
    and "dev_steps c unmap base s t" and "irq_served s evs t"
proof -
  obtain evs t where t: "ns_irq_loop run [] (ns_of base (dv_qp s)) = Some (Inr (evs, ns_of base (dv_qp t)))"
    "dev_steps c unmap base s t" "h_invoked (dv_qp t) = h_invoked (dv_qp s) @ map fst evs"
    "a_posted (dv_qp t) = a_posted (dv_qp s)" "a_consumed (dv_qp t) = length (a_posted (dv_qp s))"
    using irq_loop_runs [OF assms(2) dev_reachable_inv [OF assms(1)], of "[]"] by auto
  then show ?thesis by (intro that [of evs t]) (simp_all add: ns_handle_irq_def irq_served_def)
qed

text \<open>
  C9: The interrupt handler, as the code runs it, is a run of the device: from every reachable state
  and for every client that submits requests from its callbacks, it returns, without a failed
  assertion, in a state that steps of the device lead to, in which every posted entry has been
  consumed; the events it reports are the callbacks invoked on the way.
\<close>

theorem device_irq_runs:
  assumes "dev_reachable c unmap base s" and "requests_only c unmap base run"
  shows "\<exists>evs t. ns_handle_irq run (ns_of base (dv_qp s)) = Inr (evs, ns_of base (dv_qp t)) \<and>
    (dev_step c unmap base)\<^sup>*\<^sup>* s t \<and> dev_reachable c unmap base t \<and>
    h_invoked (dv_qp t) = h_invoked (dv_qp s) @ map fst evs \<and>
    a_posted (dv_qp t) = a_posted (dv_qp s) \<and> a_consumed (dv_qp t) = length (a_posted (dv_qp t))"
  by (rule handle_irq_runs [OF assms]) (use dev_steps_reachable assms(1) in \<open>fastforce simp: irq_served_def\<close>)

section \<open>Every open request can be answered\<close>

text \<open>Steps of the controller and the handler, and the work they still have to do.\<close>

definition qp_quiet :: "'cb qpair \<Rightarrow> 'cb qpair \<Rightarrow> bool" where
  "qp_quiet p p' \<longleftrightarrow> qp_step p p' \<and> h_issued p' = h_issued p"

definition qp_work :: "'cb qpair \<Rightarrow> nat" where
  "qp_work p = 3 * (length (h_issued p) - a_fetched p) + 2 * length (d_exec p) +
     (length (a_posted p) - a_consumed p)"

lemma progress_take:
  assumes inv: "qp_inv p" and more: "a_consumed p < length (a_posted p)"
  obtains p' where "qp_quiet p p'" and "qp_work p' < qp_work p" and "q_size (s_cq p') = q_size (s_cq p)"
proof -
  have "cq_tracks (s_cq p) (a_posted p) (a_consumed p)"
    using inv by (simp add: qp_inv_def inv_cq_def Let_def)
  then obtain cq where cons: "cq_consume (s_cq p) = (Some (a_posted p ! a_consumed p), cq)"
    by (rule cq_consume_next [OF _ more])
  note ce = consume_effect [OF inv cons]
  have "sq_inv (s_sq p)" using inv by (simp add: qp_inv_def inv_sq_def Let_def)
  moreover obtain cb where "pending (s_sq p) (cqe_cid (a_posted p ! a_consumed p)) = Some cb"
    using ce(5) by (auto simp: completes_def)
  ultimately have "qp_step p (p\<lparr>s_cq := cq, s_sq := sq_completed (a_posted p ! a_consumed p) (s_sq p),
      h_invoked := h_invoked p @ [(cb, cqe_sf (a_posted p ! a_consumed p))],
      a_head := a_fetches p ! a_consumed p, a_consumed := Suc (a_consumed p)\<rparr>)"
    by (intro qp_step.take [OF cons] sq_complete_ok)
  then show ?thesis
    by (rule that [unfolded qp_quiet_def, OF conjI]) (use more ce(4) in \<open>simp_all add: qp_work_def\<close>)
qed

lemma progress_fetch:
  assumes inv: "qp_inv p" and more: "a_fetched p < length (h_issued p)"
  obtains p' where "qp_quiet p p'" and "qp_work p' < qp_work p" and "q_size (s_cq p') = q_size (s_cq p)"
proof -
  have S: "inv_sq p" using inv by (simp add: qp_inv_def)
  then have "length (h_issued p) < a_fetched p + unat (q_size (s_sq p))" by (simp add: inv_sq_def Let_def)
  from mod_neq_in_window [OF more this] have "unat (d_sqhead p) \<noteq> unat (s_sqdb p)"
    using S by (simp add: inv_sq_def Let_def)
  then have "d_sqhead p \<noteq> s_sqdb p" by (simp add: unat_eq_iff)
  from qp_step.fetch [OF this] show ?thesis
    by (rule that [unfolded qp_quiet_def, OF conjI]) (use more in \<open>simp_all add: qp_work_def\<close>)
qed

lemma progress_post:
  assumes inv: "qp_inv p" and exec: "d_exec p \<noteq> []" and idle: "a_consumed p = length (a_posted p)"
    and size: "1 < q_size (s_cq p)"
  obtains p' where "qp_quiet\<^sup>*\<^sup>* p p'" and "qp_work p' < qp_work p" and "q_size (s_cq p') = q_size (s_cq p)"
proof -
  let ?n = "unat (q_size (s_cq p))" and ?len = "length (a_posted p)"
  let ?r = "p\<lparr>s_cqdb := ucast (snd (cq_complete (s_cq p))), a_rung := a_consumed p\<rparr>"
  have r: "qp_quiet p ?r" by (simp add: qp_quiet_def qp_step.ring)
  have R: "inv_cq ?r" using qp_inv_ring [OF inv] by (simp add: qp_inv_def)
  have n: "1 < ?n" using size by (simp add: word_less_nat_alt)
  have tail: "unat (d_cqtail ?r) = ?len mod ?n" "unat (s_cqdb ?r) = ?len mod ?n"
    using R idle by (simp_all add: inv_cq_def Let_def)
  have "unat (wrap_around (q_size (s_cq p)) (d_cqtail ?r + 1)) = Suc ?len mod ?n"
    using tail(1) n by (simp add: wrap_around_Suc mod_Suc_eq)
  moreover have "Suc ?len mod ?n \<noteq> ?len mod ?n" using n by (simp add: mod_Suc split: if_splits)
  ultimately have room: "wrap_around (q_size (s_cq ?r)) (d_cqtail ?r + 1) \<noteq> s_cqdb ?r"
    using tail(2) by (auto simp: unat_eq_iff [symmetric])
  have i: "0 < length (d_exec ?r)" using exec by simp
  have "bf_fits 17 31 (0 :: u16)" by (simp add: bf_fits_def)
  from qp_step.post [OF i this room refl refl refl]
  obtain p' where p': "qp_step ?r p'" "h_issued p' = h_issued p" "a_fetched p' = a_fetched p"
    "length (d_exec p') = length (d_exec p) - 1" "length (a_posted p') = Suc ?len"
    "a_consumed p' = a_consumed p" "q_size (s_cq p') = q_size (s_cq p)"
    by (rule that) (use i in \<open>simp_all add: cq_write_def\<close>)
  show ?thesis
  proof (rule that [OF _ _ p'(7)])
    have "qp_quiet ?r p'" using p'(1,2) by (simp add: qp_quiet_def)
    with r show "qp_quiet\<^sup>*\<^sup>* p p'" by (rule converse_rtranclp_into_rtranclp [OF _ r_into_rtranclp])
    show "qp_work p' < qp_work p" using p' exec idle by (cases "d_exec p") (simp_all add: qp_work_def)
  qed
qed

lemma qp_progress:
  assumes inv: "qp_inv p" and busy: "pending (s_sq p) \<noteq> Map.empty" and size: "1 < q_size (s_cq p)"
  obtains p' where "qp_quiet\<^sup>*\<^sup>* p p'" and "qp_work p' < qp_work p" and "q_size (s_cq p') = q_size (s_cq p)"
proof -
  have i: "inv_cq p" "inv_sq p" "inv_cids p" using inv by (simp_all add: qp_inv_def)
  have "cq_tracks (s_cq p) (a_posted p) (a_consumed p)" "a_fetched p \<le> length (h_issued p)"
    using i(1,2) by (simp_all add: inv_cq_def inv_sq_def Let_def)
  note le = cq_tracksD(5) [OF this(1)] this(2)
  consider "a_consumed p < length (a_posted p)" | "a_fetched p < length (h_issued p)"
    | "a_consumed p = length (a_posted p)" "a_fetched p = length (h_issued p)" using le by linarith
  then show ?thesis
  proof cases
    case 1
    show ?thesis by (rule progress_take [OF inv 1]) (rule that [OF r_into_rtranclp])
  next
    case 2
    show ?thesis by (rule progress_fetch [OF inv 2]) (rule that [OF r_into_rtranclp])
  next
    case 3
    have "mset_set (dom (pending (s_sq p))) \<noteq> {#}" using busy by (simp add: mset_set_empty_iff)
    then have exec: "d_exec p \<noteq> []" using i(3) 3 by (auto simp: inv_cids_def cids_def)
    show ?thesis by (rule progress_post [OF inv exec 3(1) size]) (rule that)
  qed
qed

lemma qp_quiet_inv: "qp_quiet\<^sup>*\<^sup>* p p' \<Longrightarrow> qp_inv p \<Longrightarrow> qp_inv p' \<and> h_issued p' = h_issued p"
  by (induction rule: rtranclp_induct) (auto simp: qp_quiet_def intro: qp_step_inv)

lemma qp_quiet_runs:
  "qp_quiet\<^sup>*\<^sup>* (dv_qp s) p \<Longrightarrow> dev_steps c unmap base s (s\<lparr>dv_qp := p\<rparr>)"
proof (induction rule: rtranclp_induct)
  case (step y z)
  then have "dev_step c unmap base (s\<lparr>dv_qp := y\<rparr>) ((s\<lparr>dv_qp := y\<rparr>)\<lparr>dv_qp := z\<rparr>)"
    by (intro dev_step.queue) (simp_all add: qp_quiet_def)
  with step.IH show ?case by (simp add: rtranclp.rtrancl_into_rtrancl)
qed simp

lemma qp_quiesce:
  assumes "qp_inv p" and "1 < q_size (s_cq p)"
  shows "\<exists>p'. qp_quiet\<^sup>*\<^sup>* p p' \<and> pending (s_sq p') = Map.empty"
  using assms
proof (induction "qp_work p" arbitrary: p rule: less_induct)
  case less
  show ?case
  proof (cases "pending (s_sq p) = Map.empty")
    case False
    obtain p1 where p1: "qp_quiet\<^sup>*\<^sup>* p p1" "qp_work p1 < qp_work p" "q_size (s_cq p1) = q_size (s_cq p)"
      by (rule qp_progress [OF less.prems(1) False less.prems(2)])
    have "1 < q_size (s_cq p1)" using p1(3) less.prems(2) by simp
    with less.hyps [OF p1(2)] qp_quiet_inv [OF p1(1) less.prems(1)]
    obtain p' where "qp_quiet\<^sup>*\<^sup>* p1 p'" "pending (s_sq p') = Map.empty" by blast
    with rtranclp_trans [OF p1(1)] show ?thesis by blast
  qed blast
qed

text \<open>
  C11: No request is ever stuck. Provided the completion queue has more than one entry, from every
  reachable state, with any number of commands waiting, being executed or answered, steps of the
  controller and of the interrupt handler alone lead to a state in which no command is
  outstanding and every callback ever handed to the device has been called exactly once.
\<close>

theorem device_can_answer_all:
  assumes "dev_reachable c unmap base s" and "1 < q_size (s_cq (dv_qp s))"
  shows "\<exists>t. (dev_step c unmap base)\<^sup>*\<^sup>* s t \<and> h_issued (dv_qp t) = h_issued (dv_qp s) \<and>
    pending (s_sq (dv_qp t)) = Map.empty \<and> pool_open (dev_pool t) = {#} \<and>
    mset (map fst (h_invoked (dv_qp t))) = mset (map snd (h_issued (dv_qp t)))"
proof -
  note inv = dev_invD(1) [OF dev_reachable_inv [OF assms(1)]]
  obtain p where p: "qp_quiet\<^sup>*\<^sup>* (dv_qp s) p" "pending (s_sq p) = Map.empty"
    using qp_quiesce [OF inv assms(2)] by blast
  note q = qp_quiet_inv [OF p(1) inv]
  then have "inv_hist p" by (simp add: qp_inv_def)
  then have "mset (map fst (h_invoked p)) = mset (map snd (h_issued p))"
    using p(2) by (simp add: inv_hist_def)
  then show ?thesis
    using p(2) q qp_quiet_runs [OF p(1)]
    by (intro exI [of _ "s\<lparr>dv_qp := p\<rparr>"]) (simp add: dev_pool_def)
qed

section \<open>The commands of the data path\<close>

definition io_typed :: "'a ctl_base_scheme \<Rightarrow> 'd namespace \<Rightarrow> sqe \<Rightarrow> 'c io_callback \<Rightarrow> bool" where
  "io_typed c base e cb \<longleftrightarrow>
     sqe_nsid e = ns_nsid base \<and>
     (case cb of
        Rw_callback k n \<Rightarrow> sqe_opc e \<in> {1, 2} \<and> sqe_psdt e = (if supports_sgl c then 1 else 0)
      | Wz_callback k \<Rightarrow> sqe_opc e = 8)"

lemma describes_typed:
  "describes c unmap base q r cid e \<Longrightarrow> io_typed c base e (request_callback c ns r)"
  by (cases r) (auto simp: io_typed_def rw_command_def sgl_describes_def prp_describes_def split: if_splits)

lemma dev_step_typed:
  assumes "dev_step c unmap base s t" and "dev_inv c unmap base s"
    and "\<forall>(e, cb) \<in> set (h_issued (dv_qp s)). io_typed c base e cb"
  shows "\<forall>(e, cb) \<in> set (h_issued (dv_qp t)). io_typed c base e cb"
  using assms(1)
proof (cases rule: dev_step_cases)
  case (accept r w ns' q)
  obtain cid e where a: "w = sq_submit q"
    "submitted c unmap r (ns_of base (dv_qp s)) (s_sq (dv_qp s)) cid e q"
    by (rule accept_submitted [OF assms(2) accept(2-4)]) blast
  have "io_typed c base e (request_callback c base r)"
    using a(2) describes_typed by (fastforce simp: submitted_def)
  then show ?thesis
    using accepted_submitted [OF dev_invD(6) [OF assms(2)] a(2)] a(1) accept(1) assms(3) by simp
qed (use assms(3) in auto)

lemma dev_reachable_typed:
  "dev_reachable c unmap base s \<Longrightarrow> \<forall>(e, cb) \<in> set (h_issued (dv_qp s)). io_typed c base e cb"
proof (induction rule: dev_reachable.induct)
  case (start sz1 sz2 mem1 ans1 ans2 dstrd sq mem2 ans3 cq req)
  then show ?case by (simp add: dev_start_def qp_start_def)
next
  case (step s t)
  then show ?case by (intro dev_step_typed [OF step.hyps(2) dev_reachable_inv [OF step.hyps(1)]])
qed

text \<open>
  C21: The queues of a namespace are typed. Every command ever issued there addresses this namespace,
  and its opcode matches the closure that will be called: read or write, with the data pointer of
  the kind the controller was found to support, for a closure that reports bytes; Write Zeroes for
  one that does not. No other command reaches an I/O queue.
\<close>

theorem issued_commands_typed:
  assumes "dev_reachable c unmap base s" and "(e, cb) \<in> set (h_issued (dv_qp s))"
  shows "sqe_nsid e = ns_nsid base \<and>
    (case cb of
       Rw_callback k n \<Rightarrow> sqe_opc e \<in> {1, 2} \<and> sqe_psdt e = (if supports_sgl c then 1 else 0)
     | Wz_callback k \<Rightarrow> sqe_opc e = 8)"
  using bspec [OF dev_reachable_typed [OF assms(1)] assms(2)] by (simp add: io_typed_def)

section \<open>A concrete run\<close>

text \<open>A queue pair of two entries with PRP lists, and a request for 40 sectors.\<close>

definition dr_sq :: "nat io_callback submission_queue" where
  "dr_sq = (case submission_queue_new run_memory run_answers run_answers 2 1 0 0 of Inr q \<Rightarrow> q)"

definition dr_start :: "nat device_run" where
  "dr_start = dev_start dr_sq run_cq (\<lambda>_. Wz_request 0 [] 0)"

definition dr_request :: "nat io_request" where
  "dr_request = Rw_request 7 [small_blk] 42 From_device"

lemma dr_sq_eq: "submission_queue_new run_memory run_answers run_answers 2 1 0 0 = Inr dr_sq"
  and dr_sq_lists: "lists_ok (small_ctl False) dr_sq"
  and dr_sq_room: "sq_can_produce dr_sq"
  by (simp_all add: dr_sq_def run_eval lists_ok_def prp_memory_ok_def small_limits sq_can_produce_def
      is_full_def wrap_around_def)

lemma dr_request_ok: "request_ok (small_ctl False) (small_ns False) dr_request"
  and dr_request_callback: "request_callback (small_ctl False) (small_ns False) dr_request = Rw_callback 42 20480"
  and dr_request_size: "\<not> bad_size dr_request"
  by (simp_all add: dr_request_def rw_sectors_def small_limits small_prp_sectors)

lemma dr_start_reachable: "dev_reachable (small_ctl False) 1 (small_ns False) dr_start"
  unfolding dr_start_def
  by (rule dev_reachable.start [where ?mem1.0 = run_memory and ?ans1.0 = run_answers and ?ans2.0 = run_answers
        and ?sz1.0 = 2 and dstrd = 0 and ?mem2.0 = run_memory and ?ans3.0 = run_answers and ?sz2.0 = 2])
    (simp_all add: small_limits dr_sq_eq run_cq_eq dr_sq_lists)

lemma dr_start_simps [simp]: "s_sq (dv_qp dr_start) = dr_sq" "h_issued (dv_qp dr_start) = []"
  "a_fetched (dv_qp dr_start) = 0" "s_cq (dv_qp dr_start) = run_cq" "h_invoked (dv_qp dr_start) = []"
  "pending dr_sq = Map.empty"
  using submission_queue_new_inv(2) [OF dr_sq_eq] by (simp_all add: dr_start_def dev_start_def qp_start_def)

lemma dr_accepted:
  obtains s e where "dev_step (small_ctl False) 1 (small_ns False) dr_start s"
    and "dev_reachable (small_ctl False) 1 (small_ns False) s"
    and "h_issued (dv_qp s) = [(e, Rw_callback 42 20480)]" and "a_fetched (dv_qp s) = 0"
    and "dv_req s (sqe_cid e) = dr_request" and "s_cq (dv_qp s) = run_cq"
    and "dev_pool s = \<lparr>pool_open = {#(42, 20480)#}, pool_done = []\<rparr>"
proof (cases rule: submit_cases [OF dev_reachable_inv [OF dr_start_reachable] dr_request_ok,
      case_names refused accepted])
  case (refused err)
  then show ?thesis using dr_sq_room dr_request_size by simp
next
  case (accepted cid e q)
  let ?s = "accepted dr_request q (sq_submit q) dr_start"
  note inv = dev_reachable_inv [OF dr_start_reachable]
  have s: "?s = \<lparr>dv_qp = qp_issue e (Rw_callback 42 20480) q (dv_qp dr_start),
      dv_req = (dv_req dr_start)(cid := dr_request)\<rparr>"
    using accepted_submitted [OF dev_invD(6) [OF inv] accepted(3)] by (simp add: dr_request_callback)
  have i: "issued (Rw_callback 42 20480) cid e dr_sq q"
    using accepted(3) by (simp add: submitted_def dr_request_callback)
  have sub: "submit (small_ctl False) 1 dr_request (ns_of (small_ns False) (dv_qp dr_start)) =
      Inr (Inr (), [sq_submit q], (ns_of (small_ns False) (dv_qp dr_start))\<lparr>ns_iosq := Some q\<rparr>)"
    using accepted(3) by (simp add: submitted_def)
  have st: "dev_step (small_ctl False) 1 (small_ns False) dr_start ?s"
    by (rule dev_step.accept [OF dr_request_ok sub]) simp
  show ?thesis
    by (rule that [OF st dev_reachable.step [OF dr_start_reachable st], of e])
      (use i in \<open>simp_all add: s issued_def dev_pool_def map_values_upd\<close>,
       simp add: qp_issue_def)
qed

lemma dr_cq_size: "1 < q_size run_cq"
  by (simp add: run_sq_fields)

lemma requests_only_idle: "requests_only c unmap base (\<lambda>_ _ ns. ns)"
  by (auto simp: requests_only_def intro: exI [of _ "[]"])

theorem device_refines_pool_witness:
  "\<exists>s. dev_step (small_ctl False) 1 (small_ns False) dr_start s \<and>
    dev_pool s = \<lparr>pool_open = {#(42, 20480)#}, pool_done = []\<rparr> \<and>
    (dev_pool s = dev_pool dr_start \<or>
     pool_step (small_ctl False) (small_ns False) (dev_pool dr_start) (dev_pool s))"
  by (rule dr_accepted) (use device_refines_pool [OF dr_start_reachable] in blast)

theorem outstanding_transfers_intact_witness:
  "\<exists>(s :: nat device_run) e. h_issued (dv_qp s) = [(e, Rw_callback 42 20480)] \<and>
    pending (s_sq (dv_qp s)) (sqe_cid e) =
      Some (request_callback (small_ctl False) (small_ns False) dr_request) \<and>
    request_ok (small_ctl False) (small_ns False) dr_request \<and>
    describes (small_ctl False) 1 (small_ns False) (s_sq (dv_qp s)) dr_request (sqe_cid e) e"
proof (rule dr_accepted)
  fix s e
  assume s: "dev_reachable (small_ctl False) 1 (small_ns False) s"
    "h_issued (dv_qp s) = [(e, Rw_callback 42 20480)]" "a_fetched (dv_qp s) = 0"
    "dv_req s (sqe_cid e) = dr_request"
  then have "e \<in> set (map fst (drop (a_fetched (dv_qp s)) (h_issued (dv_qp s))) @ d_exec (dv_qp s))"
    by simp
  from outstanding_transfers_intact [OF s(1) this s(4) [symmetric]] s(2) show ?thesis by blast
qed

theorem device_requests_safe_witness:
  "\<exists>q. submit (small_ctl False) 1 dr_request (ns_of (small_ns False) (dv_qp dr_start)) =
      Inr (Inr (), [sq_submit q], (ns_of (small_ns False) (dv_qp dr_start))\<lparr>ns_iosq := Some q\<rparr>) \<and>
    dev_step (small_ctl False) 1 (small_ns False) dr_start (accepted dr_request q (sq_submit q) dr_start)"
  using device_requests_safe [OF dr_start_reachable dr_request_ok] dr_request_size dr_sq_room by simp

theorem device_irq_runs_witness:
  "\<exists>evs t. ns_handle_irq (\<lambda>_ _ ns. ns) (ns_of (small_ns False) (dv_qp dr_start)) =
      Inr (evs, ns_of (small_ns False) (dv_qp t)) \<and>
    (dev_step (small_ctl False) 1 (small_ns False))\<^sup>*\<^sup>* dr_start t \<and>
    dev_reachable (small_ctl False) 1 (small_ns False) t \<and>
    h_invoked (dv_qp t) = h_invoked (dv_qp dr_start) @ map fst evs \<and>
    a_posted (dv_qp t) = a_posted (dv_qp dr_start) \<and> a_consumed (dv_qp t) = length (a_posted (dv_qp t))"
  by (rule device_irq_runs [OF dr_start_reachable requests_only_idle])

theorem device_can_answer_all_witness:
  "\<exists>s t e. h_issued (dv_qp s) = [(e, Rw_callback 42 20480)] \<and>
    (dev_step (small_ctl False) 1 (small_ns False))\<^sup>*\<^sup>* s t \<and> pending (s_sq (dv_qp t)) = Map.empty \<and>
    mset (map fst (h_invoked (dv_qp t))) = {#Rw_callback 42 20480#}"
proof (rule dr_accepted)
  fix s e
  assume s: "dev_reachable (small_ctl False) 1 (small_ns False) s"
    "h_issued (dv_qp s) = [(e, Rw_callback 42 20480)]" "s_cq (dv_qp s) = run_cq"
  then have "1 < q_size (s_cq (dv_qp s))" using dr_cq_size by simp
  from device_can_answer_all [OF s(1) this] obtain t where
    "(dev_step (small_ctl False) 1 (small_ns False))\<^sup>*\<^sup>* s t" "pending (s_sq (dv_qp t)) = Map.empty"
    "h_issued (dv_qp t) = h_issued (dv_qp s)"
    "mset (map fst (h_invoked (dv_qp t))) = mset (map snd (h_issued (dv_qp t)))"
    by blast
  with s(2) show ?thesis by (intro exI [of _ s] exI [of _ t] exI [of _ e]) simp
qed

theorem issued_commands_typed_witness:
  "\<exists>(s :: nat device_run) e. h_issued (dv_qp s) = [(e, Rw_callback 42 20480)] \<and>
    sqe_nsid e = 1 \<and> sqe_opc e \<in> {1, 2} \<and> sqe_psdt e = 0"
proof (rule dr_accepted)
  fix s e
  assume s: "dev_reachable (small_ctl False) 1 (small_ns False) s"
    "h_issued (dv_qp s) = [(e, Rw_callback 42 20480)]"
  then have "(e, Rw_callback 42 20480) \<in> set (h_issued (dv_qp s))" by simp
  from issued_commands_typed [OF s(1) this] s(2) show ?thesis by (auto simp: small_limits)
qed

end
