(* ===== verification/Interrupt_Laws.thy ===== *)
theory Interrupt_Laws
  imports Identification_Laws
begin

text \<open>
  The controller's interrupt handler (\<^verbatim>\<open>Ctl::handle_irq\<close>) as the composition of the admin queue's
  loop and the handlers of the namespaces it keeps.
\<close>

section \<open>The namespaces\<close>

text \<open>
  \<open>ns_pending ns posted m\<close>: of the entries \<open>posted\<close> to the namespace's completion queue, all but
  the first \<open>m\<close> wait to be consumed, and they answer outstanding commands.
\<close>

definition ns_pending :: "'cb namespace \<Rightarrow> cqe list \<Rightarrow> nat \<Rightarrow> bool" where
  "ns_pending ns posted m \<longleftrightarrow> ns_nsid ns < 65536 \<and>
     (\<exists>cq q. ns_iocq ns = Some cq \<and> ns_iosq ns = Some q \<and> sq_inv q \<and>
        cq_tracks cq posted m \<and> answers ns q (drop m posted))"

definition ns_owed :: "'cb namespace \<Rightarrow> cqe list \<Rightarrow> ('cb \<times> u16) list" where
  "ns_owed ns cs = map (\<lambda>c. (the (pending (the (ns_iosq ns)) (cqe_cid c)), cqe_sf c)) cs"

text \<open>A namespace whose queue is drained: nothing more to consume.\<close>

definition ns_drained :: "'cb namespace \<Rightarrow> cqe list \<Rightarrow> bool" where
  "ns_drained ns posted \<longleftrightarrow>
     (\<exists>cq q. ns_iocq ns = Some cq \<and> cq_consume cq = (None, cq) \<and> cq_tracks cq posted (length posted) \<and>
        ns_iosq ns = Some q \<and> sq_inv q)"

lemma ns_handle_irq_pending:
  assumes "keeps_namespace run" and "ns_pending ns posted m"
  obtains evs ns' where "ns_handle_irq run ns = Inr (evs, ns')"
    and "map fst evs = ns_owed ns (drop m posted)" and "ns_drained ns' posted"
proof -
  from assms(2) obtain cq q where p: "ns_nsid ns < 65536" "ns_iocq ns = Some cq" "ns_iosq ns = Some q"
    "sq_inv q" "cq_tracks cq posted m" "answers ns q (drop m posted)"
    by (auto simp: ns_pending_def)
  from ns_irq_loop_drains [OF assms(1) p, of "[]"] obtain evs ns' cq' q' where r:
    "ns_irq_loop run [] ns = Some (Inr (evs, ns'))" "map fst evs = map (owed q) (drop m posted)"
    "ns_iocq ns' = Some cq'" "cq_tracks cq' posted (length posted)" "ns_iosq ns' = Some q'" "sq_inv q'"
    by auto
  show ?thesis
  proof (rule that)
    show "ns_handle_irq run ns = Inr (evs, ns')" using r(1) by (simp add: ns_handle_irq_def)
    show "map fst evs = ns_owed ns (drop m posted)" using r(2) p(3) by (simp add: ns_owed_def owed_def)
    show "ns_drained ns' posted"
      using r(3-6) cq_consume_empty [OF r(4)] by (auto simp: ns_drained_def)
  qed
qed

lemma nss_handle_irq_pending:
  assumes run: "keeps_namespace run" and "distinct ps"
    and "\<forall>p \<in> set ps. \<exists>ns. h p = Some ns \<and> ns_pending ns (posted p) (m p)"
  shows "\<exists>ios h'. nss_handle_irq run ps h = Inr (ios, h') \<and>
    map (\<lambda>(p, evs). (p, map fst evs)) ios = map (\<lambda>p. (p, ns_owed (the (h p)) (drop (m p) (posted p)))) ps \<and>
    (\<forall>p \<in> set ps. \<exists>ns. h' p = Some ns \<and> ns_drained ns (posted p)) \<and>
    (\<forall>p. p \<notin> set ps \<longrightarrow> h' p = h p)"
  using assms(2,3)
proof (induction ps arbitrary: h)
  case Nil
  then show ?case by simp
next
  case (Cons p ps)
  then obtain ns where ns: "h p = Some ns" "ns_pending ns (posted p) (m p)" by auto
  obtain evs ns' where r: "ns_handle_irq run ns = Inr (evs, ns')"
    "map fst evs = ns_owed ns (drop (m p) (posted p))" "ns_drained ns' (posted p)"
    by (rule ns_handle_irq_pending [OF run ns(2)])
  have d: "distinct ps" and other: "\<forall>q \<in> set ps. q \<noteq> p" using Cons.prems(1) by auto
  have "\<forall>q \<in> set ps. \<exists>n. (h(p \<mapsto> ns')) q = Some n \<and> ns_pending n (posted q) (m q)"
    using Cons.prems(2) other by simp
  from Cons.IH [OF d this] obtain ios h' where IH: "nss_handle_irq run ps (h(p \<mapsto> ns')) = Inr (ios, h')"
    "map (\<lambda>(p, evs). (p, map fst evs)) ios =
      map (\<lambda>q. (q, ns_owed (the ((h(p \<mapsto> ns')) q)) (drop (m q) (posted q)))) ps"
    "\<forall>q \<in> set ps. \<exists>ns. h' q = Some ns \<and> ns_drained ns (posted q)"
    "\<forall>q. q \<notin> set ps \<longrightarrow> h' q = (h(p \<mapsto> ns')) q"
    by (elim exE conjE) (erule (3) that)
  have owed: "map (\<lambda>q. (q, ns_owed (the ((h(p \<mapsto> ns')) q)) (drop (m q) (posted q)))) ps =
      map (\<lambda>q. (q, ns_owed (the (h q)) (drop (m q) (posted q)))) ps"
    using other by (intro map_cong) auto
  have p': "h' p = Some ns'" using IH(4) Cons.prems(1) by simp
  show ?case
  proof (intro exI conjI)
    show "nss_handle_irq run (p # ps) h = Inr ((p, evs) # ios, h')" using ns(1) r(1) IH(1) by simp
    show "map (\<lambda>(p, evs). (p, map fst evs)) ((p, evs) # ios) =
        map (\<lambda>p. (p, ns_owed (the (h p)) (drop (m p) (posted p)))) (p # ps)"
      using IH(2) owed ns(1) r(2) by simp
    show "\<forall>q \<in> set (p # ps). \<exists>ns. h' q = Some ns \<and> ns_drained ns (posted q)"
      using IH(3) p' r(3) by simp
    show "\<forall>q. q \<notin> set (p # ps) \<longrightarrow> h' q = h q" using IH(4) by simp
  qed
qed

section \<open>The handler\<close>

lemma see_ring_id: "se_post env = (\<lambda>es. es) \<Longrightarrow> see_ring env st = st"
  by (simp add: see_ring_def)

lemma acq_loop_quiet:
  assumes "acq_quiet st" and "se_post (envs k) = (\<lambda>es. es)"
  shows "acq_loop envs k evs st = Some (Inr (evs, st))"
proof -
  from assms(1) obtain posted where "cq_tracks (ctl_acq (dr_ctl st)) posted (length posted)"
    by (auto simp: acq_quiet_def)
  then have "acq_round (envs k) st = Inr None"
    using cq_consume_empty by (simp add: acq_round_def)
  then show ?thesis by (subst acq_loop.simps) (simp add: see_ring_id [OF assms(2)])
qed

text \<open>
  An I/O interrupt of the controller is served completely, for any closures in the queues: the
  callbacks of all posted entries are run, per namespace in the order of the list, and other objects
  are untouched.
\<close>

lemma ctl_handle_irq_serves:
  assumes "keeps_namespace run" and "acq_quiet st" and "se_post (envs 0) = (\<lambda>es. es)"
    and "distinct (dr_nss st)"
    and "\<forall>p \<in> set (dr_nss st). \<exists>ns. dr_heap st p = Some ns \<and> ns_pending ns (posted p) (m p)"
  shows "\<exists>ios st'. ctl_handle_irq envs run st = Inr ([], ios, ctl_irq_trigger (dr_ctl st) = 0, st') \<and>
    map (\<lambda>(p, evs). (p, map fst evs)) ios =
      map (\<lambda>p. (p, ns_owed (the (dr_heap st p)) (drop (m p) (posted p)))) (dr_nss st) \<and>
    (\<forall>p \<in> set (dr_nss st). \<exists>ns. dr_heap st' p = Some ns \<and> ns_drained ns (posted p)) \<and>
    (\<forall>p. p \<notin> set (dr_nss st) \<longrightarrow> dr_heap st' p = dr_heap st p)"
proof -
  obtain ios h' where "nss_handle_irq run (dr_nss st) (dr_heap st) = Inr (ios, h')"
    "map (\<lambda>(p, evs). (p, map fst evs)) ios =
      map (\<lambda>p. (p, ns_owed (the (dr_heap st p)) (drop (m p) (posted p)))) (dr_nss st)"
    "\<forall>p \<in> set (dr_nss st). \<exists>ns. h' p = Some ns \<and> ns_drained ns (posted p)"
    "\<forall>p. p \<notin> set (dr_nss st) \<longrightarrow> h' p = dr_heap st p"
    using nss_handle_irq_pending [OF assms(1,4,5)] by blast
  then show ?thesis
    using acq_loop_quiet [where envs = envs, OF assms(2,3)]
    by (intro exI [of _ ios] exI [of _ "st\<lparr>dr_heap := h'\<rparr>"]) (simp add: ctl_handle_irq_def)
qed

end
