(* ===== verification/System_Runs.thy ===== *)
theory System_Runs
  imports Device_Irq Interrupt_Laws
begin

text \<open>
  A controller with all its namespaces at run time: the runs of their block devices interleaved, and
  the controller's interrupt handler, which serves all of them, as such an interleaving.
\<close>

section \<open>The runs of all namespaces\<close>

text \<open>
  The driver object of a controller, and for each of its namespaces the run of its device, with the
  history that the code does not keep. \<open>base p\<close> is the geometry of the namespace at the address \<open>p\<close>.
\<close>

record 'c system =
  sy_drv :: "'c io_callback driver"
  sy_run :: "ns_ptr \<Rightarrow> 'c device_run"

definition sys_put ::
  "(ns_ptr \<Rightarrow> 'c io_callback namespace) \<Rightarrow> ns_ptr \<Rightarrow> 'c device_run \<Rightarrow> 'c system \<Rightarrow> 'c system" where
  "sys_put base p t s =
     \<lparr>sy_drv = (sy_drv s)\<lparr>dr_heap := (dr_heap (sy_drv s))(p \<mapsto> ns_of (base p) (dv_qp t))\<rparr>,
      sy_run = (sy_run s)(p := t)\<rparr>"

inductive sys_step ::
  "u32 \<Rightarrow> (ns_ptr \<Rightarrow> 'c io_callback namespace) \<Rightarrow> 'c system \<Rightarrow> 'c system \<Rightarrow> bool"
  for unmap base where
  device: "p \<in> set (dr_nss (sy_drv s)) \<Longrightarrow>
    dev_step (dr_ctl (sy_drv s)) unmap (base p) (sy_run s p) t \<Longrightarrow>
    sys_step unmap base s (sys_put base p t s)"

inductive_cases sys_stepE: "sys_step unmap base s t"

abbreviation sys_steps ::
  "u32 \<Rightarrow> (ns_ptr \<Rightarrow> 'c io_callback namespace) \<Rightarrow> 'c system \<Rightarrow> 'c system \<Rightarrow> bool" where
  "sys_steps unmap base \<equiv> (sys_step unmap base)\<^sup>*\<^sup>*"

text \<open>
  The objects in the heap are the namespaces of the runs, and every run is one of its device: from
  the initial states on, in which nothing has been issued.
\<close>

definition sys_inv :: "u32 \<Rightarrow> (ns_ptr \<Rightarrow> 'c io_callback namespace) \<Rightarrow> 'c system \<Rightarrow> bool" where
  "sys_inv unmap base s \<longleftrightarrow>
     acq_quiet (sy_drv s) \<and> distinct (dr_nss (sy_drv s)) \<and>
     (\<forall>p \<in> set (dr_nss (sy_drv s)).
        dr_heap (sy_drv s) p = Some (ns_of (base p) (dv_qp (sy_run s p))) \<and>
        dev_reachable (dr_ctl (sy_drv s)) unmap (base p) (sy_run s p))"

definition sys_start :: "u32 \<Rightarrow> (ns_ptr \<Rightarrow> 'c io_callback namespace) \<Rightarrow> 'c system \<Rightarrow> bool" where
  "sys_start unmap base s \<longleftrightarrow> sys_inv unmap base s \<and>
     (\<forall>p \<in> set (dr_nss (sy_drv s)). h_issued (dv_qp (sy_run s p)) = [])"

inductive sys_reachable :: "u32 \<Rightarrow> (ns_ptr \<Rightarrow> 'c io_callback namespace) \<Rightarrow> 'c system \<Rightarrow> bool"
  for unmap base where
  start: "sys_start unmap base s \<Longrightarrow> sys_reachable unmap base s"
| step: "sys_reachable unmap base s \<Longrightarrow> sys_step unmap base s t \<Longrightarrow> sys_reachable unmap base t"

lemma sys_invD:
  assumes "sys_inv unmap base s"
  shows "acq_quiet (sy_drv s)" and "distinct (dr_nss (sy_drv s))"
    and "p \<in> set (dr_nss (sy_drv s)) \<Longrightarrow> dr_heap (sy_drv s) p = Some (ns_of (base p) (dv_qp (sy_run s p)))"
    and "p \<in> set (dr_nss (sy_drv s)) \<Longrightarrow> dev_reachable (dr_ctl (sy_drv s)) unmap (base p) (sy_run s p)"
  using assms by (simp_all add: sys_inv_def)

lemma sys_put_simps [simp]:
  "dr_nss (sy_drv (sys_put base p t s)) = dr_nss (sy_drv s)"
  "dr_ctl (sy_drv (sys_put base p t s)) = dr_ctl (sy_drv s)"
  "dr_heap (sy_drv (sys_put base p t s)) = (dr_heap (sy_drv s))(p \<mapsto> ns_of (base p) (dv_qp t))"
  "sy_run (sys_put base p t s) = (sy_run s)(p := t)"
  "acq_quiet (sy_drv (sys_put base p t s)) = acq_quiet (sy_drv s)"
  "sys_put base p t' (sys_put base p t s) = sys_put base p t' s"
  by (simp_all add: sys_put_def acq_quiet_def)

lemma sys_put_idem:
  "dr_heap (sy_drv s) p = Some (ns_of (base p) (dv_qp (sy_run s p))) \<Longrightarrow> sys_put base p (sy_run s p) s = s"
  by (simp add: sys_put_def fun_upd_idem)

lemma sys_inv_put:
  assumes "sys_inv unmap base s" and "dev_reachable (dr_ctl (sy_drv s)) unmap (base p) t"
  shows "sys_inv unmap base (sys_put base p t s)"
  using assms by (simp add: sys_inv_def)

lemma sys_step_inv: "sys_step unmap base s t \<Longrightarrow> sys_inv unmap base s \<Longrightarrow> sys_inv unmap base t"
proof (induction rule: sys_step.induct)
  case (device p s t)
  show ?case
    by (rule sys_inv_put [OF device.prems dev_reachable.step [OF sys_invD(4) [OF device.prems device.hyps(1)] device.hyps(2)]])
qed

lemma sys_reachable_inv: "sys_reachable unmap base s \<Longrightarrow> sys_inv unmap base s"
  by (induction rule: sys_reachable.induct) (simp_all add: sys_start_def sys_step_inv)

lemma sys_steps_reachable:
  "sys_steps unmap base s t \<Longrightarrow> sys_reachable unmap base s \<Longrightarrow> sys_reachable unmap base t"
  by (induction rule: rtranclp_induct) (blast intro: sys_reachable.step)+

text \<open>Steps of one device are steps of the system.\<close>

lemma sys_steps_device:
  assumes "dev_steps (dr_ctl (sy_drv s)) unmap (base p) (sy_run s p) t" and "p \<in> set (dr_nss (sy_drv s))"
    and "sys_inv unmap base s"
  shows "sys_steps unmap base s (sys_put base p t s)"
  using assms(1)
proof (induction rule: rtranclp_induct)
  case base
  then show ?case by (simp add: sys_put_idem [of s p] sys_invD(3) [OF assms(3,2)])
next
  case (step t u)
  have "sys_step unmap base (sys_put base p t s) (sys_put base p u (sys_put base p t s))"
    by (rule sys_step.device) (use assms(2) step.hyps(2) in simp_all)
  with step.IH show ?case by (simp add: rtranclp.rtrancl_into_rtrancl)
qed

section \<open>The interrupt handler of the controller\<close>

lemma nss_irq_runs:
  assumes "sys_inv unmap base s" and "distinct ps" and "set ps \<subseteq> set (dr_nss (sy_drv s))"
    and "\<forall>p \<in> set ps. requests_only (dr_ctl (sy_drv s)) unmap (base p) run"
  shows "\<exists>ios t. nss_handle_irq run ps (dr_heap (sy_drv s)) = Inr (ios, dr_heap (sy_drv t)) \<and>
    sys_steps unmap base s t \<and> sy_drv t = (sy_drv s)\<lparr>dr_heap := dr_heap (sy_drv t)\<rparr> \<and> map fst ios = ps \<and>
    (\<forall>p. p \<notin> set ps \<longrightarrow> sy_run t p = sy_run s p) \<and>
    (\<forall>(p, evs) \<in> set ios. irq_served (sy_run s p) evs (sy_run t p))"
  using assms
proof (induction ps arbitrary: s)
  case Nil
  then show ?case by (intro exI [of _ "[]"] exI [of _ s]) simp
next
  case (Cons p ps)
  have p: "p \<in> set (dr_nss (sy_drv s))" using Cons.prems(3) by simp
  note inv = Cons.prems(1)
  obtain evs u where u: "ns_handle_irq run (ns_of (base p) (dv_qp (sy_run s p))) = Inr (evs, ns_of (base p) (dv_qp u))"
    "dev_steps (dr_ctl (sy_drv s)) unmap (base p) (sy_run s p) u" "irq_served (sy_run s p) evs u"
    by (rule handle_irq_runs [OF sys_invD(4) [OF inv p]]) (use Cons.prems(4) in auto)
  let ?s1 = "sys_put base p u s"
  have inv1: "sys_inv unmap base ?s1"
    by (rule sys_inv_put [OF inv dev_steps_reachable [OF u(2) sys_invD(4) [OF inv p]]])
  have ps: "distinct ps" "set ps \<subseteq> set (dr_nss (sy_drv ?s1))"
    "\<forall>q \<in> set ps. requests_only (dr_ctl (sy_drv ?s1)) unmap (base q) run"
    using Cons.prems(2-4) by simp_all
  obtain ios t where t:
    "nss_handle_irq run ps (dr_heap (sy_drv ?s1)) = Inr (ios, dr_heap (sy_drv t))"
    "sys_steps unmap base ?s1 t" "sy_drv t = (sy_drv ?s1)\<lparr>dr_heap := dr_heap (sy_drv t)\<rparr>" "map fst ios = ps"
    "\<forall>q. q \<notin> set ps \<longrightarrow> sy_run t q = sy_run ?s1 q"
    "\<forall>(q, evs) \<in> set ios. irq_served (sy_run ?s1 q) evs (sy_run t q)"
    using Cons.IH [OF inv1 ps] by blast
  have "sys_steps unmap base s t" using rtranclp_trans [OF sys_steps_device [OF u(2) p inv] t(2)] .
  moreover have "sy_drv t = (sy_drv s)\<lparr>dr_heap := dr_heap (sy_drv t)\<rparr>" using t(3) by (simp add: sys_put_def)
  moreover have "irq_served (sy_run s q) es (sy_run t q)" if "(q, es) \<in> set ((p, evs) # ios)" for q es
  proof (cases "q = p")
    case True
    have "p \<notin> fst ` set ios" using t(4) Cons.prems(2) by (metis distinct.simps(2) list.set_map)
    with that True have "es = evs" by force
    moreover have "sy_run t p = u" using t(5) Cons.prems(2) by simp
    ultimately show ?thesis using u(3) True by simp
  next
    case False
    with that t(6) show ?thesis by auto
  qed
  moreover have "nss_handle_irq run (p # ps) (dr_heap (sy_drv s)) = Inr ((p, evs) # ios, dr_heap (sy_drv t))"
    using u(1) t(1) sys_invD(3) [OF inv p] by simp
  ultimately show ?case
    using t(4,5) by (intro exI [of _ "(p, evs) # ios"] exI [of _ t]) auto
qed

text \<open>
  C13: The controller's interrupt handler, as the code runs it, is an interleaved run of all its block
  devices. From every state that any interleaving of requests, controller actions and interrupts on
  any of the namespaces reaches, and for every client that submits requests from its callbacks, it
  returns, without a failed assertion or a dangling pointer, in a state that steps of the devices
  lead to: every completion queue is drained, each namespace has had the callbacks of its own
  entries invoked, in the order of the entries, and the interrupt is unmasked exactly when it is
  level-triggered. The states are those between admin commands, and no admin completion arrives
  during the interrupt (the hypothesis on \<open>se_post\<close>): the loop over the admin queue, which runs
  first, finds nothing. What it does with completions is the subject of the identification.
\<close>

theorem system_irq_runs:
  assumes "sys_reachable unmap base s" and "se_post (envs 0) = (\<lambda>es. es)"
    and "\<forall>p \<in> set (dr_nss (sy_drv s)). requests_only (dr_ctl (sy_drv s)) unmap (base p) run"
  shows "\<exists>ios t. ctl_handle_irq envs run (sy_drv s) =
      Inr ([], ios, ctl_irq_trigger (dr_ctl (sy_drv s)) = 0, sy_drv t) \<and>
    (sys_step unmap base)\<^sup>*\<^sup>* s t \<and> sys_reachable unmap base t \<and> map fst ios = dr_nss (sy_drv s) \<and>
    (\<forall>(p, evs) \<in> set ios.
       h_invoked (dv_qp (sy_run t p)) = h_invoked (dv_qp (sy_run s p)) @ map fst evs \<and>
       a_posted (dv_qp (sy_run t p)) = a_posted (dv_qp (sy_run s p)) \<and>
       a_consumed (dv_qp (sy_run t p)) = length (a_posted (dv_qp (sy_run t p))))"
proof -
  note inv = sys_reachable_inv [OF assms(1)]
  obtain ios t where t: "nss_handle_irq run (dr_nss (sy_drv s)) (dr_heap (sy_drv s)) = Inr (ios, dr_heap (sy_drv t))"
    "sys_steps unmap base s t" "sy_drv t = (sy_drv s)\<lparr>dr_heap := dr_heap (sy_drv t)\<rparr>"
    "map fst ios = dr_nss (sy_drv s)"
    "\<forall>(p, evs) \<in> set ios. irq_served (sy_run s p) evs (sy_run t p)"
    using nss_irq_runs [OF inv sys_invD(2) [OF inv] subset_refl assms(3)] by blast
  have "ctl_handle_irq envs run (sy_drv s) = Inr ([], ios, ctl_irq_trigger (dr_ctl (sy_drv s)) = 0, sy_drv t)"
    using acq_loop_quiet [where envs = envs, OF sys_invD(1) [OF inv] assms(2)] t(1)
    by (simp add: ctl_handle_irq_def t(3) [symmetric])
  with t(2,4,5) sys_steps_reachable [OF t(2) assms(1)] show ?thesis
    unfolding irq_served_def by blast
qed

section \<open>A concrete system\<close>

text \<open>One namespace, whose queues have been created but not used.\<close>

definition sys_ex :: "nat system" where
  "sys_ex = \<lparr>sy_drv = \<lparr>dr_ctl = dr_ctl id_driver, dr_icu = small_icu,
       dr_heap = [3 \<mapsto> ns_of (small_ns False) (dv_qp dr_start)], dr_next = 4, dr_nss = [3]\<rparr>,
     sy_run = (\<lambda>_. dr_start)\<rparr>"

lemma sys_ex_reachable: "sys_reachable 1 (\<lambda>_. small_ns False) sys_ex"
proof (rule sys_reachable.start)
  have sgl: "\<not> supports_sgl (dr_ctl id_driver)" by (simp add: supports_sgl_def id_driver_def)
  have "lists_ok (dr_ctl id_driver) dr_sq" using dr_sq_lists sgl by (simp add: lists_ok_def small_limits)
  then have "dev_reachable (dr_ctl id_driver) 1 (small_ns False) dr_start"
    unfolding dr_start_def
    by (intro dev_reachable.start [where ?mem1.0 = run_memory and ?ans1.0 = run_answers and ?ans2.0 = run_answers
          and ?sz1.0 = 2 and dstrd = 0 and ?mem2.0 = run_memory and ?ans3.0 = run_answers and ?sz2.0 = 2])
      (simp_all add: small_limits dr_sq_eq run_cq_eq sgl)
  moreover have "acq_quiet (sy_drv sys_ex)"
    using id_idle by (simp add: admin_idle_def acq_quiet_def sys_ex_def Let_def)
  ultimately show "sys_start 1 (\<lambda>_. small_ns False) sys_ex"
    by (simp add: sys_start_def sys_inv_def sys_ex_def)
qed

theorem system_irq_runs_witness:
  "\<exists>ios t. ctl_handle_irq (\<lambda>_. id_env) (\<lambda>_ _ ns. ns) (sy_drv sys_ex) = Inr ([], ios, True, sy_drv t) \<and>
    sys_reachable 1 (\<lambda>_. small_ns False) t \<and> map fst ios = [3]"
proof -
  have "se_post id_env = (\<lambda>es. es)" by (simp add: id_env_def)
  moreover have "\<forall>p \<in> set (dr_nss (sy_drv sys_ex)).
      requests_only (dr_ctl (sy_drv sys_ex)) 1 (small_ns False) (\<lambda>_ _ ns. ns)"
    by (simp add: requests_only_idle)
  moreover have "dr_nss (sy_drv sys_ex) = [3]" "ctl_irq_trigger (dr_ctl (sy_drv sys_ex)) = 0"
    by (simp_all add: sys_ex_def id_driver_def)
  ultimately show ?thesis
    using system_irq_runs [OF sys_ex_reachable, of "\<lambda>_. id_env" "\<lambda>_ _ ns. ns"] by auto
qed

end
