(* ===== verification/Program.thy ===== *)
theory Program
  imports Startup System_Runs
begin

text \<open>
  The whole program: from the start of \<^verbatim>\<open>main\<close> to the requests of the clients. What the discovery
  and the identification leave behind is what the runs of the block device start from.
\<close>

section \<open>The namespaces that are served\<close>

text \<open>
  What the DMA space of the bus promises for the list memory of a queue: it is mapped at a page
  boundary and does not touch the end of the address space.
\<close>

definition dma_placed :: "buffer_answers \<Rightarrow> bool" where
  "dma_placed ans \<longleftrightarrow>
     (\<forall>out p. ans_map ans = Inr (out, p) \<longrightarrow> unat p mod 4096 = 0 \<and> unat p + 0x40000 < 2 ^ 64)"

lemma usable_lba_size_pos:
  assumes "usable_lba_size inb = Some lba"
  shows "0 < lba"
proof -
  obtain k :: u8 where "k < 64" and lba: "lba = push_bit (unat k) 1"
    using assms by (force simp: usable_lba_size_def Let_def simp flip: not_le split: if_splits)
  then have "unat k < 64" by (simp add: word_less_nat_alt)
  then have "bit lba (unat k)" unfolding lba by (simp add: bit_simps)
  then show ?thesis by (metis bit_0_eq bot_apply bot_bool_def word_gt_0)
qed

lemma visible_nsids_range:
  assumes "n \<in> set (visible_nsids a)" and "unat (rd32 (snd (ca_ctl a)) (cns_ic_off Nn)) < 65536"
  shows "n < 65536" and "ns_found a n"
proof -
  obtain k where k: "n = of_nat k" "k \<le> unat (rd32 (snd (ca_ctl a)) (cns_ic_off Nn))" and v: "ns_visible a n"
    using assms(1) by (auto simp: visible_nsids_def)
  then have "unat n = k" using assms(2) by (simp add: unat_of_nat)
  then show "n < 65536" using k assms(2) by (simp add: word_less_nat_alt)
  show "ns_found a n" using v by (simp add: ns_visible_def)
qed

lemma sq_created_lists:
  fixes c :: "'cb ctl"
  assumes "sq_created E (ctl_kind c) n sq" and "\<And>env. env \<in> E \<Longrightarrow> dma_placed (se_buf2 env)"
  shows "lists_ok c sq"
proof -
  obtain mem ans env where e: "env \<in> E" and sq: "submission_queue_new mem ans (se_buf2 env) Ioq_size n
      (ucast (cap_dstrd (ctl_cap c))) (if supports_sgl c then of_nat Ioq_sgls else 0) = Inr sq"
    using assms(1) by (auto simp: sq_created_def ctl_kind_def)
  have placed: "unat (ib_paddr b) mod 4096 = 0 \<and> unat (ib_paddr b) + 0x40000 < 2 ^ 64"
    if "inout_buffer_new (se_buf2 env) sz dir = Inr b" for sz dir b
    using that assms(2) [OF e] by (auto simp: inout_buffer_new_Inr_iff dma_placed_def)
  have "q_size sq = Ioq_size" by (rule submission_queue_new_fields(1) [OF sq])
  then show ?thesis
    using sq placed
    by (cases "supports_sgl c")
      (fastforce simp: submission_queue_new_def lists_ok_def sgl_memory_ok_def prp_memory_ok_def bind_res_Inr_iff
        Ioq_size_def Ioq_sgls_def Prp_list_pages_def submission_queue.defs queue.defs)+
qed

text \<open>A namespace that has been made available is the start of a run of its block device.\<close>

definition serves ::
  "admin_cb ctl \<Rightarrow> u32 \<Rightarrow> (ns_ptr \<rightharpoonup> 'c io_callback namespace) \<Rightarrow> ns_ptr \<Rightarrow> u32 \<Rightarrow> bool" where
  "serves c unmap h p n \<longleftrightarrow>
     (\<exists>ns (s :: 'c device_run). h p = Some ns \<and> ns_nsid ns = n \<and> ns_of ns (dv_qp s) = ns \<and>
        dev_reachable c unmap ns s \<and> h_issued (dv_qp s) = [] \<and> sq_can_produce (s_sq (dv_qp s)))"

lemma holds_ready_serves:
  fixes c :: "admin_cb ctl" and h :: "ns_ptr \<rightharpoonup> 'c io_callback namespace"
  assumes r: "holds_ready a E (ctl_kind c) h p n" and n: "n < 65536" "ns_found a n"
    and E: "\<And>env. env \<in> E \<Longrightarrow> dma_placed (se_buf2 env)"
  shows "serves c unmap h p n"
proof -
  obtain ns iv cq sq where h: "h p = Some ns"
    and ns: "ns = (namespace_new n (the (usable_lba_size (snd (ca_ns a n)))) (snd (ca_ns a n)))
      \<lparr>ns_msi := iv, ns_iocq := Some cq, ns_iosq := Some sq\<rparr>"
    and q: "sq_can_produce sq" "cq_created (ctl_kind c) n cq" "sq_created E (ctl_kind c) n sq"
    using r by (auto simp: holds_ready_def ns_ready_def)
  obtain lba where lba: "usable_lba_size (snd (ca_ns a n)) = Some lba" using n(2) by (auto simp: ns_found_def)
  have f: "ns_nsid ns = n" "dev_sector_size ns = lba" "ns_iocq ns = Some cq" "ns_iosq ns = Some sq"
    by (simp_all add: ns namespace_new_def dev_sector_size_def lba)
  let ?s = "dev_start sq cq (\<lambda>_. Wz_request 0 [] undefined) :: 'c device_run"
  obtain mem1 ans1 ans2 where sq: "submission_queue_new mem1 ans1 ans2 Ioq_size (ns_nsid ns)
      (ucast (cap_dstrd (ctl_cap c))) (if supports_sgl c then of_nat Ioq_sgls else 0) = Inr sq"
    using q(3) f(1) by (auto simp: sq_created_def ctl_kind_def)
  obtain mem2 ans3 where cq: "completion_queue_new mem2 ans3 Ioq_size (ns_nsid ns) (ucast (cap_dstrd (ctl_cap c))) = Inr cq"
    using q(2) f(1) by (auto simp: cq_created_def ctl_kind_def)
  have "dev_reachable c unmap ns ?s"
    by (rule dev_reachable.start [OF _ _ _ _ sq cq sq_created_lists [OF q(3) E]])
      (use n(1) f(1,2) usable_lba_size_pos [OF lba] in \<open>simp_all add: Ioq_size_def\<close>)
  moreover have "ns_of ns (dv_qp ?s) = ns"
    using f(3,4) by (cases ns) (simp add: ns_of_def dev_start_def qp_start_def)
  ultimately show ?thesis
    unfolding serves_def using h f(1) q(1)
    by (intro exI [of _ ns] exI [of _ ?s]) (simp add: dev_start_def qp_start_def)
qed

text \<open>Together they are an initial state of the controller's system.\<close>

lemma distinct_visible_nsids:
  assumes "unat (rd32 (snd (ca_ctl a)) (cns_ic_off Nn)) < 65536"
  shows "distinct (visible_nsids a)"
proof -
  have "inj_on (of_nat :: nat \<Rightarrow> u32) {1..<65537}"
  proof (rule inj_onI)
    fix i j assume ij: "i \<in> {1..<65537}" "j \<in> {1..<65537}" and eq: "(of_nat i :: u32) = of_nat j"
    have "unat (of_nat i :: u32) = i" "unat (of_nat j :: u32) = j" using ij by (simp_all add: unat_of_nat)
    with eq show "i = j" by metis
  qed
  then have "inj_on (of_nat :: nat \<Rightarrow> u32) (set [1..<Suc (unat (rd32 (snd (ca_ctl a)) (cns_ic_off Nn)))])"
    by (rule inj_on_subset) (use assms in auto)
  then show ?thesis by (simp add: visible_nsids_def distinct_map)
qed

lemma serves_system:
  fixes d :: "'c io_callback driver"
  assumes "list_all2 (serves (dr_ctl d) unmap (dr_heap d)) (dr_nss d) ns" and "acq_quiet d" and "distinct ns"
  obtains base s where "sys_start unmap base s" and "sy_drv s = d" and "map (\<lambda>p. ns_nsid (base p)) (dr_nss d) = ns"
proof -
  define base where "base p = the (dr_heap d p)" for p
  have all: "serves (dr_ctl d) unmap (dr_heap d) p n \<Longrightarrow> ns_nsid (base p) = n" for p n
    by (auto simp: serves_def base_def)
  have ids: "map (\<lambda>p. ns_nsid (base p)) (dr_nss d) = ns"
    using assms(1) all by (induction rule: list_all2_induct) auto
  then have "distinct (dr_nss d)" using assms(3) distinct_map by blast
  moreover have "\<forall>p \<in> set (dr_nss d). \<exists>s. dr_heap d p = Some (ns_of (base p) (dv_qp s)) \<and>
      dev_reachable (dr_ctl d) unmap (base p) (s :: 'c device_run) \<and> h_issued (dv_qp s) = []"
  proof
    fix p assume "p \<in> set (dr_nss d)"
    then obtain n where "serves (dr_ctl d) unmap (dr_heap d) p n"
      using assms(1) by (metis in_set_conv_nth list_all2_conv_all_nth)
    then show "\<exists>s. dr_heap d p = Some (ns_of (base p) (dv_qp s)) \<and>
      dev_reachable (dr_ctl d) unmap (base p) (s :: 'c device_run) \<and> h_issued (dv_qp s) = []"
      unfolding serves_def base_def by (metis option.sel)
  qed
  then obtain f where "\<forall>p \<in> set (dr_nss d). dr_heap d p = Some (ns_of (base p) (dv_qp (f p))) \<and>
      dev_reachable (dr_ctl d) unmap (base p) (f p :: 'c device_run) \<and> h_issued (dv_qp (f p)) = []"
    by (auto dest!: bchoice)
  ultimately have "sys_start unmap base \<lparr>sy_drv = d, sy_run = f\<rparr>"
    using assms(2) by (simp add: sys_start_def sys_inv_def)
  with ids show ?thesis by (intro that [of base "\<lparr>sy_drv = d, sy_run = f\<rparr>"]) simp_all
qed

lemma child_ok_settings: "child_ok (with_settings se ch) = child_ok ch"
  by (simp add: child_ok_def with_settings_def)

text \<open>
  C3: The whole way from the command line to the data path. Once the program serves, whatever its
  options and whatever devices there are on the bus, every controller it has kept, if it answers
  each admin command and reports 1 to 65535 namespaces, is identified after at most three rounds of
  its interrupt handler for each of them, and one: the client callback is told of exactly the usable
  namespaces, in order, and then of the end. Each of them, and no other, is then held by the
  controller as an initial state of its block device, with room for a request, and the controller
  is an initial state of the system of all of them: all that is shown of the runs of a device, and
  of the controller's interrupts, holds from then on.
\<close>

theorem program_serves_namespaces:
  fixes sv :: "'c io_callback server"
  assumes "driver_main su ae os operands chs = Inr (Serving sv)" and "length chs < 2 ^ 32 - 1"
    and "list_all child_ok chs" and "(dma, d) \<in> set (dc_ctls (svr_state sv))"
    and "\<And>i. services_ok (envs i)" and "\<And>i. dma_placed (se_buf2 (envs i))"
    and "take_bit 15 (fst (ca_ctl a)) = 0"
    and "nn = rd32 (snd (ca_ctl a)) (cns_ic_off Nn)" and "1 \<le> nn" and "unat nn < 65536"
  shows "\<exists>evs d'. (\<forall>k \<ge> 3 * unat nn + 1. rounds a envs k d = Inr (evs, d')) \<and>
    client_calls evs = map Ev_visible (visible_nsids a) @ [Ev_done] \<and>
    list_all2 (serves (dr_ctl d') unmap (dr_heap d')) (dr_nss d') (visible_nsids a) \<and>
    (\<exists>base s. sys_reachable unmap base s \<and> sy_drv s = d' \<and>
       map (\<lambda>p. ns_nsid (base p)) (dr_nss d') = visible_nsids a)"
proof -
  obtain ic where m: "icu_new (su_icu_info su) = Inr ic"
    "device_discovery (map (with_settings (svr_settings sv)) chs)
      (discovery_new ic (st_trusted (svr_settings sv))) = Inr (svr_registered sv, svr_state sv)"
    by (rule driver_main_Serving [OF assms(1)])
  have "list_all child_ok (map (with_settings (svr_settings sv)) chs)"
    using assms(3) by (simp add: list.pred_map child_ok_settings comp_def)
  from discovered_controller_served [where envs = envs, OF m(2) _ this icu_new_fields(1) [OF m(1)] assms(4,5,7-10)]
  obtain evs d' where e: "\<forall>k \<ge> 3 * unat nn + 1. rounds a envs k d = Inr (evs, d')"
    "client_calls evs = map Ev_visible (visible_nsids a) @ [Ev_done]"
    "list_all2 (holds_ready a (range envs) (ctl_kind (dr_ctl d')) (dr_heap d')) (dr_nss d') (visible_nsids a)"
    "acq_quiet d'"
    using assms(2) by (auto simp: admin_idle_def Let_def)
  have served: "list_all2 (serves (dr_ctl d') unmap (dr_heap d')) (dr_nss d') (visible_nsids a)"
    using e(3)
  proof (rule list.rel_mono_strong)
    fix p n assume "n \<in> set (visible_nsids a)" "holds_ready a (range envs) (ctl_kind (dr_ctl d')) (dr_heap d') p n"
    with visible_nsids_range [of n a] assms(6,8,10)
    show "serves (dr_ctl d') unmap (dr_heap d') p n" by (auto intro!: holds_ready_serves)
  qed
  have "distinct (visible_nsids a)" using distinct_visible_nsids assms(8,10) by simp
  from serves_system [OF served e(4) this] obtain base s where "sys_start unmap base s" "sy_drv s = d'"
    "map (\<lambda>p. ns_nsid (base p)) (dr_nss d') = visible_nsids a" by blast
  with e(1,2) served show ?thesis using sys_reachable.start by blast
qed

section \<open>A concrete program\<close>

text \<open>Without options, on a bus whose second device is an NVMe controller.\<close>

lemma ex_default_settings: "parse_args arg_env_example [] [] = Some se \<Longrightarrow> with_settings se (ex_child b) = ex_child b"
  by (auto simp: parse_args_def arg_state_new_def add_client_def client_opts_new_def settings.defs
      with_settings_def ex_child_def ex_env_def)

lemma ex_program:
  obtains sv :: "'c io_callback server" and d where
    "driver_main ex_startup arg_env_example [] [] [ex_child False, ex_child True] = Inr (Serving sv)"
    and "dc_ctls (svr_state sv) = [(5, d)]"
proof -
  obtain ic where ic: "icu_new (su_icu_info ex_startup) = Inr ic"
    by (simp add: ex_startup_def icu_new_def set_msi_limit_def msi_bitmap_new_def)
  obtain se where se: "parse_args arg_env_example [] [] = Some se"
    by (simp add: parse_args_def arg_state_new_def add_client_def client_opts_new_def Let_def)
  obtain st :: "'c io_callback discovery" and d where
    "device_discovery [ex_child False, ex_child True] (discovery_new ic (st_trusted se)) = Inr (False, st)"
    "dc_ctls st = [(5, d)]"
    using ex_discovery by blast
  with ic se show ?thesis
    using that by (simp add: driver_main_def blk_mgr_new_def setup_hardware_def ex_startup_def
        ex_default_settings [OF se])
qed

lemma ex_placed: "dma_placed run_answers"
  by (simp add: dma_placed_def run_answers_def)

theorem program_serves_namespaces_witness:
  "\<exists>(sv :: nat io_callback server) d evs d' p.
     driver_main ex_startup arg_env_example [] [] [ex_child False, ex_child True] = Inr (Serving sv) \<and>
     dc_ctls (svr_state sv) = [(5, d)] \<and> rounds (id_answers 0 2) (\<lambda>_. id_env) 7 d = Inr (evs, d') \<and>
     client_calls evs = [Ev_visible 1, Ev_done] \<and> dr_nss d' = [p] \<and> serves (dr_ctl d') 1 (dr_heap d') p 1 \<and>
     (\<exists>base s. sys_reachable 1 base s \<and> sy_drv s = d')"
proof (rule ex_program)
  fix sv :: "nat io_callback server" and d
  assume m: "driver_main ex_startup arg_env_example [] [] [ex_child False, ex_child True] = Inr (Serving sv)"
    "dc_ctls (svr_state sv) = [(5, d)]"
  have vis: "visible_nsids (id_answers 0 2) = [1]"
    unfolding visible_nsids_def id_nn id_visible by (simp add: upt_rec)
  have "\<exists>evs d'. (\<forall>k \<ge> 3 * unat (2 :: u32) + 1. rounds (id_answers 0 2) (\<lambda>_. id_env) k d = Inr (evs, d')) \<and>
    client_calls evs = map Ev_visible (visible_nsids (id_answers 0 2)) @ [Ev_done] \<and>
    list_all2 (serves (dr_ctl d') 1 (dr_heap d')) (dr_nss d') (visible_nsids (id_answers 0 2)) \<and>
    (\<exists>base s. sys_reachable 1 base s \<and> sy_drv s = d' \<and>
       map (\<lambda>p. ns_nsid (base p)) (dr_nss d') = visible_nsids (id_answers 0 2))"
    by (rule program_serves_namespaces [OF m(1) _ _ _ id_services _ _ id_nn(1) [symmetric]])
      (simp_all add: ex_child_ok m(2) id_status word_le_nat_alt id_env_def ex_placed)
  then obtain evs d' where "\<forall>k \<ge> 7. rounds (id_answers 0 2) (\<lambda>_. id_env) k d = Inr (evs, d')"
    "client_calls evs = [Ev_visible 1, Ev_done]"
    "list_all2 (serves (dr_ctl d') 1 (dr_heap d')) (dr_nss d') [1]" "\<exists>base s. sys_reachable 1 base s \<and> sy_drv s = d'"
    by (auto simp: vis)
  with m show ?thesis
    by (intro exI [of _ sv] exI [of _ d] exI [of _ evs] exI [of _ d']) (auto simp: list_all2_Cons2)
qed

end
