(* ===== verification/Vectors.thy ===== *)
theory Vectors
  imports Interrupt_Laws
begin

text \<open>
  The interrupt vectors of the namespaces as a resource: whatever the controller answers and
  whatever fails on the way, every vector that is allocated belongs to somebody, to one only, and
  goes back when its namespace is destroyed.
\<close>

section \<open>The account\<close>

text \<open>
  \<open>own\<close> are the vectors that do not belong to namespaces of this controller (those of the
  controllers themselves, and of others); \<open>v p\<close> is the vector of the namespace at \<open>p\<close>, with 0 for
  the namespaces without one.
\<close>

definition accounted :: "u32 set \<Rightarrow> icu \<Rightarrow> (ns_ptr \<Rightarrow> u32) \<Rightarrow> bool" where
  "accounted own i v \<longleftrightarrow> icu_inv i \<and> 0 \<in> own \<and> icu_allocated i = own \<union> (range v - {0}) \<and>
     (\<forall>p. v p \<noteq> 0 \<longrightarrow> v p \<notin> own) \<and> (\<forall>p p'. v p \<noteq> 0 \<longrightarrow> v p' = v p \<longrightarrow> p' = p)"

lemma accounted_alloc:
  assumes "accounted own i v" and "bitmap_scan scan" and "icu_alloc_msi scan i = Inr (n, i')" and "v p = 0"
  shows "accounted own i' (v(p := n))"
proof -
  have inv: "icu_inv i" using assms(1) by (simp add: accounted_def)
  note n = bitmap_scan.icu_alloc_InrD [OF assms(2) inv assms(3)]
  have "n \<noteq> 0" "n \<notin> own" "n \<notin> range v" using n assms(1,4) by (auto simp: accounted_def)
  moreover have "range (v(p := n)) - {0} = insert n (range v - {0})" using \<open>n \<noteq> 0\<close> assms(4) by auto
  ultimately show ?thesis using n assms(1) unfolding accounted_def by (auto split: if_splits)
qed

lemma accounted_free:
  assumes "accounted own i v" and "v p \<noteq> 0" and "icu_free_msi (v p) i = Inr i'"
  shows "accounted own i' (v(p := 0))"
proof -
  have "icu_inv i" "v p \<in> icu_allocated i" using assms(1,2) by (auto simp: accounted_def)
  from icu_free_back [OF this] assms(3) have i': "icu_allocated i' = icu_allocated i - {v p}" "icu_inv i'" by auto
  have "range (v(p := 0)) - {0} = range v - {0} - {v p}" using assms(1,2) by (auto simp: accounted_def)
  then show ?thesis using i' assms(1,2) by (auto simp: accounted_def)
qed

lemma allocate_msi_accounted:
  assumes "accounted own i v" and "bitmap_scan (ie_scan_zero env)" and "v p = 0"
    and "allocate_msi env i c = Inr (iv, evs, i1, c1)"
  shows "accounted own i1 (v(p := iv))"
  using assms(4) accounted_alloc [OF assms(1,2) _ assms(3)] assms(1,3)
  by (auto simp: allocate_msi_def bind_res_Inr_iff Let_def fun_upd_idem split: if_splits sum.splits)

lemma ctl_free_msi_accounted:
  assumes "accounted own i v" and "ctl_free_msi (v p) i = Inr (evs, i1)"
  shows "accounted own i1 (v(p := 0))"
  using assms(2) accounted_free [OF assms(1), of p] assms(1)
  by (auto simp: ctl_free_msi_def bind_res_Inr_iff fun_upd_idem split: if_splits)

section \<open>The callbacks of the admin queue\<close>

definition vector_of :: "(ns_ptr \<rightharpoonup> 'io namespace) \<Rightarrow> ns_ptr \<Rightarrow> u32" where
  "vector_of h p = (case h p of None \<Rightarrow> 0 | Some ns \<Rightarrow> ns_msi ns)"

definition vectors_ok :: "u32 set \<Rightarrow> 'io driver \<Rightarrow> bool" where
  "vectors_ok own st \<longleftrightarrow> accounted own (dr_icu st) (vector_of (dr_heap st)) \<and>
     (\<forall>p. dr_next st \<le> p \<longrightarrow> dr_heap st p = None)"

lemma vector_of_upd [simp]:
  "vector_of (h(p \<mapsto> ns)) = (vector_of h)(p := ns_msi ns)" "vector_of (h(p := None)) = (vector_of h)(p := 0)"
  by (auto simp: vector_of_def fun_eq_iff)

lemma vector_of_empty [simp]: "vector_of Map.empty p = 0"
  by (simp add: vector_of_def)

lemma vector_of_Some: "h p = Some ns \<Longrightarrow> vector_of h p = ns_msi ns"
  by (simp add: vector_of_def)

lemma range_vector_of: "range (vector_of h) - {0} = {ns_msi ns | p ns. h p = Some ns \<and> ns_msi ns \<noteq> 0}"
proof (intro set_eqI iffI)
  fix n assume "n \<in> range (vector_of h) - {0}"
  then obtain p where p: "n = vector_of h p" "n \<noteq> 0" by auto
  then obtain ns where "h p = Some ns" by (cases "h p") (simp_all add: vector_of_def)
  with p vector_of_Some [of h p ns] show "n \<in> {ns_msi ns | p ns. h p = Some ns \<and> ns_msi ns \<noteq> 0}" by auto
next
  fix n assume "n \<in> {ns_msi ns | p ns. h p = Some ns \<and> ns_msi ns \<noteq> 0}"
  then obtain p ns where "h p = Some ns" "n = ns_msi ns" "n \<noteq> 0" by blast
  with vector_of_Some [of h p ns] show "n \<in> range (vector_of h) - {0}" by (metis DiffI rangeI singletonD)
qed

text \<open>Operations that issue commands or unmap buffers touch neither the objects nor the ICU.\<close>

definition same_objects :: "'io driver \<Rightarrow> 'io driver \<Rightarrow> bool" where
  "same_objects st st' \<longleftrightarrow> dr_icu st' = dr_icu st \<and> dr_heap st' = dr_heap st \<and> dr_next st' = dr_next st"

lemma same_objects_ok: "same_objects st st' \<Longrightarrow> vectors_ok own st' = vectors_ok own st"
  by (simp add: same_objects_def vectors_ok_def)

lemma and_then_Inr_iff:
  "and_then r f = Inr (evs, st') \<longleftrightarrow>
    (\<exists>e1 st1 e2. r = Inr (e1, st1) \<and> f st1 = Inr (e2, st') \<and> evs = e1 @ e2)"
  by (auto simp: and_then_def bind_res_Inr_iff)

lemma issues_same_objects:
  "identify_namespace env nn n st = Inr (evs, st') \<Longrightarrow> same_objects st st'"
  "next_namespace env nn n st = Inr (evs, st') \<Longrightarrow> same_objects st st'"
  "unmap_in env b st = Inr (evs, st') \<Longrightarrow> same_objects st st'"
  "release_cb env sf cb st = Inr (evs, st') \<Longrightarrow> same_objects st st'"
  by (auto simp: identify_namespace_def next_namespace_def unmap_in_def release_cb_def same_objects_def
      bind_res_Inr_iff Let_def split: option.splits if_splits admin_cb.splits)

lemma namespace_destroy_ok_vectors:
  assumes "namespace_destroy env p st = Inr (evs, st')" and "vectors_ok own st"
  shows "vectors_ok own st'"
proof -
  obtain ns es i where ns: "dr_heap st p = Some ns" and f: "ctl_free_msi (ns_msi ns) (dr_icu st) = Inr (es, i)"
    and st': "st' = st\<lparr>dr_icu := i, dr_heap := (dr_heap st)(p := None)\<rparr>"
    using assms(1) by (auto simp: namespace_destroy_def bind_res_Inr_iff split: option.splits)
  have "accounted own i ((vector_of (dr_heap st))(p := 0))"
    using assms(2) f by (intro ctl_free_msi_accounted [of _ "dr_icu st"]) (simp_all add: vectors_ok_def vector_of_Some [of "dr_heap st", OF ns])
  then show ?thesis using assms(2) by (simp add: vectors_ok_def st')
qed

lemma ns_identified_vectors:
  assumes "ns_identified env status nn n inb st = Inr (evs, st')" and "vectors_ok own st"
    and "bitmap_scan (ie_scan_zero (se_irq env))"
  shows "vectors_ok own st'"
proof (cases "status = 0 \<and> usable_lba_size (se_data env inb) \<noteq> None")
  case False
  then consider "next_namespace env nn n st = Inr (evs, st')"
    | "and_then (unmap_in env inb st) (next_namespace env nn n) = Inr (evs, st')"
    using assms(1) by (cases "status = 0") (auto simp: ns_identified_def)
  then show ?thesis
  proof cases
    case 1
    from issues_same_objects(2) [OF this] show ?thesis using assms(2) by (simp add: same_objects_ok)
  next
    case 2
    then obtain e1 st1 e2 where "unmap_in env inb st = Inr (e1, st1)" "next_namespace env nn n st1 = Inr (e2, st')"
      unfolding and_then_Inr_iff by blast
    from issues_same_objects(3) [OF this(1)] issues_same_objects(2) [OF this(2)]
    show ?thesis using assms(2) by (simp add: same_objects_ok)
  qed
next
  case True
  let ?p = "dr_next st" and ?ns = "namespace_new n (the (usable_lba_size (se_data env inb))) (se_data env inb)"
  let ?st1 = "st\<lparr>dr_next := Suc ?p, dr_heap := (dr_heap st)(?p \<mapsto> ?ns)\<rparr>"
  have fresh: "dr_heap st ?p = None" using assms(2) by (simp add: vectors_ok_def)
  obtain e1 st2 e2 where a: "async_loop_init env ?p nn ?st1 = Inr (e1, st2)" "unmap_in env inb st2 = Inr (e2, st')"
    using True assms(1) unfolding ns_identified_def Let_def
    by (auto simp: and_then_Inr_iff simp del: and_then_Inr)
  then obtain iv es i c cq c1 where m: "allocate_msi (se_irq env) (dr_icu st) (dr_ctl st) = Inr (iv, es, i, c)"
    "st2 = ?st1\<lparr>dr_icu := i, dr_ctl := c1,
       dr_heap := (dr_heap ?st1)(?p \<mapsto> ?ns\<lparr>ns_msi := iv, ns_iocq := Some cq\<rparr>)\<rparr>"
    by (auto simp: async_loop_init_def bind_res_Inr_iff)
  have v0: "vector_of (dr_heap st) ?p = 0" by (simp add: vector_of_def fresh)
  have "accounted own i ((vector_of (dr_heap st))(?p := iv))"
    by (rule allocate_msi_accounted [of _ _ "vector_of (dr_heap st)" _ ?p, OF _ assms(3) v0 m(1)]) (use assms(2) in \<open>simp add: vectors_ok_def\<close>)
  then have "vectors_ok own st2" using assms(2) by (simp add: vectors_ok_def m(2))
  with issues_same_objects(3) [OF a(2)] show ?thesis by (simp add: same_objects_ok)
qed

lemma run_admin_cb_vectors:
  assumes "run_admin_cb env status cb st = Inr (evs, st')" and "vectors_ok own st"
    and "bitmap_scan (ie_scan_zero (se_irq env))"
  shows "vectors_ok own st'"
proof (cases cb)
  case (Cb_identify ic)
  show ?thesis
  proof (cases "status = 0")
    case True
    let ?d = "st\<lparr>dr_ctl := (dr_ctl st)\<lparr>ctl_sn := serial_number (se_data env ic),
      ctl_mdts := se_data env ic (cns_ic_off Mdts), ctl_sgls := (rd32 (se_data env ic) (cns_ic_off Sgls) AND 0x3 \<noteq> 0)\<rparr>\<rparr>"
    have "and_then (unmap_in env ic ?d) (identify_namespace env (rd32 (se_data env ic) (cns_ic_off Nn)) 1) = Inr (evs, st')"
      using True assms(1) by (simp only: Cb_identify run_admin_cb.simps ctl_identified_def Let_def) simp
    then obtain e1 st1 e2 where u: "unmap_in env ic ?d = Inr (e1, st1)"
      "identify_namespace env (rd32 (se_data env ic) (cns_ic_off Nn)) 1 st1 = Inr (e2, st')"
      unfolding and_then_Inr_iff by blast
    have "vectors_ok own ?d" using assms(2) by (simp add: vectors_ok_def)
    with issues_same_objects(3) [OF u(1)] issues_same_objects(1) [OF u(2)] show ?thesis
      by (simp add: same_objects_ok)
  next
    case False
    then show ?thesis using assms(1,2) by (simp add: Cb_identify ctl_identified_def)
  qed
next
  case (Cb_identify_ns nn n inb)
  then show ?thesis using assms(1) ns_identified_vectors [OF _ assms(2,3)] by simp
next
  case (Cb_iocq p nsids)
  then obtain ns where ns: "dr_heap st p = Some ns"
    using assms(1) by (auto simp: iocq_created_def split: option.splits)
  show ?thesis
  proof (cases "status = 0")
    case True
    then obtain c sq where "st' = st\<lparr>dr_ctl := c, dr_heap := (dr_heap st)(p \<mapsto> ns\<lparr>ns_iosq := Some sq\<rparr>)\<rparr>"
      using assms(1) ns by (auto simp: Cb_iocq iocq_created_def bind_res_Inr_iff)
    moreover have "(vector_of (dr_heap st))(p := ns_msi ns) = vector_of (dr_heap st)"
      by (simp add: fun_upd_idem vector_of_Some [of "dr_heap st", OF ns])
    moreover have "\<not> dr_next st \<le> p" using assms(2) ns by (auto simp: vectors_ok_def)
    ultimately show ?thesis using assms(2) by (auto simp: vectors_ok_def)
  next
    case False
    then obtain e1 st1 e2 where "next_namespace env nsids (ns_nsid ns) st = Inr (e1, st1)"
      "namespace_destroy env p st1 = Inr (e2, st')"
      using assms(1) ns by (auto simp: Cb_iocq iocq_created_def and_then_Inr_iff simp del: and_then_Inr)
    then show ?thesis
      using assms(2) issues_same_objects(2) same_objects_ok namespace_destroy_ok_vectors by metis
  qed
next
  case (Cb_iosq p nsids)
  then obtain ns where ns: "dr_heap st p = Some ns"
    using assms(1) by (auto simp: iosq_created_def split: option.splits)
  let ?next = "if ns_nsid ns + 1 \<le> nsids then identify_namespace env nsids (ns_nsid ns + 1) st else Inr ([], st)"
  let ?done = "if ns_nsid ns = nsids then [Ev_done] else []"
  have "and_then ?next (\<lambda>st1. if status \<noteq> 0 then and_then (Inr (?done, st1)) (namespace_destroy env p)
      else Inr (Ev_visible (ns_nsid ns) # ?done, add_ns p st1)) = Inr (evs, st')"
    using assms(1) ns by (simp only: Cb_iosq run_admin_cb.simps iosq_created_def Let_def option.case)
  then obtain e1 st1 e2 where i: "?next = Inr (e1, st1)"
    and r: "(if status \<noteq> 0 then and_then (Inr (?done, st1)) (namespace_destroy env p)
      else Inr (Ev_visible (ns_nsid ns) # ?done, add_ns p st1)) = Inr (e2, st')"
    unfolding and_then_Inr_iff [of ?next] by blast
  have st': "if status \<noteq> 0 then \<exists>e2. namespace_destroy env p st1 = Inr (e2, st') else st' = add_ns p st1"
    using r by (cases "status = 0") (auto simp: bind_res_Inr_iff)
  have "same_objects st st1" using i issues_same_objects(1) [of env nsids "ns_nsid ns + 1" st e1 st1]
    by (cases "ns_nsid ns + 1 \<le> nsids") (simp_all add: same_objects_def)
  then have ok: "vectors_ok own st1" using assms(2) by (simp add: same_objects_ok)
  show ?thesis
  proof (cases "status = 0")
    case True
    then show ?thesis using st' ok by (simp add: vectors_ok_def add_ns_def)
  next
    case False
    then show ?thesis using st' namespace_destroy_ok_vectors [OF _ ok] by auto
  qed
qed

lemma acq_round_vectors:
  assumes "acq_round env st = Inr (Some (evs, st'))" and "vectors_ok own st"
    and "bitmap_scan (ie_scan_zero (se_irq env))"
  shows "vectors_ok own st'"
proof -
  obtain status cb e1 st1 e2 acq asq where r:
    "run_admin_cb env status cb (st\<lparr>dr_ctl := (dr_ctl st)\<lparr>ctl_acq := acq, ctl_asq := asq\<rparr>\<rparr>) = Inr (e1, st1)"
    "release_cb env status cb st1 = Inr (e2, st')"
    using assms(1) by (auto simp: acq_round_def and_then_Inr_iff bind_res_Inr_iff simp del: and_then_Inr split: prod.splits option.splits if_splits)
  have "vectors_ok own (st\<lparr>dr_ctl := (dr_ctl st)\<lparr>ctl_acq := acq, ctl_asq := asq\<rparr>\<rparr>)"
    using assms(2) by (simp add: vectors_ok_def)
  from run_admin_cb_vectors [OF r(1) this assms(3)] issues_same_objects(4) [OF r(2)] show ?thesis
    by (simp add: same_objects_ok)
qed

lemma round_cases:
  obtains (error) e where "r = Inl e" | (stop) "r = Inr None" | (go) x y where "r = Inr (Some (x, y))"
proof (cases r)
  case (Inr z)
  then show ?thesis using stop go by (cases z) auto
qed (use error in simp)

lemma acq_loop_vectors:
  assumes "acq_loop envs k evs st = Some (Inr (evs', st'))" and "vectors_ok own st"
    and "\<And>k. bitmap_scan (ie_scan_zero (se_irq (envs k)))"
  shows "vectors_ok own st'"
proof -
  have loop: "vectors_ok own st \<longrightarrow> (\<forall>evs' st'. r = Inr (evs', st') \<longrightarrow> vectors_ok own st')"
    if ret: "acq_loop envs k evs st = Some r" for r
  proof (rule acq_loop.raw_induct [where P = "\<lambda>envs' k evs st r. envs' = envs \<longrightarrow>
      vectors_ok own st \<longrightarrow> (\<forall>evs' st'. r = Inr (evs', st') \<longrightarrow> vectors_ok own st')", OF _ ret, THEN mp, OF _ refl], intro impI)
    fix f envs' k evs st r
    assume IH: "\<And>envs' k evs st r. f envs' k evs st = Some r \<Longrightarrow> envs' = envs \<longrightarrow>
        vectors_ok own st \<longrightarrow> (\<forall>evs' st'. r = Inr (evs', st') \<longrightarrow> vectors_ok own st')"
      and body: "(let st0 = see_ring (envs' k) st in
        case acq_round (envs' k) st0 of Inl e \<Rightarrow> Some (Inl e) | Inr None \<Rightarrow> Some (Inr (evs, st0))
        | Inr (Some (evs1, st1)) \<Rightarrow> f envs' (Suc k) (evs @ evs1) st1) = Some r"
      and [simp]: "envs' = envs" and ok: "vectors_ok own st"
    let ?st0 = "see_ring (envs k) st"
    have seen: "vectors_ok own ?st0" using ok by (simp add: see_ring_def vectors_ok_def)
    show "\<forall>evs' st'. r = Inr (evs', st') \<longrightarrow> vectors_ok own st'"
    proof (cases rule: round_cases [of "acq_round (envs k) ?st0"])
      case (error e)
      with body show ?thesis by auto
    next
      case stop
      with body seen show ?thesis by auto
    next
      case (go e1 st1)
      with body have "f envs (Suc k) (evs @ e1) st1 = Some r" by simp
      from IH [OF this] acq_round_vectors [OF go seen assms(3)] show ?thesis by simp
    qed
  qed
  from loop [OF assms(1)] assms(2) show ?thesis by blast
qed

section \<open>The handlers of the namespaces\<close>

lemma ns_irq_round_msi:
  assumes "\<And>cb sf n. ns_msi (run cb sf n) = ns_msi n" and "ns_irq_round run ns = Inr (Some (ev, ns'))"
  shows "ns_msi ns' = ns_msi ns"
  using assms(2)
  by (auto simp: ns_irq_round_def bind_res_Inr_iff assms(1) Let_def split: option.splits prod.splits if_splits)

lemma ns_handle_irq_msi:
  assumes "\<And>cb sf n. ns_msi (run cb sf n) = ns_msi n" and "ns_handle_irq run ns = Inr (evs, ns')"
  shows "ns_msi ns' = ns_msi ns"
proof -
  have loop: "\<forall>evs' ns'. r = Inr (evs', ns') \<longrightarrow> ns_msi ns' = ns_msi ns"
    if ret: "ns_irq_loop run evs ns = Some r" for evs r
  proof (rule ns_irq_loop.raw_induct [where P = "\<lambda>run' evs ns r. run' = run \<longrightarrow>
      (\<forall>evs' ns'. r = Inr (evs', ns') \<longrightarrow> ns_msi ns' = ns_msi ns)", OF _ ret, THEN mp, OF _ refl], intro impI)
    fix f run' evs ns r
    assume IH: "\<And>run' evs ns r. f run' evs ns = Some r \<Longrightarrow> run' = run \<longrightarrow>
        (\<forall>evs' ns'. r = Inr (evs', ns') \<longrightarrow> ns_msi ns' = ns_msi ns)"
      and body: "(case ns_irq_round run' ns of Inl e \<Rightarrow> Some (Inl e) | Inr None \<Rightarrow> Some (Inr (evs, ns))
        | Inr (Some (ev, ns1)) \<Rightarrow> f run' (evs @ [ev]) ns1) = Some r"
      and [simp]: "run' = run"
    show "\<forall>evs' ns'. r = Inr (evs', ns') \<longrightarrow> ns_msi ns' = ns_msi ns"
    proof (cases rule: round_cases [of "ns_irq_round run ns"])
      case (error e)
      then have "r = Inl e" using body by simp
      then show ?thesis by simp
    next
      case stop
      then have "r = Inr (evs, ns)" using body by simp
      then show ?thesis by simp
    next
      case (go ev ns1)
      then have "f run (evs @ [ev]) ns1 = Some r" using body by simp
      with IH ns_irq_round_msi [OF assms(1) go] show ?thesis by metis
    qed
  qed
  from assms(2) have "ns_irq_loop run [] ns = Some (Inr (evs, ns'))"
    by (auto simp: ns_handle_irq_def split: option.splits)
  from loop [OF this] show ?thesis by blast
qed

lemma nss_handle_irq_vectors:
  assumes "nss_handle_irq run ps h = Inr (ios, h')" and "\<And>cb sf n. ns_msi (run cb sf n) = ns_msi n"
  shows "vector_of h' = vector_of h \<and> dom h' = dom h"
  using assms(1)
proof (induction ps arbitrary: h ios)
  case (Cons p ps)
  then obtain ns evs ns1 ios1 where s: "h p = Some ns" "ns_handle_irq run ns = Inr (evs, ns1)"
    "nss_handle_irq run ps (h(p \<mapsto> ns1)) = Inr (ios1, h')"
    by (auto simp: bind_res_Inr_iff split: option.splits)
  have "vector_of (h(p \<mapsto> ns1)) = vector_of h"
    using ns_handle_irq_msi [OF assms(2) s(2)] vector_of_Some [of h, OF s(1)] by (simp add: fun_upd_idem)
  moreover have "dom (h(p \<mapsto> ns1)) = dom h" using s(1) by auto
  ultimately show ?case using Cons.IH [OF s(3)] by metis
qed simp

text \<open>
  C14: No interrupt vector is lost, shared or taken from somebody else. One interrupt of the
  controller, with any completions on the admin queue, any answers of the controller to the commands
  of the identification, and any failures that the handler survives, keeps the account: the
  allocated vectors are those that did not belong to namespaces before and those of the namespaces
  that exist now, no two of which have the same one. In particular a namespace whose queues could
  not be created has given its vector back. (Vector 0 is the controller's own.)
\<close>

theorem vectors_accounted:
  assumes "vectors_ok own st" and "\<And>k. bitmap_scan (ie_scan_zero (se_irq (envs k)))"
    and "\<And>cb sf n. ns_msi (run cb sf n) = ns_msi n"
    and "ctl_handle_irq envs run st = Inr (evs, ios, unmask, st')"
  shows "icu_allocated (dr_icu st') = own \<union> {ns_msi ns | p ns. dr_heap st' p = Some ns \<and> ns_msi ns \<noteq> 0} \<and>
    (\<forall>p ns. dr_heap st' p = Some ns \<and> ns_msi ns \<noteq> 0 \<longrightarrow> ns_msi ns \<notin> own) \<and>
    (\<forall>p ns q ns'. dr_heap st' p = Some ns \<and> dr_heap st' q = Some ns' \<and> ns_msi ns \<noteq> 0 \<and>
       ns_msi ns' = ns_msi ns \<longrightarrow> p = q) \<and> vectors_ok own st'"
proof -
  obtain st1 h where s: "acq_loop envs 0 [] st = Some (Inr (evs, st1))"
    "nss_handle_irq run (dr_nss st1) (dr_heap st1) = Inr (ios, h)" "st' = st1\<lparr>dr_heap := h\<rparr>"
    using assms(4) by (auto simp: ctl_handle_irq_def bind_res_Inr_iff split: option.splits)
  have "vectors_ok own st1" by (rule acq_loop_vectors [OF s(1) assms(1,2)])
  moreover note nss_handle_irq_vectors [OF s(2) assms(3)]
  ultimately have ok: "vectors_ok own st'"
    by (auto simp: vectors_ok_def s(3))
  from ok have "icu_allocated (dr_icu st') = own \<union> {ns_msi ns | p ns. dr_heap st' p = Some ns \<and> ns_msi ns \<noteq> 0}"
    by (simp add: vectors_ok_def accounted_def range_vector_of)
  moreover have "ns_msi ns \<notin> own" if "dr_heap st' p = Some ns" "ns_msi ns \<noteq> 0" for p ns
    using ok that vector_of_Some [of "dr_heap st'", OF that(1)] unfolding vectors_ok_def accounted_def by metis
  moreover have "p = q" if "dr_heap st' p = Some ns" "dr_heap st' q = Some ns'" "ns_msi ns \<noteq> 0" "ns_msi ns' = ns_msi ns"
    for p q ns ns'
    using ok that vector_of_Some [of "dr_heap st'", OF that(1)] vector_of_Some [of "dr_heap st'", OF that(2)] unfolding vectors_ok_def accounted_def by metis
  ultimately show ?thesis using ok by blast
qed

section \<open>A concrete account\<close>

text \<open>A namespace with the vector 1, completions in its queue, next to the controller's vector 0.\<close>

definition vec_driver :: "nat driver" where
  "vec_driver = id_driver\<lparr>dr_icu := small_icu\<lparr>icu_msis :=
       \<lparr>mb_bits = True # True # replicate 2046 False, mb_max_available = 4\<rparr>\<rparr>,
     dr_heap := [3 \<mapsto> irq_ns\<lparr>ns_msi := 1\<rparr>], dr_next := 4, dr_nss := [3]\<rparr>"

lemma vec_driver_ok: "vectors_ok {0} vec_driver"
proof -
  have "icu_allocated (dr_icu vec_driver) = {0, 1}"
  proof (rule set_eqI)
    fix n :: u32
    have "n \<in> icu_allocated (dr_icu vec_driver) \<longleftrightarrow> unat n = 0 \<or> unat n = 1"
      by (cases "unat n"; cases "unat n - 1")
        (auto simp: icu_allocated_def vec_driver_def small_icu_def Num_msis_def nth_Cons')
    also have "\<dots> \<longleftrightarrow> n \<in> {0, 1}" by (simp flip: unat_eq_iff)
    finally show "n \<in> icu_allocated (dr_icu vec_driver) \<longleftrightarrow> n \<in> {0, 1}" .
  qed
  moreover have "range (vector_of (dr_heap vec_driver)) - {0} = {1}"
    by (auto simp: range_vector_of vec_driver_def split: if_splits)
  ultimately show ?thesis
    by (auto simp: vectors_ok_def accounted_def icu_inv_def vec_driver_def small_icu_def Num_msis_def
        vector_of_def split: if_splits)
qed

lemma vec_driver_served:
  "\<exists>ios unmask st'. ctl_handle_irq (\<lambda>_. id_env) (\<lambda>_ _ ns. ns) vec_driver = Inr ([], ios, unmask, st')"
proof -
  have "acq_quiet vec_driver"
    using id_idle by (simp add: admin_idle_def acq_quiet_def vec_driver_def Let_def)
  moreover have "ns_pending (irq_ns\<lparr>ns_msi := 1\<rparr>) irq_posted 1"
    using irq_setup irq_tracks by (simp add: ns_pending_def answers_def ns_qid_def)
  then have "\<forall>p \<in> set (dr_nss vec_driver). \<exists>ns. dr_heap vec_driver p = Some ns \<and> ns_pending ns irq_posted 1"
    by (simp add: vec_driver_def)
  moreover have "se_post id_env = (\<lambda>es. es)" "distinct (dr_nss vec_driver)"
    by (simp_all add: id_env_def vec_driver_def)
  ultimately show ?thesis
    using ctl_handle_irq_serves [OF keeps_namespace_idle, of vec_driver "\<lambda>_. id_env" "\<lambda>_. irq_posted" "\<lambda>_. 1"] by blast
qed

theorem vectors_accounted_witness:
  "\<exists>ios unmask st'. ctl_handle_irq (\<lambda>_. id_env) (\<lambda>_ _ ns. ns) vec_driver = Inr ([], ios, unmask, st') \<and>
    icu_allocated (dr_icu st') = {0} \<union> {ns_msi ns | p ns. dr_heap st' p = Some ns \<and> ns_msi ns \<noteq> 0} \<and>
    vectors_ok {0} st'"
proof -
  obtain ios unmask st' where s: "ctl_handle_irq (\<lambda>_. id_env) (\<lambda>_ _ ns. ns) vec_driver = Inr ([], ios, unmask, st')"
    using vec_driver_served by blast
  have "bitmap_scan (ie_scan_zero (se_irq id_env))" using id_services by (simp add: services_ok_def)
  from vectors_accounted [OF vec_driver_ok this _ s] s show ?thesis by blast
qed

end
