(* ===== verification/Spec2Isabelle.thy ===== *)
theory Spec2Isabelle
  imports Program Vectors
begin

text \<open>
  The NVMe block device driver of the L4Re operating system, \<^verbatim>\<open>server/src\<close>.

  \<^bold>\<open>The program.\<close> At its start the driver parses its command line, walks the virtual bus for NVMe
  controllers, constructs a \<^verbatim>\<open>Ctl\<close> for each (which resets and enables the hardware) and starts the
  controller's identification. The identification is a chain of admin commands whose completion
  callbacks issue the next command; it creates a \<^verbatim>\<open>Namespace\<close> with a pair of I/O queues for every
  usable namespace, and hands it to the device manager of libblock-device as an \<^verbatim>\<open>Nvme_device\<close>.
  Clients reach a device through the factory call \<^verbatim>\<open>op_create\<close>; their requests arrive at
  \<^verbatim>\<open>Nvme_device::inout_data\<close>, \<^verbatim>\<open>flush\<close> and \<^verbatim>\<open>discard\<close>, become entries of the namespace's submission
  queue, and end in a callback that the interrupt handler finds by the identifier of the completion.

  \<^bold>\<open>Theories.\<close>
  \<^item> \<open>Nvme_Prelude\<close>: machine integers, errors (\<open>drv_result\<close> for exceptions, assertions and undefined
    behaviour, \<open>l4_ret\<close> for error codes), bit fields with their locale \<open>bitfield\<close>, page arithmetic.
  \<^item> \<open>Nvme_Types\<close> (\<^verbatim>\<open>nvme_types.h\<close>): codes, offsets, registers; each register field and, in \<open>Queues\<close>,
    each field of a queue entry is an interpretation of \<open>bitfield\<close>.
  \<^item> \<open>Dma_Buffer\<close> (\<^verbatim>\<open>inout_buffer.h\<close>, \<^verbatim>\<open>iomem.h\<close>), \<open>Ctl_Base\<close> (the members of \<^verbatim>\<open>ctl.h\<close> that a block device
    reads).
  \<^item> \<open>Queues\<close> (\<^verbatim>\<open>queue.h\<close>): queue entries, submission and completion queue. \<open>Queue_Laws\<close>: the invariant
    of the submission queue, its contract, and the locale \<open>command_table\<close> (issue and retire on the
    map of outstanding commands; no callback lost or duplicated), interpreted on the queue.
    \<open>Completion_Ring\<close>: the phase-tagged ring as a FIFO. \<open>Queue_Pair\<close>: both queues together with a
    controller as a step relation, with the reachable states and their invariant.
  \<^item> \<open>Msi\<close> (\<^verbatim>\<open>msi_allocator.h\<close>, \<^verbatim>\<open>icu.h\<close>): the locale \<open>msi_allocator\<close> is the abstract class; \<open>bitmap_scan\<close>
    is the documented behaviour of the search in the bitmap of the cxx library; a sublocale derives
    the first from the second for the class \<^verbatim>\<open>Icu\<close>.
  \<^item> \<open>Pci\<close> (\<^verbatim>\<open>pci.h\<close>): capability list, MSI and MSI-X configuration, vector numbers.
  \<^item> \<open>Namespaces\<close> (\<^verbatim>\<open>ns.h\<close>, \<^verbatim>\<open>ns.cc\<close>): the namespace and its commands. \<open>Namespace_Irq\<close>: its interrupt
    handler.
  \<^item> \<open>Block_Dev\<close> and \<open>Disk\<close> (\<^verbatim>\<open>nvme_device.h\<close>, \<^verbatim>\<open>nvme_device.cc\<close>): requests, limits; device names, mapping
    of client memory, partitions. \<open>Prp_List\<close>: what the controller reads of a PRP list, and the list
    in closed form. \<open>Transfers\<close>: the properties of single requests. \<open>Device_Runs\<close> and \<open>Device_Irq\<close>:
    requests, controller and interrupt handler in any interleaving, as the step relation \<open>dev_step\<close>
    on a queue pair with the history of its requests, which refines a pool of open requests; the
    handler, with a client that submits from its callbacks, as a run of that relation.
  \<^item> \<open>Controller\<close> (\<^verbatim>\<open>ctl.h\<close>, \<^verbatim>\<open>ctl.cc\<close>): constructor, interrupt set-up, creation of queues.
    \<open>Controller_Laws\<close>: their properties.
  \<^item> \<open>Identification\<close> (\<^verbatim>\<open>ctl.cc\<close>, \<^verbatim>\<open>ns.cc\<close>): the asynchronous identification, with the lambdas of the
    code as the constructors of \<open>admin_cb\<close>, and \<^verbatim>\<open>Ctl::handle_irq\<close>. \<open>Admin_Rounds\<close>: the admin queues
    between two interrupts, and a controller that answers. \<open>Identification_Laws\<close> and
    \<open>Interrupt_Laws\<close>: their properties. \<open>Vectors\<close>: the account of the interrupt vectors, under any
    answers and failures. \<open>System_Runs\<close>: all namespaces of a controller at run time, as the step
    relation \<open>sys_step\<close> that lifts \<open>dev_step\<close> to the heap of the driver, with the controller's
    interrupt handler as a run of it.
  \<^item> \<open>Service\<close>, \<open>Options\<close>, \<open>Discovery\<close> (\<^verbatim>\<open>main.cc\<close>): the factory call, the command line, the loop over the
    bus and the count of the scans in progress. \<open>Discovery_Laws\<close>: the properties of the latter.
    \<open>Startup\<close>: \<^verbatim>\<open>main\<close> and \<^verbatim>\<open>setup_hardware\<close>, which put these together. \<open>Program\<close>: from \<^verbatim>\<open>main\<close> to the
    initial states of the block devices and of the system of each controller.

  \<^bold>\<open>State and effects.\<close> A class is a record, an operation a function that returns the changed record.
  Memory that the controller shares (queue entries, PRP and SGL memory) is part of the queue's record;
  a pointer into it is an index. Doorbell writes, register accesses, configuration writes, interrupt
  set-up and unmap requests are returned as lists of events in the order in which they happen. What is
  outside \<^verbatim>\<open>src\<close> is an argument: the answers of the L4Re services and of libblock-device, the
  configuration space, the registers (a function of the history of accesses), the contents of
  uninitialised members. Namespaces are in a heap, since callbacks and the controller refer to them by
  pointer; a pointer that is not in it is \<open>Null_deref\<close>.

  \<^bold>\<open>What is shown.\<close> Of the queue pair, in every state that any interleaving of
  driver and controller reaches: no assertion fails, every completion finds its callback,
  callbacks are run once, in the order of the completions, with their own status; commands are
  fetched in the order of their submission. Of requests: the one command that is submitted covers
  exactly the bytes and blocks of the request, in PRP and in SGL form, where the controller finds
  a list only at the command's own place in the queue's memory; the limits the device
  announces keep requests within what the controller takes; errors have no effect. Of the block
  device as a whole: it refines a pool in which every request is finished once, by its own
  callback, with the size it was promised or an error; while a command is outstanding its lists
  stay what they were; no request that keeps to the limits fails an assertion; the interrupt
  handler is a run of the device; from every state all requests can still be answered; the I/O
  queues carry only commands of the kind their callbacks expect. Of the controller: the order of
  the bring-up and of the interrupt set-up, and the message the device is programmed with; the
  commands that create queues announce the queues that are created; vectors and MSIs agree. Of the identification: it ends, and has made exactly
  the usable namespaces visible, from the constructor on and for every controller that the
  discovery keeps; one interrupt of the controller is a run of all its block devices that serves
  everything that has been posted; no interrupt vector is lost or shared. Of the program: its
  switches are in force in every controller, and each namespace that is made available is an
  initial state of a block device, so that everything shown of the runs of a device holds of it.
  Of the service: it is registered exactly once, when the last scan has ended; documented factory
  calls and command lines have exactly the documented effect, and no factory call of any form
  requests a client outside the limits. Where the code does not do what it means to, the property
  says what it does: the fall-back interrupt vector, empty requests, doorbells outside the
  mapping, no namespaces, and clients on the command line before the first \<^verbatim>\<open>--register-ds\<close>, which
  are not validated.

  \<^bold>\<open>Loops and bounds.\<close> The polling loops, the walk of the capability list and
  the loops of the interrupt handlers are \<open>partial_function (option)\<close>: not returning
  is \<open>None\<close> (\<open>Hang\<close> in the operations that contain them), and that they
  return is proved. The PRP loop is a \<open>function\<close> with a measure. The controller's
  reading of a PRP list, \<open>walk_prps\<close>, has fuel 1025, the entries of the largest
  request (two list pages and the first entry). The identification of \<open>nn\<close> namespaces
  takes at most \<open>3 * nn + 1\<close> rounds: the Identify command, and per namespace Identify
  and two queues. \<open>nn\<close> is taken to be below 65536, since queue identifiers have 16
  bits (the code asserts this). The count of scans is a 32 bit number; it is assumed that there
  are fewer devices than that. The namespace interrupt handler takes one entry per round, and the
  requests of the callbacks post none, so it ends after the entries that were posted when it
  began.

  \<^bold>\<open>Not modelled.\<close> The server loop and the handling of power management that
  \<^verbatim>\<open>main\<close> enters are code of L4Re; the deletion interrupt and the device
  factory forward to libblock-device, as does the start of a client, of which only the request is
  modelled; all printing, and of \<^verbatim>\<open>debug.h\<close> everything but the levels;
  \<^verbatim>\<open>Nvme_device::reset\<close>, which is empty. The mutex of the MSI bitmap is
  left out, because the driver has one thread. \<^verbatim>\<open>getopt_long\<close> is not
  modelled: the command line begins with what it returns.
\<close>

end
